(* ===== verification/Prelude.thy ===== *)
theory Prelude
  imports Main "HOL-Library.Word" "HOL-Library.Monad_Syntax"
begin

text \<open>
  Shared vocabulary of the development: the C integer types the sources use, the bytes of a
  packed table seen as one bit string, and the generic facts on lists, bits and the option
  monad that the component theories rest on.

  A function of the sources that can stop the process (\<open>psc_assert\<close>, \<open>psc_fatalx\<close>,
  \<open>psc_fatal\<close>, a NULL dereference) returns an option: \<^term>\<open>None\<close> is the aborted
  process. A C error code is an \<open>int\<close>, as the sources return it.
\<close>

unbundle bit_operations_syntax

type_synonym u8 = "8 word"
type_synonym u16 = "16 word"
type_synonym u32 = "32 word"
type_synonym u64 = "64 word"

subsection \<open>Aborting the process\<close>

definition psc_assert :: "bool \<Rightarrow> unit option" where
  "psc_assert c = (if c then Some () else None)"

lemma psc_assert_bind [simp]:
  "(psc_assert c \<bind> f = Some y) \<longleftrightarrow> c \<and> f () = Some y"
  by (simp add: psc_assert_def)

lemma psc_assert_bind_None [simp]:
  "(psc_assert c \<bind> f = None) \<longleftrightarrow> \<not> c \<or> f () = None"
  by (simp add: psc_assert_def)

lemma psc_assert_True [simp]: "psc_assert True = Some ()"
  by (simp add: psc_assert_def)

lemma psc_assert_False [simp]: "psc_assert False = None"
  by (simp add: psc_assert_def)

subsection \<open>Bits of machine words\<close>

lemma bit_unat: "bit (unat (w :: 'a::len word)) k \<longleftrightarrow> bit w k"
  by (auto simp: bit_unsigned_iff possible_bit_def dest: bit_imp_le_length)

lemma bit_u8_u32: "bit (ucast (x::u8) :: u32) k \<longleftrightarrow> bit x k"
  by (auto simp: bit_unsigned_iff possible_bit_def dest: bit_imp_le_length)

lemma bit_u32_u8: "bit (ucast (x::u32) :: u8) k \<longleftrightarrow> k < 8 \<and> bit x k"
  by (auto simp: bit_unsigned_iff possible_bit_def dest: bit_imp_le_length)

lemma bit_u8_less: "bit (x::u8) k \<Longrightarrow> k < 8"
  by (auto dest: bit_imp_le_length)

lemma bit_int_less: "0 \<le> v \<Longrightarrow> v < 2 ^ n \<Longrightarrow> bit (v::int) k \<Longrightarrow> k < n"
  using bit_take_bit_iff [of n v k] by (simp add: take_bit_int_eq_self)

subsection \<open>A byte table as one bit string\<close>

definition tbl_bit :: "u8 list \<Rightarrow> nat \<Rightarrow> bool" where
  "tbl_bit data p = bit (data ! (p div 8)) (p mod 8)"

lemma split_bit_pos:
  fixes off k :: nat
  assumes "k < 8"
  shows "(off + k) div 8 = off div 8 + (if off mod 8 + k < 8 then 0 else 1)"
    and "(off + k) mod 8 = (if off mod 8 + k < 8 then off mod 8 + k else off mod 8 + k - 8)"
proof -
  define q r where "q = off div 8" and "r = off mod 8"
  have off: "off = 8 * q + r" and r: "r < 8" by (simp_all add: q_def r_def)
  have small: "(8 * q + (r + k)) div 8 = q + (r + k) div 8"
    "(8 * q + (r + k)) mod 8 = (r + k) mod 8" by simp_all
  have "(r + k) div 8 = (if r + k < 8 then 0 else 1)"
    "(r + k) mod 8 = (if r + k < 8 then r + k else r + k - 8)"
    using r assms by (auto simp add: div_if mod_if)
  with small show "(off + k) div 8 = off div 8 + (if off mod 8 + k < 8 then 0 else 1)"
    and "(off + k) mod 8 = (if off mod 8 + k < 8 then off mod 8 + k else off mod 8 + k - 8)"
    using r by (simp_all add: off add.assoc)
qed

end
