(* ===== verification/Bmap_Seq.thy ===== *)
theory Bmap_Seq
  imports Prelude "HOL-Library.Word"
begin

text \<open>
  Sequence numbers of bmap leases: the table of leases by age on the metadata server
  (\<open>slashd/mds_bmap_timeo.c\<close>) and the lowest number an I/O server accepts
  (\<open>sliod/bmap_iod.c\<close>). A lease is known by its address. The table lists, in order, the
  leases with the sequence numbers they carry; the assignment to \<open>bml_seq\<close> that follows an
  insertion is \<open>btt_setseq\<close>. The counter of the function that journals every hundredth change
  is part of the table, as are the records it wrote.
\<close>

subsection \<open>Leases (\<open>slashd/bmap_mds.h\<close>)\<close>

record bmap_mds_lease =
  bml_id :: nat
  bml_seq :: u64
  bml_refcnt :: int
  bml_ios :: u32
  bml_cli :: "u64 \<times> u32"
  bml_write :: bool
  bml_dio :: bool
  bml_diocb :: bool
  bml_timeoq :: bool
  bml_bmi :: bool
  bml_recover :: bool
  bml_chain :: bool
  bml_freeing :: bool
  bml_assfail :: bool
  bml_recoverfail :: bool
  bml_exp :: bool
  bml_expire :: nat

record bmap_timeo_table =
  btt_maxseq :: u64
  btt_minseq :: u64
  btt_leases :: "(nat \<times> u64) list"
  btt_log :: nat
  btt_jrnl :: "(u64 \<times> u64) list"

abbreviation (input) BMAPSEQ_ANY :: u64 where "BMAPSEQ_ANY \<equiv> 0xffffffffffffffff"
abbreviation (input) BMAP_SEQLOG_FACTOR :: nat where "BMAP_SEQLOG_FACTOR \<equiv> 100"

datatype bte = BTE_ADD | BTE_DEL | BTE_REATTACH

subsection \<open>The table (\<open>slashd/mds_bmap_timeo.c\<close>)\<close>

definition mds_bmap_setcurseq :: "u64 \<Rightarrow> u64 \<Rightarrow> bmap_timeo_table \<Rightarrow> bmap_timeo_table" where
  "mds_bmap_setcurseq maxseq minseq t = t\<lparr>btt_maxseq := maxseq, btt_minseq := minseq\<rparr>"

definition mds_bmap_getcurseq :: "bmap_timeo_table \<Rightarrow> u64 \<times> u64" where
  "mds_bmap_getcurseq t = (btt_maxseq t, btt_minseq t)"

definition mds_bmap_timeotbl_journal_seqno :: "bmap_timeo_table \<Rightarrow> bmap_timeo_table" where
  "mds_bmap_timeotbl_journal_seqno t =
     (let l = btt_log t + 1
      in t\<lparr>btt_log := l,
           btt_jrnl := (if l mod BMAP_SEQLOG_FACTOR = 0
                        then btt_jrnl t @ [(btt_maxseq t, btt_minseq t)] else btt_jrnl t)\<rparr>)"

definition mds_bmap_timeotbl_getnextseq :: "bmap_timeo_table \<Rightarrow> u64 \<times> bmap_timeo_table" where
  "mds_bmap_timeotbl_getnextseq t =
     (let m = btt_maxseq t + 1;
          hwm = (if m = BMAPSEQ_ANY then 1 else m)
      in (hwm, mds_bmap_timeotbl_journal_seqno (t\<lparr>btt_maxseq := hwm\<rparr>)))"

definition mds_bmap_timeotbl_remove :: "nat \<Rightarrow> bmap_timeo_table \<Rightarrow> bmap_timeo_table" where
  "mds_bmap_timeotbl_remove bml t =
     (let update = (case btt_leases t of [] \<Rightarrow> False | (x, _) # _ \<Rightarrow> x = bml);
          rest = filter (\<lambda>(x, _). x \<noteq> bml) (btt_leases t);
          t' = t\<lparr>btt_leases := rest\<rparr>
      in if update
         then mds_bmap_timeotbl_journal_seqno
                (t'\<lparr>btt_minseq := (case rest of [] \<Rightarrow> btt_maxseq t | (_, s) # _ \<Rightarrow> s)\<rparr>)
         else t')"

definition btt_addtail :: "nat \<Rightarrow> u64 \<Rightarrow> bmap_timeo_table \<Rightarrow> bmap_timeo_table" where
  "btt_addtail bml seq t = t\<lparr>btt_leases := btt_leases t @ [(bml, seq)]\<rparr>"

definition btt_setseq :: "nat \<Rightarrow> u64 \<Rightarrow> bmap_timeo_table \<Rightarrow> bmap_timeo_table" where
  "btt_setseq bml seq t =
     t\<lparr>btt_leases := map (\<lambda>(x, s). (x, if x = bml then seq else s)) (btt_leases t)\<rparr>"

definition mds_bmap_timeotbl_mdsi ::
    "bmap_mds_lease \<Rightarrow> bte \<Rightarrow> bmap_timeo_table \<Rightarrow> u64 \<times> bmap_mds_lease \<times> bmap_timeo_table" where
  "mds_bmap_timeotbl_mdsi bml flags t =
     (if flags = BTE_DEL
      then (BMAPSEQ_ANY, bml\<lparr>bml_timeoq := False\<rparr>, mds_bmap_timeotbl_remove (bml_id bml) t)
      else
        let (seq, t) = (if flags = BTE_REATTACH
              then if btt_maxseq t < bml_seq bml then (bml_seq bml, t\<lparr>btt_maxseq := bml_seq bml\<rparr>)
                   else if btt_minseq t > bml_seq bml then (BMAPSEQ_ANY, t)
                   else (bml_seq bml, t)
              else mds_bmap_timeotbl_getnextseq t);
            t = (if bml_timeoq bml then mds_bmap_timeotbl_remove (bml_id bml) t else t)
        in (seq, bml\<lparr>bml_timeoq := True\<rparr>, btt_addtail (bml_id bml) (bml_seq bml) t))"

subsection \<open>The lowest accepted number (\<open>sliod/bmap_iod.c\<close>)\<close>

definition bim_updateseq :: "u64 \<Rightarrow> u64 \<Rightarrow> int \<times> u64" where
  "bim_updateseq seq bim_minseq =
     (if seq = BMAPSEQ_ANY then (1, bim_minseq)
      else if seq = bim_minseq then (0, bim_minseq)
      else if seq > bim_minseq \<or> bim_minseq = BMAPSEQ_ANY then (0, seq)
      else if seq \<ge> bim_minseq - of_nat BMAP_SEQLOG_FACTOR then (0, seq)
      else (1, bim_minseq))"

text \<open>
  \<open>bim_getcurseq\<close> asks the metadata server when its value is old, and again after each
  failure. The replies to come, an error or a number each, are a list; \<open>None\<close> means that it
  is still asking when they are used up.
\<close>

fun bim_getcurseq :: "bool \<Rightarrow> (int + u64) list \<Rightarrow> u64 \<Rightarrow> u64 option" where
  "bim_getcurseq aged replies bim_minseq =
     (if aged \<or> bim_minseq = BMAPSEQ_ANY
      then case replies of [] \<Rightarrow> None
           | Inl rc # rs \<Rightarrow> bim_getcurseq aged rs bim_minseq
           | Inr seq # rs \<Rightarrow>
               (let (rc, m) = bim_updateseq seq bim_minseq
                in if rc \<noteq> 0 then bim_getcurseq aged rs m else Some m)
      else Some bim_minseq)"

declare bim_getcurseq.simps [simp del]

subsection \<open>Steps of the table\<close>

text \<open>
  What the metadata server does with the table between restarts: a write lease is entered and
  takes the number it is given, a lease that is queued is renewed, a read lease takes a number
  before it is entered, and a lease leaves. Numbers do not wrap around.
\<close>

abbreviation btt_ids :: "bmap_timeo_table \<Rightarrow> nat set" where
  "btt_ids t \<equiv> fst ` set (btt_leases t)"

inductive btt_step :: "bmap_timeo_table \<Rightarrow> bmap_timeo_table \<Rightarrow> bool" where
  write_lease: "mds_bmap_timeotbl_mdsi b BTE_ADD t = (seq, b', t') \<Longrightarrow> btt_maxseq t < BMAPSEQ_ANY - 2 \<Longrightarrow>
    bml_timeoq b \<longleftrightarrow> bml_id b \<in> btt_ids t \<Longrightarrow> btt_step t (btt_setseq (bml_id b) seq t')"
| read_lease: "mds_bmap_timeotbl_getnextseq t = (s, t1) \<Longrightarrow> btt_maxseq t < BMAPSEQ_ANY - 2 \<Longrightarrow>
    mds_bmap_timeotbl_mdsi (b\<lparr>bml_seq := s\<rparr>) BTE_ADD t1 = (seq, b', t') \<Longrightarrow>
    \<not> bml_timeoq b \<Longrightarrow> bml_id b \<notin> btt_ids t \<Longrightarrow> btt_step t t'"
| drop_lease: "mds_bmap_timeotbl_mdsi b BTE_DEL t = (seq, b', t') \<Longrightarrow> btt_step t t'"

definition btt_ok :: "bmap_timeo_table \<Rightarrow> bool" where
  "btt_ok t \<longleftrightarrow> distinct (map fst (btt_leases t)) \<and> sorted (map snd (btt_leases t)) \<and>
     btt_minseq t \<le> btt_maxseq t \<and>
     (\<forall>(x, s) \<in> set (btt_leases t). btt_minseq t \<le> s \<and> s \<le> btt_maxseq t)"

lemma seq_next:
  fixes x :: u64
  assumes "x < BMAPSEQ_ANY - 1"
  shows "x < x + 1" "x + 1 \<noteq> BMAPSEQ_ANY" "y \<le> x \<Longrightarrow> y < x + 1"
    "x < BMAPSEQ_ANY - 2 \<Longrightarrow> x + 1 < BMAPSEQ_ANY - 1"
proof -
  have u: "unat x < 18446744073709551614" using assms by (simp add: word_less_nat_alt)
  then have s: "unat (x + 1) = unat x + 1" by (simp add: unat_word_ariths)
  show "x < x + 1" "y \<le> x \<Longrightarrow> y < x + 1" using s by (simp_all add: word_less_nat_alt word_le_nat_alt)
  show "x + 1 \<noteq> BMAPSEQ_ANY" using s u by (auto dest: arg_cong [of _ _ unat])
  show "x < BMAPSEQ_ANY - 2 \<Longrightarrow> x + 1 < BMAPSEQ_ANY - 1" using s by (simp add: word_less_nat_alt)
qed

lemma hd_least:
  "sorted (map snd r) \<Longrightarrow> (x, s) \<in> set r \<Longrightarrow> (case r of [] \<Rightarrow> m | (_, s) # _ \<Rightarrow> s) \<le> s"
  by (cases r) auto

lemma journal_simps [simp]:
  "btt_maxseq (mds_bmap_timeotbl_journal_seqno t) = btt_maxseq t"
  "btt_minseq (mds_bmap_timeotbl_journal_seqno t) = btt_minseq t"
  "btt_leases (mds_bmap_timeotbl_journal_seqno t) = btt_leases t"
  by (simp_all add: mds_bmap_timeotbl_journal_seqno_def Let_def)

lemma getnextseq_facts:
  assumes "mds_bmap_timeotbl_getnextseq t = (s, t')" "btt_maxseq t + 1 \<noteq> BMAPSEQ_ANY"
  shows "s = btt_maxseq t + 1" "btt_maxseq t' = s" "btt_minseq t' = btt_minseq t" "btt_leases t' = btt_leases t"
  using assms by (auto simp: mds_bmap_timeotbl_getnextseq_def Let_def)

lemma remove_leases [simp]:
  "btt_leases (mds_bmap_timeotbl_remove b t) = filter (\<lambda>(x, _). x \<noteq> b) (btt_leases t)"
  "btt_maxseq (mds_bmap_timeotbl_remove b t) = btt_maxseq t"
  by (simp_all add: mds_bmap_timeotbl_remove_def Let_def)

lemma remove_minseq:
  assumes "btt_ok t"
  shows "btt_minseq t \<le> btt_minseq (mds_bmap_timeotbl_remove b t)"
    "(x, s) \<in> set (filter (\<lambda>(x, _). x \<noteq> b) (btt_leases t)) \<Longrightarrow> btt_minseq (mds_bmap_timeotbl_remove b t) \<le> s"
    "btt_minseq (mds_bmap_timeotbl_remove b t) \<le> btt_maxseq t"
proof -
  let ?r = "filter (\<lambda>(x, _). x \<noteq> b) (btt_leases t)"
  have srt: "sorted (map snd ?r)"
    using assms by (auto simp: btt_ok_def intro: sorted_filter)
  have sub: "set ?r \<subseteq> set (btt_leases t)" by auto
  have hd: "(case ?r of [] \<Rightarrow> btt_maxseq t | (_, s) # _ \<Rightarrow> s) \<le> s" if "(x, s) \<in> set ?r" for x s
    using hd_least [OF srt that] .
  have b: "btt_minseq t \<le> (case ?r of [] \<Rightarrow> btt_maxseq t | (_, s) # _ \<Rightarrow> s)"
      "(case ?r of [] \<Rightarrow> btt_maxseq t | (_, s) # _ \<Rightarrow> s) \<le> btt_maxseq t"
  proof -
    have "btt_minseq t \<le> s \<and> s \<le> btt_maxseq t" if "(x, s) # r = ?r" for x s r
      using sub assms unfolding that [symmetric] btt_ok_def by auto
    then show "btt_minseq t \<le> (case ?r of [] \<Rightarrow> btt_maxseq t | (_, s) # _ \<Rightarrow> s)"
        "(case ?r of [] \<Rightarrow> btt_maxseq t | (_, s) # _ \<Rightarrow> s) \<le> btt_maxseq t"
      using assms by (auto simp: btt_ok_def split: list.splits)
  qed
  have m: "btt_minseq (mds_bmap_timeotbl_remove b t) \<in>
      {btt_minseq t, case ?r of [] \<Rightarrow> btt_maxseq t | (_, s) # _ \<Rightarrow> s}"
    by (auto simp: mds_bmap_timeotbl_remove_def Let_def)
  show "btt_minseq t \<le> btt_minseq (mds_bmap_timeotbl_remove b t)" using m b by auto
  show "btt_minseq (mds_bmap_timeotbl_remove b t) \<le> btt_maxseq t"
    using m b assms by (auto simp: btt_ok_def)
  assume "(x, s) \<in> set ?r"
  then show "btt_minseq (mds_bmap_timeotbl_remove b t) \<le> s"
    using m hd [of x s] sub assms by (auto simp: btt_ok_def)
qed

lemma remove_ok: "btt_ok t \<Longrightarrow> btt_ok (mds_bmap_timeotbl_remove b t)"
  using remove_minseq(1,3) [of t b] remove_minseq(2) [of t _ _ b]
  by (auto simp: btt_ok_def case_prod_beta intro: sorted_filter distinct_map_filter)

lemma nextseq_ok:
  assumes "btt_ok t" "mds_bmap_timeotbl_getnextseq t = (s, t')" "btt_maxseq t < BMAPSEQ_ANY - 1"
  shows "btt_ok t'" "s = btt_maxseq t + 1" "btt_maxseq t' = s" "btt_minseq t' = btt_minseq t"
    "btt_leases t' = btt_leases t" "\<And>x q. (x, q) \<in> set (btt_leases t) \<Longrightarrow> q < s"
proof -
  note f = getnextseq_facts [OF assms(2) seq_next(2) [OF assms(3)]]
  note n = seq_next(3) [OF assms(3)]
  show "s = btt_maxseq t + 1" "btt_maxseq t' = s" "btt_minseq t' = btt_minseq t"
    "btt_leases t' = btt_leases t" using f by auto
  show "\<And>x q. (x, q) \<in> set (btt_leases t) \<Longrightarrow> q < s"
    using n f(1) assms(1) by (auto simp: btt_ok_def)
  show "btt_ok t'"
    using assms(1) f n unfolding btt_ok_def by (fastforce intro: less_imp_le)
qed

lemma addtail_ok:
  assumes "btt_ok t" "x \<notin> btt_ids t" "btt_minseq t \<le> q" "q \<le> btt_maxseq t"
    and "\<And>y s. (y, s) \<in> set (btt_leases t) \<Longrightarrow> s \<le> q"
  shows "btt_ok (btt_addtail x q t)"
  using assms unfolding btt_ok_def btt_addtail_def by (auto simp: sorted_append)

lemma setseq_addtail:
  "x \<notin> btt_ids t \<Longrightarrow> btt_setseq x q (btt_addtail x s t) = btt_addtail x q t"
proof -
  assume "x \<notin> btt_ids t"
  then have "map (\<lambda>(y, s). (y, if y = x then q else s)) (btt_leases t) = btt_leases t"
    by (intro map_idI) (auto simp: image_iff)
  then show ?thesis by (simp add: btt_setseq_def btt_addtail_def)
qed

lemma remove_ids: "b \<notin> btt_ids (mds_bmap_timeotbl_remove b t)"
  by auto

lemma addtail_simps [simp]:
  "btt_minseq (btt_addtail x q t) = btt_minseq t" "btt_maxseq (btt_addtail x q t) = btt_maxseq t"
  by (simp_all add: btt_addtail_def)

text \<open>Entering a lease with the number it was given.\<close>

lemma mdsi_add_ok:
  assumes "btt_ok t" "mds_bmap_timeotbl_mdsi b BTE_ADD t = (seq, b', t')" "btt_maxseq t < BMAPSEQ_ANY - 1"
    and "bml_timeoq b \<longleftrightarrow> bml_id b \<in> btt_ids t" "q = seq \<or> q = btt_maxseq t" "btt_minseq t' \<le> q"
  shows "btt_ok (btt_setseq (bml_id b) q t')" "btt_minseq t \<le> btt_minseq t'" "bml_seq b = q \<Longrightarrow>
    bml_id b \<notin> btt_ids t \<Longrightarrow> btt_setseq (bml_id b) q t' = t'"
proof -
  obtain s1 t1 where n: "mds_bmap_timeotbl_getnextseq t = (s1, t1)" by fastforce
  note k = nextseq_ok [OF assms(1) n assms(3)]
  define t2 where "t2 = (if bml_timeoq b then mds_bmap_timeotbl_remove (bml_id b) t1 else t1)"
  have t': "seq = s1" "t' = btt_addtail (bml_id b) (bml_seq b) t2"
    using assms(2) n by (auto simp: mds_bmap_timeotbl_mdsi_def t2_def Let_def)
  have i2: "bml_id b \<notin> btt_ids t2"
    using assms(4) k(5) remove_ids [of "bml_id b" t1] by (simp add: t2_def)
  have ok2: "btt_ok t2" using k(1) remove_ok by (simp add: t2_def)
  have m2: "btt_minseq t \<le> btt_minseq t2"
    using remove_minseq(1) [OF k(1), of "bml_id b"] k(4) by (simp add: t2_def)
  have le: "s \<le> q" if "(y, s) \<in> set (btt_leases t2)" for y s
  proof -
    have "(y, s) \<in> set (btt_leases t)" using that k(5) by (auto simp: t2_def split: if_splits)
    then show ?thesis using assms(1,5) k(6) t'(1) by (auto simp: btt_ok_def intro: less_imp_le)
  qed
  have mx: "q \<le> btt_maxseq t2"
    using assms(5) k(2,3) t'(1) seq_next(1) [OF assms(3)] by (auto simp: t2_def intro: less_imp_le)
  show "btt_minseq t \<le> btt_minseq t'" using m2 t'(2) by simp
  show "btt_ok (btt_setseq (bml_id b) q t')"
    using addtail_ok [OF ok2 i2 _ mx le] assms(6) t'(2) by (simp add: setseq_addtail [OF i2])
  show "btt_setseq (bml_id b) q t' = t'" if "bml_seq b = q" "bml_id b \<notin> btt_ids t"
    using that t'(2) by (simp add: setseq_addtail [OF i2])
qed

lemma write_step_ok:
  assumes "btt_ok t" "mds_bmap_timeotbl_mdsi b BTE_ADD t = (seq, b', t')" "btt_maxseq t < BMAPSEQ_ANY - 2"
    and "bml_timeoq b \<longleftrightarrow> bml_id b \<in> btt_ids t"
  shows "btt_ok (btt_setseq (bml_id b) seq t')" "btt_minseq t \<le> btt_minseq t'"
proof -
  have lt: "btt_maxseq t < BMAPSEQ_ANY - 1"
    using assms(3) by (rule order.strict_trans) simp
  obtain s1 t1 where n: "mds_bmap_timeotbl_getnextseq t = (s1, t1)" by fastforce
  note k = nextseq_ok [OF assms(1) n lt]
  have "btt_minseq t' = btt_minseq (if bml_timeoq b then mds_bmap_timeotbl_remove (bml_id b) t1 else t1)"
      "seq = s1"
    using assms(2) n by (auto simp: mds_bmap_timeotbl_mdsi_def Let_def)
  then have "btt_minseq t' \<le> seq"
    using remove_minseq(3) [OF k(1), of "bml_id b"] k(1,3) by (auto simp: btt_ok_def split: if_splits)
  then show "btt_ok (btt_setseq (bml_id b) seq t')" "btt_minseq t \<le> btt_minseq t'"
    using mdsi_add_ok [OF assms(1,2) lt assms(4), of seq] by simp_all
qed

lemma read_step_ok:
  assumes "btt_ok t" "mds_bmap_timeotbl_getnextseq t = (s, t1)" "btt_maxseq t < BMAPSEQ_ANY - 2"
    and "mds_bmap_timeotbl_mdsi (b\<lparr>bml_seq := s\<rparr>) BTE_ADD t1 = (seq, b', t')"
    and "\<not> bml_timeoq b" "bml_id b \<notin> btt_ids t"
  shows "btt_ok t'" "btt_minseq t \<le> btt_minseq t'"
proof -
  have lt: "btt_maxseq t < BMAPSEQ_ANY - 1"
    using assms(3) by (rule order.strict_trans) simp
  note k = nextseq_ok [OF assms(1,2) lt]
  have lt1: "btt_maxseq t1 < BMAPSEQ_ANY - 1" using k(2,3) seq_next(4) [OF lt assms(3)] by simp
  obtain s2 t2 where n2: "mds_bmap_timeotbl_getnextseq t1 = (s2, t2)" by fastforce
  note k2 = nextseq_ok [OF k(1) n2 lt1]
  have "btt_minseq t' = btt_minseq t2"
    using assms(4,5) n2 by (auto simp: mds_bmap_timeotbl_mdsi_def Let_def)
  then have "btt_minseq t' \<le> s" using k(1,3) k2(4) by (simp add: btt_ok_def)
  then show "btt_ok t'" "btt_minseq t \<le> btt_minseq t'"
    using mdsi_add_ok [OF k(1) assms(4) lt1, of s] assms(5,6) k(3,4,5) by simp_all
qed

lemma setseq_minseq [simp]: "btt_minseq (btt_setseq x q t) = btt_minseq t"
  by (simp add: btt_setseq_def)

lemma btt_step_ok: "btt_step t t' \<Longrightarrow> btt_ok t \<Longrightarrow> btt_ok t' \<and> btt_minseq t \<le> btt_minseq t'"
proof (induction rule: btt_step.induct)
  case (write_lease b t seq b' t')
  then show ?case using write_step_ok by simp
next
  case (read_lease t s t1 b seq b' t')
  then show ?case using read_step_ok by blast
next
  case (drop_lease b t seq b' t')
  then show ?case using remove_ok remove_minseq(1) by (auto simp: mds_bmap_timeotbl_mdsi_def)
qed

lemma btt_steps_ok: "btt_step\<^sup>*\<^sup>* t t' \<Longrightarrow> btt_ok t \<Longrightarrow> btt_ok t' \<and> btt_minseq t \<le> btt_minseq t'"
  by (induction rule: rtranclp_induct) (auto dest: btt_step_ok)

lemma bim_update_up: "m \<le> seq \<Longrightarrow> seq \<noteq> BMAPSEQ_ANY \<Longrightarrow> bim_updateseq seq m = (0, seq)"
  by (auto simp: bim_updateseq_def)

subsection \<open>Properties\<close>


definition btt_ex :: bmap_timeo_table where
  "btt_ex = \<lparr>btt_maxseq = 5, btt_minseq = 4, btt_leases = [(1, 4), (2, 5)], btt_log = 99, btt_jrnl = []\<rparr>"

definition bml_ex :: "nat \<Rightarrow> bmap_mds_lease" where
  "bml_ex i = \<lparr>bml_id = i, bml_seq = 0, bml_refcnt = 1, bml_ios = 0, bml_cli = (1, 1), bml_write = True,
     bml_dio = False, bml_diocb = False, bml_timeoq = False, bml_bmi = False, bml_recover = False,
     bml_chain = False, bml_freeing = False, bml_assfail = False, bml_recoverfail = False,
     bml_exp = True, bml_expire = 0\<rparr>"

definition btt_ex2 :: bmap_timeo_table where
  "btt_ex2 = \<lparr>btt_maxseq = 6, btt_minseq = 4, btt_leases = [(1, 4), (2, 5), (3, 6)], btt_log = 100,
     btt_jrnl = [(6, 4)]\<rparr>"

lemma btt_ex_step: "btt_step btt_ex btt_ex2"
proof -
  have "mds_bmap_timeotbl_mdsi (bml_ex 3) BTE_ADD btt_ex =
      (6, (bml_ex 3)\<lparr>bml_timeoq := True\<rparr>, btt_ex2\<lparr>btt_leases := [(1, 4), (2, 5), (3, 0)]\<rparr>)"
    by (simp add: mds_bmap_timeotbl_mdsi_def mds_bmap_timeotbl_getnextseq_def btt_addtail_def
        mds_bmap_timeotbl_journal_seqno_def btt_ex_def btt_ex2_def bml_ex_def)
  then have "btt_step btt_ex (btt_setseq (bml_id (bml_ex 3)) 6
      (btt_ex2\<lparr>btt_leases := [(1, 4), (2, 5), (3, 0)]\<rparr>))"
    by (rule btt_step.write_lease) (simp_all add: btt_ex_def bml_ex_def)
  then show ?thesis by (simp add: btt_setseq_def btt_ex2_def bml_ex_def)
qed

lemma btt_ex_ok: "btt_ok btt_ex"
  by (simp add: btt_ok_def btt_ex_def)




text \<open>
  C32: the I/O server accepts a number up to one hundred below its minimum, which is meant for a
  metadata server that restarted. While its minimum is itself below one hundred the subtraction
  wraps around and every lower number is refused: the server keeps asking however often it gets
  that answer.
\<close>

theorem bim_updateseq_wraps:
  assumes "seq < m" "m < 100"
  shows "bim_updateseq seq m = (1, m) \<and> bim_getcurseq True (replicate n (Inr seq)) m = None"
proof -
  have m: "unat m < 100" using assms(2) by (simp add: word_less_nat_alt)
  then have "unat (m - 100) = 18446744073709551616 + unat m - 100"
    by (simp add: unat_sub_if_size word_size)
  then have w: "\<not> m - 100 \<le> seq"
    using assms(1) m by (simp add: word_le_nat_alt word_less_nat_alt)
  have a: "seq \<noteq> BMAPSEQ_ANY" "m \<noteq> BMAPSEQ_ANY"
    using assms(2) order.strict_trans [OF assms] by auto
  have u: "bim_updateseq seq m = (1, m)" using assms(1) w a by (auto simp: bim_updateseq_def)
  moreover have "bim_getcurseq True (replicate n (Inr seq)) m = None"
    by (induction n) (simp_all add: bim_getcurseq.simps u)
  ultimately show ?thesis by blast
qed

theorem bim_updateseq_wraps_witness:
  "bim_updateseq 10 50 = (1, 50) \<and> bim_getcurseq True (replicate 3 (Inr 10)) 50 = None"
  using bim_updateseq_wraps [of 10 50 3] by simp

end
