(* ===== verification/Config.thy ===== *)
theory Config
  imports Prelude
begin

text \<open>
  The deployment configuration shared by all daemons (\<open>include/slconfig.h\<close>,
  \<open>share/cfg_common.c\<close>): sites hold resources, resources hold members, and a resource
  is found by its 32-bit I/O system identifier, by a network address of one of its members or
  by its \<open>resource@SITE\<close> name. A member carries the identifier, type and name of its
  native resource, which is what the \<open>resm_*\<close> macros read through the back pointer.
  The resource hash table of the PFL library is a map from identifiers.
\<close>

subsection \<open>Data\<close>

datatype sl_res_type =
    SLREST_NONE
  | SLREST_ARCHIVAL_FS
  | SLREST_CLUSTER_NOSHARE_LFS
  | SLREST_MDS
  | SLREST_PARALLEL_COMPNT
  | SLREST_PARALLEL_LFS
  | SLREST_STANDALONE_FS

record sl_resm =
  resm_nids :: "u64 list"
  resm_res_id :: u32
  resm_type :: sl_res_type
  resm_name :: string

record sl_resource =
  res_id :: u32
  res_type :: sl_res_type
  res_name :: string
  res_members :: "sl_resm list"

record sl_site =
  site_name :: string
  site_id :: u16
  site_resources :: "sl_resource list"

record sl_config =
  gconf_sites :: "sl_site list"
  gconf_res_hashtbl :: "u32 \<rightharpoonup> sl_resource"

abbreviation (input) IOS_ID_ANY :: u32 where "IOS_ID_ANY \<equiv> - 1"
abbreviation (input) SITE_ID_ANY :: u16 where "SITE_ID_ANY \<equiv> - 1"

definition RES_ISFS :: "sl_resource \<Rightarrow> bool" where
  "RES_ISFS r \<longleftrightarrow> res_type r = SLREST_ARCHIVAL_FS \<or> res_type r = SLREST_PARALLEL_COMPNT \<or>
     res_type r = SLREST_STANDALONE_FS"

definition RES_ISCLUSTER :: "sl_resource \<Rightarrow> bool" where
  "RES_ISCLUSTER r \<longleftrightarrow> res_type r = SLREST_CLUSTER_NOSHARE_LFS \<or>
     res_type r = SLREST_PARALLEL_LFS"

subsection \<open>Global identifiers\<close>

abbreviation (input) SL_SITE_BITS :: nat where "SL_SITE_BITS \<equiv> 16"
abbreviation (input) SL_RES_BITS :: nat where "SL_RES_BITS \<equiv> 16"

definition SL_SITE_MASK :: u32 where
  "SL_SITE_MASK = 0xffff0000"

definition sl_global_id_build :: "u16 \<Rightarrow> u32 \<Rightarrow> u32 option" where
  "sl_global_id_build site intres = do {
     psc_assert (site \<noteq> SITE_ID_ANY);
     psc_assert (intres < push_bit SL_RES_BITS 1 - 1);
     Some (push_bit SL_SITE_BITS (ucast site) OR intres)
   }"

definition sl_resid_to_siteid :: "u32 \<Rightarrow> u16" where
  "sl_resid_to_siteid i = ucast (drop_bit SL_SITE_BITS (i AND SL_SITE_MASK))"

definition sl_resid_to_int :: "u32 \<Rightarrow> u32" where
  "sl_resid_to_int i = i AND NOT SL_SITE_MASK"

subsection \<open>Lookups (\<open>share/cfg_common.c\<close>)\<close>

definition libsl_siteid2site :: "sl_config \<Rightarrow> u16 \<Rightarrow> sl_site option" where
  "libsl_siteid2site cf siteid = find (\<lambda>s. site_id s = siteid) (gconf_sites cf)"

definition libsl_resid2site :: "sl_config \<Rightarrow> u32 \<Rightarrow> sl_site option" where
  "libsl_resid2site cf i = libsl_siteid2site cf (sl_resid_to_siteid i)"

definition libsl_id2res :: "sl_config \<Rightarrow> u32 \<Rightarrow> sl_resource option" where
  "libsl_id2res cf i = gconf_res_hashtbl cf i"

text \<open>The outer option is the aborted process, the inner one the C pointer.\<close>

definition libsl_try_ios2resm :: "sl_config \<Rightarrow> u32 \<Rightarrow> sl_resm option option" where
  "libsl_try_ios2resm cf i =
     (case libsl_id2res cf i of
        None \<Rightarrow> Some None
      | Some r \<Rightarrow> do {
          psc_assert (RES_ISFS r);
          psc_assert (res_members r \<noteq> []);
          Some (Some (res_members r ! 0))
        })"

definition libsl_ios2resm :: "sl_config \<Rightarrow> u32 \<Rightarrow> sl_resm option" where
  "libsl_ios2resm cf i = do {
     m \<leftarrow> libsl_try_ios2resm cf i;
     m
   }"

definition conf_resms :: "sl_config \<Rightarrow> sl_resm list" where
  "conf_resms cf =
     concat (map (\<lambda>s. concat (map res_members (site_resources s))) (gconf_sites cf))"

definition libsl_try_nid2resm :: "sl_config \<Rightarrow> u64 \<Rightarrow> sl_resm option" where
  "libsl_try_nid2resm cf nid = find (\<lambda>m. nid \<in> set (resm_nids m)) (conf_resms cf)"

definition libsl_nid2resm :: "sl_config \<Rightarrow> u64 \<Rightarrow> sl_resm option" where
  "libsl_nid2resm cf nid = libsl_try_nid2resm cf nid"

text \<open>
  \<open>strcasecmp\<close> compares ASCII letters without case; \<open>strchr\<close> gives the text from the
  first occurrence of a character.
\<close>

definition to_lower :: "char \<Rightarrow> char" where
  "to_lower c = (let n = of_char c :: nat in if 65 \<le> n \<and> n \<le> 90 then char_of (n + 32) else c)"

definition strcaseeq :: "string \<Rightarrow> string \<Rightarrow> bool" where
  "strcaseeq s t \<longleftrightarrow> map to_lower s = map to_lower t"

fun strchr :: "string \<Rightarrow> char \<Rightarrow> string option" where
  "strchr [] c = None"
| "strchr (x # xs) c = (if x = c then Some (x # xs) else strchr xs c)"

definition libsl_str2res :: "sl_config \<Rightarrow> string \<Rightarrow> sl_resource option" where
  "libsl_str2res cf name =
     (case strchr name (CHR ''@'') of
        None \<Rightarrow> None
      | Some at \<Rightarrow>
          find (\<lambda>r. strcaseeq (res_name r) name)
            (concat (map site_resources
               (filter (\<lambda>s. strcaseeq (site_name s) (tl at)) (gconf_sites cf)))))"

definition libsl_str2id :: "sl_config \<Rightarrow> string \<Rightarrow> u32" where
  "libsl_str2id cf name =
     (case libsl_str2res cf name of Some r \<Rightarrow> res_id r | None \<Rightarrow> IOS_ID_ANY)"

text \<open>
  \<open>CMP\<close> of the PFL headers gives the sign of the comparison; \<open>slcfg_site_cmp\<close> and
  \<open>slcfg_res_cmp\<close> order by identifier.
\<close>

definition CMP :: "'a::linorder \<Rightarrow> 'a \<Rightarrow> int" where
  "CMP x y = (if x < y then -1 else if x > y then 1 else 0)"

definition slcfg_site_cmp :: "sl_site \<Rightarrow> sl_site \<Rightarrow> int" where
  "slcfg_site_cmp x y = CMP (site_id x) (site_id y)"

definition slcfg_res_cmp :: "sl_resource \<Rightarrow> sl_resource \<Rightarrow> int" where
  "slcfg_res_cmp x y = CMP (res_id x) (res_id y)"

subsection \<open>Lemmas\<close>

lemma CMP_eq_0 [simp]: "CMP x y = 0 \<longleftrightarrow> x = y"
  by (auto simp: CMP_def)

lemma CMP_swap: "CMP y x = - CMP x y"
  by (auto simp: CMP_def)

lemma find_SomeD: "find P xs = Some x \<Longrightarrow> x \<in> set xs \<and> P x"
  by (auto simp: find_Some_iff)

lemma conf_resms_iff:
  "m \<in> set (conf_resms cf) \<longleftrightarrow>
    (\<exists>s \<in> set (gconf_sites cf). \<exists>r \<in> set (site_resources s). m \<in> set (res_members r))"
  by (auto simp: conf_resms_def)

lemma bit_site_mask: "bit SL_SITE_MASK n \<longleftrightarrow> 16 \<le> n \<and> n < 32"
proof -
  have m: "SL_SITE_MASK = push_bit 16 (mask 16)"
    by (simp add: SL_SITE_MASK_def push_bit_eq_mult mask_eq_exp_minus_1)
  show ?thesis unfolding m by (auto simp: bit_push_bit_iff bit_mask_iff)
qed

lemma bit_below_16:
  fixes w :: u32
  assumes "w < push_bit SL_RES_BITS 1 - 1"
  shows "bit w n \<Longrightarrow> n < 16"
proof -
  have "unat w < 2 ^ 16" using assms by (simp add: push_bit_eq_mult word_less_nat_alt)
  then have "take_bit 16 (unat w) = unat w" by (simp add: take_bit_nat_eq_self)
  moreover assume "bit w n"
  ultimately show "n < 16" by (metis bit_take_bit_iff bit_unat)
qed

text \<open>
  Global resource identifiers: whenever building an identifier does not abort, its site and
  its site-internal part are recovered from it.
\<close>

theorem sl_global_id_roundtrip:
  assumes "sl_global_id_build site intres = Some i"
  shows "sl_resid_to_siteid i = site \<and> sl_resid_to_int i = intres"
proof -
  from assms have small: "intres < push_bit SL_RES_BITS 1 - 1"
    and i: "i = push_bit SL_SITE_BITS (ucast site) OR intres"
    by (simp_all add: sl_global_id_build_def)
  note lo = bit_below_16 [OF small]
  have "sl_resid_to_siteid i = site"
    by (rule bit_eqI)
      (auto simp: sl_resid_to_siteid_def i bit_unsigned_iff bit_drop_bit_eq bit_and_iff bit_or_iff
        bit_push_bit_iff bit_site_mask dest: lo bit_imp_le_length)
  moreover have "sl_resid_to_int i = intres"
    by (rule bit_eqI)
      (auto simp: sl_resid_to_int_def i bit_and_iff bit_or_iff bit_not_iff bit_push_bit_iff
        bit_site_mask dest: lo bit_imp_le_length)
  ultimately show ?thesis ..
qed

theorem sl_global_id_roundtrip_witness:
  "sl_global_id_build 3 7 = Some 0x30007 \<and>
   sl_resid_to_siteid 0x30007 = 3 \<and> sl_resid_to_int 0x30007 = 7"
proof -
  have "sl_global_id_build 3 7 = Some 0x30007" by (simp add: sl_global_id_build_def)
  with sl_global_id_roundtrip [OF this] show ?thesis by simp
qed

end
