(* ===== verification/Brepls.thy ===== *)
theory Brepls
  imports Prelude
begin

text \<open>
  The per-bmap replica residency table (\<open>bcs_repls\<close> of \<open>struct bmap_core_state\<close>,
  \<open>include/bmap.h\<close>): 64 three-bit states packed into 24 bytes, so that every third
  state straddles a byte boundary, with the macros that read and write one state, and the
  state-translation arrays that \<open>brepls_init\<close> and \<open>brepls_init_idx\<close> prepare.

  The contract the rest of the metadata server relies on (a table indexed by replica, where a
  write is read back and touches no other replica) is the locale \<open>repl_table\<close>; the packed
  macros are its instance \<open>brt\<close>.
\<close>

subsection \<open>Parameters (\<open>include/cache_params.h\<close>, \<open>include/sltypes.h\<close>)\<close>

abbreviation (input) NBBY :: nat where "NBBY \<equiv> 8"
abbreviation (input) SL_BITS_PER_REPLICA :: nat where "SL_BITS_PER_REPLICA \<equiv> 3"
abbreviation (input) SL_DEF_REPLICAS :: nat where "SL_DEF_REPLICAS \<equiv> 4"
abbreviation (input) SL_MAX_REPLICAS :: nat where "SL_MAX_REPLICAS \<equiv> 64"

definition SL_INOX_NREPLICAS :: nat where
  "SL_INOX_NREPLICAS = SL_MAX_REPLICAS - SL_DEF_REPLICAS"

definition SL_REPLICA_MASK :: u32 where
  "SL_REPLICA_MASK = push_bit SL_BITS_PER_REPLICA 1 - 1"

definition SL_REPLICA_NBYTES :: nat where
  "SL_REPLICA_NBYTES = (SL_MAX_REPLICAS * SL_BITS_PER_REPLICA) div NBBY"

subsection \<open>Replica states and the packed accessors (\<open>include/bmap.h\<close>)\<close>

abbreviation (input) BREPLST_INVALID :: nat where "BREPLST_INVALID \<equiv> 0"
abbreviation (input) BREPLST_REPL_SCHED :: nat where "BREPLST_REPL_SCHED \<equiv> 1"
abbreviation (input) BREPLST_REPL_QUEUED :: nat where "BREPLST_REPL_QUEUED \<equiv> 2"
abbreviation (input) BREPLST_VALID :: nat where "BREPLST_VALID \<equiv> 3"
abbreviation (input) BREPLST_TRUNCPNDG :: nat where "BREPLST_TRUNCPNDG \<equiv> 4"
abbreviation (input) BREPLST_TRUNCPNDG_SCHED :: nat where "BREPLST_TRUNCPNDG_SCHED \<equiv> 5"
abbreviation (input) BREPLST_GARBAGE :: nat where "BREPLST_GARBAGE \<equiv> 6"
abbreviation (input) BREPLST_GARBAGE_SCHED :: nat where "BREPLST_GARBAGE_SCHED \<equiv> 7"
abbreviation (input) NBREPLST :: nat where "NBREPLST \<equiv> 8"

definition SL_REPL_GET_BMAP_IOS_STAT :: "u8 list \<Rightarrow> nat \<Rightarrow> nat" where
  "SL_REPL_GET_BMAP_IOS_STAT data off =
     unat (SL_REPLICA_MASK AND
       (drop_bit (off mod NBBY) (ucast (data ! (off div NBBY)) :: u32) OR
        (if off mod NBBY + SL_BITS_PER_REPLICA > NBBY
         then push_bit (SL_BITS_PER_REPLICA - (off mod NBBY + SL_BITS_PER_REPLICA - NBBY))
                (ucast (data ! (off div NBBY + 1)))
         else 0)))"

definition SL_REPL_SET_BMAP_IOS_STAT :: "u8 list \<Rightarrow> nat \<Rightarrow> int \<Rightarrow> u8 list" where
  "SL_REPL_SET_BMAP_IOS_STAT data off val =
     (let v = word_of_int val :: u32;
          i = off div NBBY; r = off mod NBBY;
          data1 = data[i := ucast ((ucast (data ! i) AND NOT (push_bit r SL_REPLICA_MASK))
                            OR push_bit r v)];
          j = int r + int SL_BITS_PER_REPLICA - int NBBY
      in if j > 0
         then (let j' = nat (int SL_BITS_PER_REPLICA - j)
               in data1[i + 1 := ucast ((ucast (data1 ! (i + 1)) AND
                     NOT (drop_bit j' SL_REPLICA_MASK)) OR drop_bit j' v)])
         else data1)"

definition brepls_init :: "int \<Rightarrow> int list" where
  "brepls_init val = replicate NBREPLST val"

definition brepls_init_idx :: "int list" where
  "brepls_init_idx = map int [0..<NBREPLST]"

subsection \<open>The accessors on single bits\<close>

lemma replica_mask_bit: "bit SL_REPLICA_MASK k \<longleftrightarrow> k < 3"
proof -
  have m: "SL_REPLICA_MASK = mask 3"
    by (simp add: SL_REPLICA_MASK_def mask_eq_exp_minus_1 push_bit_eq_mult)
  show ?thesis unfolding m bit_mask_iff by auto
qed

lemma get_bit:
  "bit (SL_REPL_GET_BMAP_IOS_STAT data off) k \<longleftrightarrow> k < 3 \<and> tbl_bit data (off + k)"
proof (cases "k < 3")
  case False
  then show ?thesis
    by (simp only: SL_REPL_GET_BMAP_IOS_STAT_def bit_unat bit_and_iff replica_mask_bit) simp
next
  case True
  define q r where "q = off div 8" and "r = off mod 8"
  have kr: "k - (8 - r) = k + r - 8" by (simp add: r_def)
  have eq: "bit (SL_REPL_GET_BMAP_IOS_STAT data off) k \<longleftrightarrow>
      bit (data ! q) (r + k) \<or>
      (8 < r + 3 \<and> 8 - r \<le> k \<and> bit (data ! (q + 1)) (k + r - 8))"
    using True
    by (simp only: SL_REPL_GET_BMAP_IOS_STAT_def bit_unat bit_and_iff replica_mask_bit
        bit_or_iff bit_drop_bit_eq bit_u8_u32 o_def flip: q_def r_def)
      (simp add: bit_u8_u32 bit_push_bit_iff kr)
  have tb: "tbl_bit data (off + k) \<longleftrightarrow>
      (if r + k < 8 then bit (data ! q) (r + k) else bit (data ! (q + 1)) (r + k - 8))"
    using True by (simp add: tbl_bit_def split_bit_pos q_def r_def)
  show ?thesis
  proof (cases "r + k < 8")
    case c: True
    then have "\<not> 8 - r \<le> k" by linarith
    with c True show ?thesis by (simp add: eq tb)
  next
    case c: False
    then have "\<not> bit (data ! q) (r + k)" using bit_u8_less by blast
    moreover have "8 < r + 3" "8 - r \<le> k" using c True by linarith+
    ultimately show ?thesis using c True by (simp add: eq tb add.commute [of k r])
  qed
qed

lemma set_bit_pos:
  fixes q r q' r' :: nat
  assumes "r < 8" "r' < 8"
  shows "8 * q + r \<le> 8 * q' + r' \<and> 8 * q' + r' < 8 * q + r + 3 \<longleftrightarrow>
      (if q' = q then r \<le> r' \<and> r' - r < 3 else q' = q + 1 \<and> r' + 8 - r < 3)"
    and "8 * q + r \<le> 8 * q' + r' \<Longrightarrow> 8 * q' + r' < 8 * q + r + 3 \<Longrightarrow>
      8 * q' + r' - (8 * q + r) = (if q' = q then r' - r else r' + 8 - r)"
proof -
  show "8 * q + r \<le> 8 * q' + r' \<and> 8 * q' + r' < 8 * q + r + 3 \<longleftrightarrow>
      (if q' = q then r \<le> r' \<and> r' - r < 3 else q' = q + 1 \<and> r' + 8 - r < 3)"
    using assms by auto
  assume in3: "8 * q + r \<le> 8 * q' + r'" "8 * q' + r' < 8 * q + r + 3"
  then have "q' = q \<or> q' = q + 1" using assms by linarith
  then show "8 * q' + r' - (8 * q + r) = (if q' = q then r' - r else r' + 8 - r)"
    using assms in3 by auto
qed

lemma set_bit:
  assumes v: "0 \<le> v" "v < 8" and len: "off + 3 \<le> 8 * length data" "p < 8 * length data"
  shows "tbl_bit (SL_REPL_SET_BMAP_IOS_STAT data off v) p \<longleftrightarrow>
    (if off \<le> p \<and> p < off + 3 then bit v (p - off) else tbl_bit data p)"
proof -
  define q r where "q = off div 8" and "r = off mod 8"
  define q' r' where "q' = p div 8" and "r' = p mod 8"
  have off: "off = 8 * q + r" and r: "r < 8" and p: "p = 8 * q' + r'" and r': "r' < 8"
    by (auto simp: q_def r_def q'_def r'_def)
  have vb: "bit v n \<Longrightarrow> n < 3" for n
    using bit_int_less [of v 3 n] v by simp
  have wb: "bit (word_of_int v :: u32) n \<longleftrightarrow> bit v n" for n
    using vb [of n] by (auto simp: bit_word_of_int_iff)
  have idx: "q < length data" "q' < length data" "r > 5 \<Longrightarrow> q + 1 < length data"
    using len off p r r' by linarith+
  note bits = nth_list_update bit_u32_u8 bit_or_iff bit_and_iff bit_not_iff bit_push_bit_iff
    bit_u8_u32 bit_drop_bit_eq replica_mask_bit wb
  note pos = set_bit_pos [OF r r', of q q', folded off p]
  show ?thesis
  proof (cases "r \<le> 5")
    case True
    have "tbl_bit (SL_REPL_SET_BMAP_IOS_STAT data off v) p \<longleftrightarrow>
      (if q' = q then bit (data ! q) r' \<and> \<not> (r \<le> r' \<and> r' - r < 3) \<or> r \<le> r' \<and> bit v (r' - r)
       else bit (data ! q') r')"
      using True r' idx
      by (simp add: SL_REPL_SET_BMAP_IOS_STAT_def tbl_bit_def Let_def bits
        flip: q_def r_def q'_def r'_def)
    moreover have "\<not> (r' + 8 - r < 3)" using True by linarith
    ultimately show ?thesis using pos vb [of "r' - r"]
      by (auto simp: tbl_bit_def simp flip: q'_def r'_def split: if_splits)
  next
    case False
    have jr: "nat (8 - int r) + r' = r' + 8 - r" using r by linarith
    have "tbl_bit (SL_REPL_SET_BMAP_IOS_STAT data off v) p \<longleftrightarrow>
      (if q' = q then bit (data ! q) r' \<and> \<not> (r \<le> r' \<and> r' - r < 3) \<or> r \<le> r' \<and> bit v (r' - r)
       else if q' = q + 1 then bit (data ! q') r' \<and> \<not> (r' + 8 - r < 3) \<or> bit v (r' + 8 - r)
       else bit (data ! q') r')"
      using False r r' idx jr
      by (simp add: SL_REPL_SET_BMAP_IOS_STAT_def tbl_bit_def Let_def bits
        flip: q_def r_def q'_def r'_def)
    then show ?thesis using pos vb [of "r' - r"] vb [of "r' + 8 - r"]
      by (auto simp: tbl_bit_def simp flip: q'_def r'_def split: if_splits)
  qed
qed

lemma SL_REPL_SET_length [simp]:
  "length (SL_REPL_SET_BMAP_IOS_STAT data off v) = length data"
  by (simp add: SL_REPL_SET_BMAP_IOS_STAT_def Let_def)

lemma SL_REPL_GET_less: "SL_REPL_GET_BMAP_IOS_STAT data off < 8"
proof -
  have "take_bit 3 (SL_REPL_GET_BMAP_IOS_STAT data off) = SL_REPL_GET_BMAP_IOS_STAT data off"
    by (auto simp: bit_eq_iff bit_take_bit_iff get_bit)
  then have "SL_REPL_GET_BMAP_IOS_STAT data off < 2 ^ 3"
    by (metis take_bit_nat_less_exp)
  then show ?thesis by simp
qed

lemma get_eqI:
  assumes "\<And>k. k < 3 \<Longrightarrow> tbl_bit data (off + k) \<longleftrightarrow> tbl_bit data' (off' + k)"
  shows "SL_REPL_GET_BMAP_IOS_STAT data off = SL_REPL_GET_BMAP_IOS_STAT data' off'"
  using assms by (auto simp: bit_eq_iff get_bit)

lemma get_set_same:
  assumes "0 \<le> v" "v < 8" "off + 3 \<le> 8 * length data"
  shows "int (SL_REPL_GET_BMAP_IOS_STAT (SL_REPL_SET_BMAP_IOS_STAT data off v) off) = v"
proof (rule bit_eqI)
  fix n
  have "bit v n \<Longrightarrow> n < 3"
    using bit_int_less [of v 3 n] assms by simp
  then show "bit (int (SL_REPL_GET_BMAP_IOS_STAT (SL_REPL_SET_BMAP_IOS_STAT data off v) off)) n
      = bit v n"
    using assms by (cases "n < 3") (auto simp: bit_of_nat_iff_bit get_bit set_bit)
qed

lemma get_set_other:
  assumes "0 \<le> v" "v < 8" "off + 3 \<le> 8 * length data" "off' + 3 \<le> 8 * length data"
    and "off' + 3 \<le> off \<or> off + 3 \<le> off'"
  shows "SL_REPL_GET_BMAP_IOS_STAT (SL_REPL_SET_BMAP_IOS_STAT data off v) off'
      = SL_REPL_GET_BMAP_IOS_STAT data off'"
  using assms by (intro get_eqI) (auto simp: set_bit)

subsection \<open>The contract: a table of replica states\<close>

definition tract_ok :: "int list \<Rightarrow> bool" where
  "tract_ok tr \<longleftrightarrow> length tr = NBREPLST \<and> (\<forall>x \<in> set tr. -1 \<le> x \<and> x < int NBREPLST)"

text \<open>
  What one translation array does to one state: the entry \<open>-1\<close> leaves it, any other entry
  replaces it.
\<close>

definition tract_step :: "int list \<Rightarrow> nat \<Rightarrow> nat" where
  "tract_step tr v = (if tr ! v = -1 then v else nat (tr ! v))"

lemma tract_ok_nth: "tract_ok tr \<Longrightarrow> v < 8 \<Longrightarrow> -1 \<le> tr ! v \<and> tr ! v < 8"
  by (auto simp: tract_ok_def)

lemma tract_step_less: "tract_ok tr \<Longrightarrow> v < 8 \<Longrightarrow> tract_step tr v < 8"
  using tract_ok_nth [of tr v] by (auto simp: tract_step_def)

lemma tract_ok_init [simp]: "tract_ok (brepls_init (-1))"
  by (auto simp: tract_ok_def brepls_init_def)

lemma tract_ok_update [simp]:
  "tract_ok tr \<Longrightarrow> -1 \<le> x \<Longrightarrow> x < 8 \<Longrightarrow> tract_ok (tr[i := x])"
  by (auto simp: tract_ok_def dest!: set_update_subset_insert [THEN subsetD])

locale repl_table =
  fixes tget :: "'t \<Rightarrow> nat \<Rightarrow> nat"
    and tset :: "'t \<Rightarrow> nat \<Rightarrow> int \<Rightarrow> 't"
    and tok :: "'t \<Rightarrow> bool"
  assumes tget_less: "tget t k < NBREPLST"
    and tok_tset: "tok t \<Longrightarrow> tok (tset t k v)"
    and tget_same: "tok t \<Longrightarrow> k < SL_MAX_REPLICAS \<Longrightarrow> 0 \<le> v \<Longrightarrow> v < int NBREPLST \<Longrightarrow>
          tget (tset t k v) k = nat v"
    and tget_other: "tok t \<Longrightarrow> k < SL_MAX_REPLICAS \<Longrightarrow> k' < SL_MAX_REPLICAS \<Longrightarrow> k \<noteq> k' \<Longrightarrow>
          0 \<le> v \<Longrightarrow> v < int NBREPLST \<Longrightarrow> tget (tset t k v) k' = tget t k'"
begin

definition trans1 :: "int list \<Rightarrow> nat \<Rightarrow> 't \<Rightarrow> 't" where
  "trans1 tr k t = (if tr ! tget t k = -1 then t else tset t k (tr ! tget t k))"

lemma tok_trans1: "tok t \<Longrightarrow> tok (trans1 tr k t)"
  by (simp add: trans1_def tok_tset)

lemma tok_fold_trans1: "tok t \<Longrightarrow> tok (fold (trans1 tr) ks t)"
  by (induction ks arbitrary: t) (simp_all add: tok_trans1)

lemma tget_trans1:
  assumes "tok t" "tract_ok tr" "k < SL_MAX_REPLICAS" "k' < SL_MAX_REPLICAS"
  shows "tget (trans1 tr k t) k' = (if k' = k then tract_step tr (tget t k) else tget t k')"
  using tract_ok_nth [OF assms(2) tget_less, of t k] assms
  by (auto simp: trans1_def tract_step_def tget_same tget_other)

lemma tget_fold_trans1:
  assumes "tok t" "tract_ok tr" "distinct ks" "\<forall>k \<in> set ks. k < SL_MAX_REPLICAS"
    "k' < SL_MAX_REPLICAS"
  shows "tget (fold (trans1 tr) ks t) k' =
    (if k' \<in> set ks then tract_step tr (tget t k') else tget t k')"
  using assms
proof (induction ks arbitrary: t)
  case Nil
  then show ?case by simp
next
  case (Cons k ks)
  then have "tok (trans1 tr k t)" by (simp add: tok_trans1)
  with Cons.IH [of "trans1 tr k t"] Cons.prems show ?case
    by (auto simp: tget_trans1)
qed

end

definition brepls_ok :: "u8 list \<Rightarrow> bool" where
  "brepls_ok data \<longleftrightarrow> length data = SL_REPLICA_NBYTES"

lemma brepls_okD: "brepls_ok data \<Longrightarrow> length data = 24"
  by (simp add: brepls_ok_def SL_REPLICA_NBYTES_def)

text \<open>The state of the \<open>k\<close>-th replica, at the bit offset every caller computes.\<close>

definition repl_st :: "u8 list \<Rightarrow> nat \<Rightarrow> nat" where
  "repl_st data k = SL_REPL_GET_BMAP_IOS_STAT data (k * SL_BITS_PER_REPLICA)"

interpretation brt: repl_table repl_st
  "\<lambda>data k v. SL_REPL_SET_BMAP_IOS_STAT data (k * SL_BITS_PER_REPLICA) v" brepls_ok
proof unfold_locales
  fix t :: "u8 list" and k k' v
  show "repl_st t k < NBREPLST"
    by (simp add: repl_st_def SL_REPL_GET_less)
  assume ok: "brepls_ok t"
  then show "brepls_ok (SL_REPL_SET_BMAP_IOS_STAT t (k * SL_BITS_PER_REPLICA) v)"
    by (simp add: brepls_ok_def)
  assume k: "k < SL_MAX_REPLICAS"
  show "repl_st (SL_REPL_SET_BMAP_IOS_STAT t (k * SL_BITS_PER_REPLICA) v) k = nat v"
    if "0 \<le> v" "v < int NBREPLST"
    using that k brepls_okD [OF ok] get_set_same [of v "k * 3" t] by (simp add: repl_st_def)
  assume k': "k' < SL_MAX_REPLICAS" and ne: "k \<noteq> k'"
  then have sep: "k' * 3 + 3 \<le> k * 3 \<or> k * 3 + 3 \<le> k' * 3" by linarith
  show "repl_st (SL_REPL_SET_BMAP_IOS_STAT t (k * SL_BITS_PER_REPLICA) v) k' = repl_st t k'"
    if "0 \<le> v" "v < int NBREPLST"
    using that k k' sep brepls_okD [OF ok] get_set_other [of v "k * 3" t "k' * 3"]
    by (simp add: repl_st_def)
qed

subsection \<open>Properties\<close>

text \<open>
  C8: Round trip and frame of the packed residency table: in a table of the declared size,
  writing the three-bit state of a replica is read back, and the state of every other replica
  is unchanged, also where a state straddles two bytes.
\<close>

theorem SL_REPL_roundtrip_frame:
  assumes "length data = SL_REPLICA_NBYTES" "k < SL_MAX_REPLICAS" "k' < SL_MAX_REPLICAS"
    and "0 \<le> v" "v < int NBREPLST"
  shows "int (SL_REPL_GET_BMAP_IOS_STAT
           (SL_REPL_SET_BMAP_IOS_STAT data (k * SL_BITS_PER_REPLICA) v)
           (k' * SL_BITS_PER_REPLICA)) =
    (if k' = k then v else int (SL_REPL_GET_BMAP_IOS_STAT data (k' * SL_BITS_PER_REPLICA)))"
  using assms brt.tget_same [of data k v] brt.tget_other [of data k k' v]
  by (auto simp: brepls_ok_def repl_st_def)

theorem SL_REPL_roundtrip_frame_witness:
  "SL_REPL_GET_BMAP_IOS_STAT
     (SL_REPL_SET_BMAP_IOS_STAT (replicate 24 255) (2 * SL_BITS_PER_REPLICA) 4)
     (2 * SL_BITS_PER_REPLICA) = 4"
  using SL_REPL_roundtrip_frame [of "replicate 24 255" 2 2 4]
  by (simp add: SL_REPLICA_NBYTES_def)

end
