(* ===== verification/Inode.thy ===== *)
theory Inode
  imports Config Brepls
begin

text \<open>
  The metadata server's inode handle and its replica table (\<open>slashd/inode.h\<close>,
  \<open>slashd/inode.c\<close>, the lookups of \<open>slashd/repl_mds.c\<close>). The first four replicas
  of a file live in the inode, the other sixty in an extras block that is read from the
  metafile on demand. The lookups add and delete entries across the two arrays; they are
  shown to implement the operations on one list of I/O systems.

  The metafile belongs to the ZFS layer, which is not part of these sources: its reads and
  writes and the checksum are parameters, the fields of \<open>mdenv\<close>, over an arbitrary
  metafile type \<open>'m\<close>. A read gives the error code, the number of bytes, the structure and
  the checksum stored behind it; a write gives the error code, the number of bytes and the new
  metafile. Two error numbers of the PFL library are parameters as well. Spinlocks and busy
  flags protect these operations against other threads and are not represented here.
\<close>

subsection \<open>Error numbers\<close>

abbreviation (input) ENOENT :: int where "ENOENT \<equiv> 2"
abbreviation (input) EBADF :: int where "EBADF \<equiv> 9"
abbreviation (input) EAGAIN :: int where "EAGAIN \<equiv> 11"
abbreviation (input) ENOMEM :: int where "ENOMEM \<equiv> 12"
abbreviation (input) EINVAL :: int where "EINVAL \<equiv> 22"
abbreviation (input) ENOSPC :: int where "ENOSPC \<equiv> 28"
abbreviation (input) EOPNOTSUPP :: int where "EOPNOTSUPP \<equiv> 95"

abbreviation (input) SLERR_REPL_ALREADY_ACT :: int where "SLERR_REPL_ALREADY_ACT \<equiv> 1000"
abbreviation (input) SLERR_REPL_NOT_ACT :: int where "SLERR_REPL_NOT_ACT \<equiv> 1001"
abbreviation (input) SLERR_BMAP_INVALID :: int where "SLERR_BMAP_INVALID \<equiv> 1004"
abbreviation (input) SLERR_BMAP_DIOWAIT :: int where "SLERR_BMAP_DIOWAIT \<equiv> 1005"
abbreviation (input) SLERR_BMAP_ZERO :: int where "SLERR_BMAP_ZERO \<equiv> 1006"
abbreviation (input) SLERR_ION_OFFLINE :: int where "SLERR_ION_OFFLINE \<equiv> 1010"
abbreviation (input) SLERR_LASTREPL :: int where "SLERR_LASTREPL \<equiv> 1011"
abbreviation (input) SLERR_SHORTIO :: int where "SLERR_SHORTIO \<equiv> 1013"
abbreviation (input) SLERR_GEN_OLD :: int where "SLERR_GEN_OLD \<equiv> 1020"
abbreviation (input) SLERR_GEN_INVALID :: int where "SLERR_GEN_INVALID \<equiv> 1021"
abbreviation (input) SLERR_RES_BADTYPE :: int where "SLERR_RES_BADTYPE \<equiv> 1030"

subsection \<open>Data (\<open>slashd/inode.h\<close>)\<close>

record slm_ino_od =
  ino_version :: u16
  ino_flags :: u16
  ino_bsz :: u32
  ino_nrepls :: nat
  ino_replpol :: u32
  ino_repls :: "u32 list"
  ino_repl_nblks :: "u64 list"

record slm_inox_od =
  inox_snaps :: "(int \<times> int \<times> int) list"
  inox_repls :: "u32 list"
  inox_repl_nblks :: "u64 list"

record 'm slm_inoh =
  inoh_ino :: slm_ino_od
  inoh_extras :: "slm_inox_od option"
  inoh_ino_new :: bool
  inoh_ino_notloaded :: bool
  inoh_mfh :: 'm

abbreviation (input) INO_VERSION :: u16 where "INO_VERSION \<equiv> 2"
abbreviation (input) SLASH_BMAP_SIZE :: nat where "SLASH_BMAP_SIZE \<equiv> 134217728"
abbreviation (input) INO_SZ :: nat where "INO_SZ \<equiv> 64"
abbreviation (input) INOX_SZ :: nat where "INOX_SZ \<equiv> 744"
abbreviation (input) CRC_SZ :: nat where "CRC_SZ \<equiv> 8"

record 'm mdenv =
  PFLERR_ALREADY :: int
  PFLERR_BADCRC :: int
  crc64_ino :: "slm_ino_od \<Rightarrow> u64"
  crc64_inox :: "slm_inox_od \<Rightarrow> u64"
  preadv_inox :: "'m \<Rightarrow> int \<times> nat \<times> slm_inox_od \<times> u64"
  pwritev_ino :: "'m \<Rightarrow> slm_ino_od \<Rightarrow> u64 \<Rightarrow> bool \<Rightarrow> int \<times> nat \<times> 'm"
  pwritev_inox :: "'m \<Rightarrow> slm_inox_od \<Rightarrow> u64 \<Rightarrow> bool \<Rightarrow> int \<times> nat \<times> 'm"

subsection \<open>Reading and writing the inode (\<open>slashd/inode.c\<close>)\<close>

definition mds_inode_od_initnew :: "'m slm_inoh \<Rightarrow> 'm slm_inoh" where
  "mds_inode_od_initnew ih =
     ih\<lparr>inoh_ino_new := True, inoh_ino_notloaded := False,
        inoh_ino := (inoh_ino ih)\<lparr>ino_bsz := of_nat SLASH_BMAP_SIZE,
                                  ino_version := INO_VERSION\<rparr>\<rparr>"

definition mds_inode_write :: "'m mdenv \<Rightarrow> bool \<Rightarrow> 'm slm_inoh \<Rightarrow> int \<times> 'm slm_inoh" where
  "mds_inode_write env logf ih =
     (let crc = crc64_ino env (inoh_ino ih);
          (rc0, nb, m) = pwritev_ino env (inoh_mfh ih) (inoh_ino ih) crc logf;
          rc = (if rc0 = 0 \<and> nb \<noteq> INO_SZ + CRC_SZ then SLERR_SHORTIO else rc0);
          ih1 = ih\<lparr>inoh_mfh := m\<rparr>
      in (rc, if rc \<noteq> 0 then ih1 else ih1\<lparr>inoh_ino_new := False\<rparr>))"

definition mds_inox_write ::
    "'m mdenv \<Rightarrow> bool \<Rightarrow> 'm slm_inoh \<Rightarrow> (int \<times> 'm slm_inoh) option" where
  "mds_inox_write env logf ih = do {
     x \<leftarrow> inoh_extras ih;
     let crc = crc64_inox env x;
     let (rc0, nb, m) = pwritev_inox env (inoh_mfh ih) x crc logf;
     Some (if rc0 = 0 \<and> nb \<noteq> INOX_SZ + CRC_SZ then SLERR_SHORTIO else rc0,
           ih\<lparr>inoh_mfh := m\<rparr>)
   }"

definition inox_zero :: slm_inox_od where
  "inox_zero = \<lparr>inox_snaps = [(0, 0, 0)], inox_repls = replicate SL_INOX_NREPLICAS 0,
                inox_repl_nblks = replicate SL_INOX_NREPLICAS 0\<rparr>"

definition mds_inox_load_locked :: "'m mdenv \<Rightarrow> 'm slm_inoh \<Rightarrow> (int \<times> 'm slm_inoh) option" where
  "mds_inox_load_locked env ih = do {
     psc_assert (inoh_extras ih = None);
     let (rc0, nb, x, od_crc) = preadv_inox env (inoh_mfh ih);
     let rc = (if rc0 = 0 \<and> od_crc = 0 \<and> x = inox_zero then 0
               else if rc0 \<noteq> 0 then - \<bar>rc0\<bar>
               else if nb \<noteq> INOX_SZ + CRC_SZ then - SLERR_SHORTIO
               else if crc64_inox env x \<noteq> od_crc then - PFLERR_BADCRC env
               else 0);
     Some (rc, ih\<lparr>inoh_extras := if rc \<noteq> 0 then None else Some x\<rparr>)
   }"

definition mds_inox_ensure_loaded :: "'m mdenv \<Rightarrow> 'm slm_inoh \<Rightarrow> (int \<times> 'm slm_inoh) option" where
  "mds_inox_ensure_loaded env ih =
     (if inoh_extras ih = None then mds_inox_load_locked env ih else Some (0, ih))"

definition mds_inodes_odsync ::
    "'m mdenv \<Rightarrow> bool \<Rightarrow> 'm slm_inoh \<Rightarrow> (int \<times> 'm slm_inoh) option" where
  "mds_inodes_odsync env logf ih = do {
     (rc, ih1) \<leftarrow> (if ino_nrepls (inoh_ino ih) > SL_DEF_REPLICAS
                   then mds_inox_ensure_loaded env ih else Some (0, ih));
     if rc \<noteq> 0 then Some (rc, ih1)
     else let (rc2, ih2) = mds_inode_write env logf ih1
          in if rc2 = 0 \<and> ino_nrepls (inoh_ino ih2) > SL_DEF_REPLICAS
             then mds_inox_write env False ih2
             else Some (rc2, ih2)
   }"

text \<open>The accessors of \<open>fidc_mds.h\<close> for the entry of a replica index.\<close>

definition fcmh_2_repl :: "'m mdenv \<Rightarrow> 'm slm_inoh \<Rightarrow> nat \<Rightarrow> (u32 \<times> 'm slm_inoh) option" where
  "fcmh_2_repl env ih idx =
     (if idx < SL_DEF_REPLICAS then Some (ino_repls (inoh_ino ih) ! idx, ih)
      else do {
        (_, ih1) \<leftarrow> mds_inox_ensure_loaded env ih;
        x \<leftarrow> inoh_extras ih1;
        Some (inox_repls x ! (idx - SL_DEF_REPLICAS), ih1)
      })"

definition fcmh_set_repl :: "'m mdenv \<Rightarrow> 'm slm_inoh \<Rightarrow> nat \<Rightarrow> u32 \<Rightarrow> 'm slm_inoh option" where
  "fcmh_set_repl env ih idx iosid =
     (if idx < SL_DEF_REPLICAS
      then Some (ih\<lparr>inoh_ino := (inoh_ino ih)\<lparr>ino_repls := (ino_repls (inoh_ino ih))[idx := iosid]\<rparr>\<rparr>)
      else do {
        (_, ih1) \<leftarrow> mds_inox_ensure_loaded env ih;
        x \<leftarrow> inoh_extras ih1;
        Some (ih1\<lparr>inoh_extras :=
                Some (x\<lparr>inox_repls := (inox_repls x)[idx - SL_DEF_REPLICAS := iosid]\<rparr>)\<rparr>)
      })"

definition fcmh_2_repl_nblks :: "'m mdenv \<Rightarrow> 'm slm_inoh \<Rightarrow> nat \<Rightarrow> (u64 \<times> 'm slm_inoh) option" where
  "fcmh_2_repl_nblks env ih idx =
     (if idx < SL_DEF_REPLICAS then Some (ino_repl_nblks (inoh_ino ih) ! idx, ih)
      else do {
        (_, ih1) \<leftarrow> mds_inox_ensure_loaded env ih;
        x \<leftarrow> inoh_extras ih1;
        Some (inox_repl_nblks x ! (idx - SL_DEF_REPLICAS), ih1)
      })"

definition fcmh_set_repl_nblks ::
    "'m mdenv \<Rightarrow> 'm slm_inoh \<Rightarrow> nat \<Rightarrow> u64 \<Rightarrow> 'm slm_inoh option" where
  "fcmh_set_repl_nblks env ih idx nblks =
     (if idx < SL_DEF_REPLICAS
      then Some (ih\<lparr>inoh_ino := (inoh_ino ih)\<lparr>ino_repl_nblks :=
                      (ino_repl_nblks (inoh_ino ih))[idx := nblks]\<rparr>\<rparr>)
      else do {
        (_, ih1) \<leftarrow> mds_inox_ensure_loaded env ih;
        x \<leftarrow> inoh_extras ih1;
        Some (ih1\<lparr>inoh_extras :=
                Some (x\<lparr>inox_repl_nblks := (inox_repl_nblks x)[idx - SL_DEF_REPLICAS := nblks]\<rparr>)\<rparr>)
      })"

subsection \<open>Looking up one I/O system (\<open>_mds_repl_ios_lookup\<close>)\<close>

abbreviation (input) IOSV_LOOKUPF_ADD :: int where "IOSV_LOOKUPF_ADD \<equiv> 1"
abbreviation (input) IOSV_LOOKUPF_DEL :: int where "IOSV_LOOKUPF_DEL \<equiv> 2"

text \<open>
  The C code walks with \<open>repl\<close> pointing at one of the two arrays; here a flag says which.
\<close>

definition repl_at :: "'m slm_inoh \<Rightarrow> bool \<Rightarrow> nat \<Rightarrow> u32 option" where
  "repl_at ih inx k =
     (if inx then do { x \<leftarrow> inoh_extras ih; Some (inox_repls x ! k) }
      else Some (ino_repls (inoh_ino ih) ! k))"

datatype ios_search = Found nat nat | NotFound | InoxErr int

fun mds_repl_ios_search ::
    "'m mdenv \<Rightarrow> u32 \<Rightarrow> nat \<Rightarrow> nat \<Rightarrow> nat \<Rightarrow> bool \<Rightarrow> 'm slm_inoh \<Rightarrow>
     (ios_search \<times> 'm slm_inoh) option" where
  "mds_repl_ios_search env ios 0 j k inx ih = Some (NotFound, ih)"
| "mds_repl_ios_search env ios (Suc left) j k inx ih = do {
     (rc, ih) \<leftarrow> (if j = SL_DEF_REPLICAS then mds_inox_ensure_loaded env ih else Some (0, ih));
     if rc \<noteq> 0 then Some (InoxErr rc, ih)
     else do {
       let inx = (inx \<or> j = SL_DEF_REPLICAS);
       let k = (if j = SL_DEF_REPLICAS then 0 else k);
       r \<leftarrow> repl_at ih inx k;
       if r = ios then Some (Found j k, ih)
       else mds_repl_ios_search env ios left (j + 1) (k + 1) inx ih
     }
   }"

text \<open>\<open>memmove (&a[k], &a[k + 1], n * sizeof (*a))\<close>.\<close>

definition memmove_down :: "'a list \<Rightarrow> nat \<Rightarrow> nat \<Rightarrow> 'a list" where
  "memmove_down xs k n = take k xs @ take n (drop (k + 1) xs) @ drop (k + n) xs"

definition mds_repl_ios_delete ::
    "'m mdenv \<Rightarrow> nat \<Rightarrow> nat \<Rightarrow> 'm slm_inoh \<Rightarrow> 'm slm_inoh option" where
  "mds_repl_ios_delete env j k ih = do {
     let nr = ino_nrepls (inoh_ino ih);
     (_, ih) \<leftarrow> (if nr > SL_DEF_REPLICAS then mds_inox_ensure_loaded env ih else Some (0, ih));
     let repl = ino_repls (inoh_ino ih);
     let repl = (if j < SL_DEF_REPLICAS - 1
                 then memmove_down repl k (SL_DEF_REPLICAS - k - 1) else repl);
     repl \<leftarrow> (if j < SL_DEF_REPLICAS \<and> nr > SL_DEF_REPLICAS
              then do { ix \<leftarrow> inoh_extras ih;
                        Some (repl[SL_DEF_REPLICAS - 1 := inox_repls ix ! 0]) }
              else Some repl);
     let k = (if j < SL_DEF_REPLICAS then 0 else k);
     extras \<leftarrow> (if nr > SL_DEF_REPLICAS \<and> j < SL_MAX_REPLICAS - 1
                then do { ix \<leftarrow> inoh_extras ih;
                          Some (Some (ix\<lparr>inox_repls :=
                            memmove_down (inox_repls ix) k (SL_INOX_NREPLICAS - k - 1)\<rparr>)) }
                else Some (inoh_extras ih));
     (_, ih) \<leftarrow> mds_inodes_odsync env True
        (ih\<lparr>inoh_ino := (inoh_ino ih)\<lparr>ino_repls := repl, ino_nrepls := nr - 1\<rparr>,
           inoh_extras := extras\<rparr>);
     Some ih
   }"

definition mds_repl_ios_add ::
    "'m mdenv \<Rightarrow> u32 \<Rightarrow> 'm slm_inoh \<Rightarrow> (int \<times> 'm slm_inoh) option" where
  "mds_repl_ios_add env ios ih = do {
     let nr = ino_nrepls (inoh_ino ih);
     psc_assert (nr \<le> SL_MAX_REPLICAS);
     if nr = SL_MAX_REPLICAS then Some (- ENOSPC, ih)
     else do {
       (rc, ih) \<leftarrow> (if nr \<ge> SL_DEF_REPLICAS then mds_inox_ensure_loaded env ih else Some (0, ih));
       if rc \<noteq> 0 then Some (rc, ih)
       else do {
         ih \<leftarrow> (if nr \<ge> SL_DEF_REPLICAS
                then do { x \<leftarrow> inoh_extras ih;
                          Some (ih\<lparr>inoh_extras := Some (x\<lparr>inox_repls :=
                             (inox_repls x)[nr - SL_DEF_REPLICAS := ios]\<rparr>)\<rparr>) }
                else Some (ih\<lparr>inoh_ino := (inoh_ino ih)\<lparr>ino_repls :=
                             (ino_repls (inoh_ino ih))[nr := ios]\<rparr>\<rparr>));
         (_, ih) \<leftarrow> mds_inodes_odsync env True
            (ih\<lparr>inoh_ino := (inoh_ino ih)\<lparr>ino_nrepls := nr + 1\<rparr>\<rparr>);
         Some (int nr, ih)
       }
     }
   }"

definition mds_repl_ios_lookup ::
    "'m mdenv \<Rightarrow> sl_config \<Rightarrow> 'm slm_inoh \<Rightarrow> u32 \<Rightarrow> int \<Rightarrow> (int \<times> 'm slm_inoh) option" where
  "mds_repl_ios_lookup env cf ih ios flags = do {
     (res, ih) \<leftarrow> mds_repl_ios_search env ios (ino_nrepls (inoh_ino ih)) 0 0 False ih;
     case res of
       InoxErr rc \<Rightarrow> Some (rc, ih)
     | Found j k \<Rightarrow>
         if flags = IOSV_LOOKUPF_DEL
         then do { ih \<leftarrow> mds_repl_ios_delete env j k ih; Some (int j, ih) }
         else Some (int j, ih)
     | NotFound \<Rightarrow>
         (case libsl_id2res cf ios of
            None \<Rightarrow> Some (- SLERR_RES_BADTYPE, ih)
          | Some r \<Rightarrow>
              if \<not> RES_ISFS r then Some (- SLERR_RES_BADTYPE, ih)
              else if flags = IOSV_LOOKUPF_ADD then mds_repl_ios_add env ios ih
              else Some (- SLERR_REPL_NOT_ACT, ih))
   }"

subsection \<open>Looking up several I/O systems (\<open>_mds_repl_iosv_lookup\<close>)\<close>

fun mds_repl_iosv_fill ::
    "'m mdenv \<Rightarrow> sl_config \<Rightarrow> 'm slm_inoh \<Rightarrow> u32 list \<Rightarrow> int \<Rightarrow>
     (int \<times> nat list \<times> 'm slm_inoh) option" where
  "mds_repl_iosv_fill env cf ih [] flags = Some (0, [], ih)"
| "mds_repl_iosv_fill env cf ih (ios # iosv) flags = do {
     (rc, ih) \<leftarrow> mds_repl_ios_lookup env cf ih ios flags;
     if rc < 0 then Some (- rc, [], ih)
     else do {
       (rc', idx, ih) \<leftarrow> mds_repl_iosv_fill env cf ih iosv flags;
       Some (rc', nat rc # idx, ih)
     }
   }"

text \<open>
  The duplicate check after the sort, as it is written: the update expression of the
  \<open>for\<close> statement reads \<open>iosidx[k]\<close> after \<open>k\<close> has been incremented.
\<close>

function iosidx_dup_check :: "nat list \<Rightarrow> nat \<Rightarrow> int \<Rightarrow> int" where
  "iosidx_dup_check iosidx k lst =
     (if k < length iosidx
      then if int (iosidx ! k) = lst then EINVAL
           else iosidx_dup_check iosidx (k + 1) (int (iosidx ! (k + 1)))
      else 0)"
  by pat_completeness auto
termination
  by (relation "measure (\<lambda>(iosidx, k, lst). length iosidx - k)") auto

declare iosidx_dup_check.simps [simp del]

definition mds_repl_iosv_lookup ::
    "'m mdenv \<Rightarrow> sl_config \<Rightarrow> 'm slm_inoh \<Rightarrow> u32 list \<Rightarrow> int \<Rightarrow>
     (int \<times> nat list \<times> 'm slm_inoh) option" where
  "mds_repl_iosv_lookup env cf ih iosv flags = do {
     (rc, idx, ih) \<leftarrow> mds_repl_iosv_fill env cf ih iosv flags;
     if rc \<noteq> 0 then Some (rc, idx, ih)
     else Some (iosidx_dup_check (sort idx) 0 (- 1), sort idx, ih)
   }"

subsection \<open>One list of replicas\<close>

text \<open>
  The list the two arrays stand for, when the entries beyond the inode's own are in memory.
\<close>

definition rlist :: "'m slm_inoh \<Rightarrow> u32 list" where
  "rlist ih = take (ino_nrepls (inoh_ino ih))
     (ino_repls (inoh_ino ih) @ (case inoh_extras ih of None \<Rightarrow> [] | Some x \<Rightarrow> inox_repls x))"

definition inoh_ok :: "'m slm_inoh \<Rightarrow> bool" where
  "inoh_ok ih \<longleftrightarrow> length (ino_repls (inoh_ino ih)) = SL_DEF_REPLICAS \<and>
     ino_nrepls (inoh_ino ih) \<le> SL_MAX_REPLICAS \<and>
     (case inoh_extras ih of None \<Rightarrow> ino_nrepls (inoh_ino ih) \<le> SL_DEF_REPLICAS
      | Some x \<Rightarrow> length (inox_repls x) = SL_INOX_NREPLICAS)"

definition kpos :: "nat \<Rightarrow> nat" where
  "kpos j = (if j < SL_DEF_REPLICAS then j else j - SL_DEF_REPLICAS)"

primrec ios_index :: "u32 \<Rightarrow> u32 list \<Rightarrow> nat option" where
  "ios_index ios [] = None"
| "ios_index ios (x # xs) = (if x = ios then Some 0 else map_option Suc (ios_index ios xs))"

lemma ios_index_None: "ios_index ios xs = None \<longleftrightarrow> ios \<notin> set xs"
  by (induction xs) auto

lemma ios_index_SomeD:
  "ios_index ios xs = Some i \<Longrightarrow> i < length xs \<and> xs ! i = ios \<and> (\<forall>n<i. xs ! n \<noteq> ios)"
  by (induction xs arbitrary: i) (auto split: if_splits simp: nth_Cons less_Suc_eq_0_disj split: nat.splits)

lemma length_rlist: "inoh_ok ih \<Longrightarrow> length (rlist ih) = ino_nrepls (inoh_ino ih)"
  by (auto simp: inoh_ok_def rlist_def SL_INOX_NREPLICAS_def split: option.splits)

lemma rlist_nth:
  "inoh_ok ih \<Longrightarrow> i < ino_nrepls (inoh_ino ih) \<Longrightarrow>
   rlist ih ! i = (if i < SL_DEF_REPLICAS then ino_repls (inoh_ino ih) ! i
                   else inox_repls (the (inoh_extras ih)) ! (i - SL_DEF_REPLICAS))"
  by (auto simp: inoh_ok_def rlist_def nth_append split: option.splits)

lemma ensure_loaded_ready:
  "inoh_ok ih \<Longrightarrow> SL_DEF_REPLICAS < ino_nrepls (inoh_ino ih) \<Longrightarrow>
   mds_inox_ensure_loaded env ih = Some (0, ih)"
  by (auto simp: mds_inox_ensure_loaded_def inoh_ok_def split: option.splits)

lemma repl_at_rlist:
  "inoh_ok ih \<Longrightarrow> j < ino_nrepls (inoh_ino ih) \<Longrightarrow>
   repl_at ih (\<not> j < SL_DEF_REPLICAS) (kpos j) = Some (rlist ih ! j)"
  by (auto simp: repl_at_def kpos_def rlist_nth inoh_ok_def split: option.splits)

lemma mds_inode_write_same:
  assumes "mds_inode_write env logf ih = (rc, ih')"
  shows "inoh_ino ih' = inoh_ino ih" "inoh_extras ih' = inoh_extras ih"
  using assms by (auto simp: mds_inode_write_def Let_def split: prod.splits if_splits)

lemma mds_inodes_odsync_same:
  assumes "inoh_ok ih"
  shows "\<exists>rc ih'. mds_inodes_odsync env logf ih = Some (rc, ih') \<and>
           inoh_ino ih' = inoh_ino ih \<and> inoh_extras ih' = inoh_extras ih"
proof -
  obtain rc ih1 where w: "mds_inode_write env logf ih = (rc, ih1)" by fastforce
  note same = mds_inode_write_same [OF w]
  show ?thesis
  proof (cases "SL_DEF_REPLICAS < ino_nrepls (inoh_ino ih)")
    case True
    then obtain x where "inoh_extras ih = Some x"
      using assms by (auto simp: inoh_ok_def split: option.splits)
    then show ?thesis
      using assms w same True
      by (auto simp: mds_inodes_odsync_def ensure_loaded_ready mds_inox_write_def Let_def
          split: prod.splits)
  qed (use w same in \<open>auto simp: mds_inodes_odsync_def\<close>)
qed

lemma rlist_cong:
  "inoh_ino ih' = inoh_ino ih \<Longrightarrow> inoh_extras ih' = inoh_extras ih \<Longrightarrow>
   rlist ih' = rlist ih \<and> inoh_ok ih' = inoh_ok ih"
  by (simp add: rlist_def inoh_ok_def split: option.split)

lemma mds_repl_ios_search_rlist:
  assumes "inoh_ok ih" "j + left = ino_nrepls (inoh_ino ih)"
    and "k = (if j = SL_DEF_REPLICAS then SL_DEF_REPLICAS else kpos j)"
    and "inx = (SL_DEF_REPLICAS < j)"
  shows "mds_repl_ios_search env ios left j k inx ih =
    Some (case ios_index ios (drop j (rlist ih)) of None \<Rightarrow> NotFound
          | Some i \<Rightarrow> Found (j + i) (kpos (j + i)), ih)"
  using assms
proof (induction left arbitrary: j k inx)
  case 0
  then show ?case by (simp add: length_rlist)
next
  case (Suc left)
  let ?k = "if j = SL_DEF_REPLICAS then 0 else k" and ?inx = "inx \<or> j = SL_DEF_REPLICAS"
  have j: "j < ino_nrepls (inoh_ino ih)" using Suc.prems by simp
  have at: "repl_at ih ?inx ?k = Some (rlist ih ! j)"
    using repl_at_rlist [OF Suc.prems(1) j] Suc.prems(3,4)
    by (auto simp: kpos_def linorder_not_less le_less)
  have ld: "(if j = SL_DEF_REPLICAS then mds_inox_ensure_loaded env ih else Some (0, ih)) = Some (0, ih)"
    using ensure_loaded_ready [OF Suc.prems(1)] j by simp
  have IH: "mds_repl_ios_search env ios left (j + 1) (?k + 1) ?inx ih =
    Some (case ios_index ios (drop (j + 1) (rlist ih)) of None \<Rightarrow> NotFound
          | Some i \<Rightarrow> Found (j + 1 + i) (kpos (j + 1 + i)), ih)"
    by (rule Suc.IH) (use Suc.prems in \<open>auto simp: kpos_def\<close>)
  have dr: "drop j (rlist ih) = rlist ih ! j # drop (j + 1) (rlist ih)"
    using j by (simp add: Cons_nth_drop_Suc length_rlist [OF Suc.prems(1)])
  have kk: "?k = kpos j" using Suc.prems(3) by (auto simp: kpos_def)
  show ?case
    using at kk IH [unfolded kk]
    by (cases "ios_index ios (drop (j + 1) (rlist ih))") (simp_all add: ld dr)
qed

subsection \<open>The lookups implement list operations\<close>

lemma length_memmove_down [simp]:
  "k + n < length xs \<Longrightarrow> length (memmove_down xs k n) = length xs"
  by (simp add: memmove_down_def)

lemma memmove_down_nth:
  "k + n < length xs \<Longrightarrow> i < length xs \<Longrightarrow>
   memmove_down xs k n ! i = (if k \<le> i \<and> i < k + n then xs ! (i + 1) else xs ! i)"
  by (auto simp: memmove_down_def nth_append min_absorb2 Suc_diff_le)

lemma rlist_delete:
  assumes ok: "inoh_ok ih" "inoh_ok ih'" and j: "j < ino_nrepls (inoh_ino ih)"
    and n: "ino_nrepls (inoh_ino ih') = ino_nrepls (inoh_ino ih) - 1"
    and nth: "\<And>i. i < ino_nrepls (inoh_ino ih) - 1 \<Longrightarrow>
                rlist ih' ! i = rlist ih ! (if i < j then i else i + 1)"
  shows "rlist ih' = take j (rlist ih) @ drop (Suc j) (rlist ih)"
proof (rule nth_equalityI)
  show "length (rlist ih') = length (take j (rlist ih) @ drop (Suc j) (rlist ih))"
    using ok j n by (simp add: length_rlist)
next
  fix i assume "i < length (rlist ih')"
  then show "rlist ih' ! i = (take j (rlist ih) @ drop (Suc j) (rlist ih)) ! i"
    using nth [of i] ok j n by (auto simp: length_rlist nth_append min_def)
qed

lemma mds_repl_ios_delete_rlist:
  assumes ok: "inoh_ok ih" and j: "j < ino_nrepls (inoh_ino ih)"
  shows "\<exists>ih'. mds_repl_ios_delete env j (kpos j) ih = Some ih' \<and> inoh_ok ih' \<and>
           rlist ih' = take j (rlist ih) @ drop (Suc j) (rlist ih)"
proof -
  let ?nr = "ino_nrepls (inoh_ino ih)" and ?r = "ino_repls (inoh_ino ih)"
  let ?r1 = "if j < SL_DEF_REPLICAS - 1 then memmove_down ?r j (SL_DEF_REPLICAS - j - 1) else ?r"
  let ?k = "if j < SL_DEF_REPLICAS then 0 else j - SL_DEF_REPLICAS"
  define r2 where "r2 = (if j < SL_DEF_REPLICAS \<and> SL_DEF_REPLICAS < ?nr
     then ?r1[SL_DEF_REPLICAS - 1 := inox_repls (the (inoh_extras ih)) ! 0] else ?r1)"
  define x2 where "x2 = (if SL_DEF_REPLICAS < ?nr \<and> j < SL_MAX_REPLICAS - 1
     then map_option (\<lambda>ix. ix\<lparr>inox_repls :=
        memmove_down (inox_repls ix) ?k (SL_INOX_NREPLICAS - ?k - 1)\<rparr>) (inoh_extras ih)
     else inoh_extras ih)"
  define ih2 where "ih2 = ih\<lparr>inoh_ino := (inoh_ino ih)\<lparr>ino_repls := r2, ino_nrepls := ?nr - 1\<rparr>,
     inoh_extras := x2\<rparr>"
  have len: "length ?r = 4" and nr: "?nr \<le> 64" using ok by (auto simp: inoh_ok_def)
  have ok2: "inoh_ok ih2"
    using ok j by (auto simp: ih2_def r2_def x2_def inoh_ok_def SL_INOX_NREPLICAS_def split: option.splits)
  have nth: "rlist ih2 ! i = rlist ih ! (if i < j then i else i + 1)" if "i < ?nr - 1" for i
    using that ok ok2 j len nr Suc_diff_le [of SL_DEF_REPLICAS i]
    by (auto simp: rlist_nth ih2_def r2_def x2_def memmove_down_nth nth_list_update
        inoh_ok_def SL_INOX_NREPLICAS_def split: option.splits)
  have "mds_repl_ios_delete env j (kpos j) ih =
     do { (_, ih) \<leftarrow> mds_inodes_odsync env True ih2; Some ih }"
    using ok j by (auto simp: mds_repl_ios_delete_def ih2_def r2_def x2_def kpos_def Let_def
        inoh_ok_def ensure_loaded_ready [OF ok] split: option.splits)
  moreover obtain rc ih' where "mds_inodes_odsync env True ih2 = Some (rc, ih')"
      "inoh_ino ih' = inoh_ino ih2" "inoh_extras ih' = inoh_extras ih2"
    using mds_inodes_odsync_same [OF ok2] by blast
  moreover have "rlist ih2 = take j (rlist ih) @ drop (Suc j) (rlist ih)"
    using ok ok2 j nth by (intro rlist_delete) (auto simp: ih2_def)
  ultimately show ?thesis using ok2 rlist_cong [of ih' ih2] by simp
qed

text \<open>
  A fifth replica needs the extras block; the block can be read.
\<close>

definition inox_readable :: "'m mdenv \<Rightarrow> 'm slm_inoh \<Rightarrow> bool" where
  "inox_readable env ih \<longleftrightarrow>
     (case mds_inox_ensure_loaded env ih of None \<Rightarrow> False
      | Some (rc, ih') \<Rightarrow> rc = 0 \<and> (case inoh_extras ih' of None \<Rightarrow> False
          | Some x \<Rightarrow> length (inox_repls x) = SL_INOX_NREPLICAS))"

lemma inox_readableD:
  assumes "inox_readable env ih" "inoh_ok ih" "SL_DEF_REPLICAS \<le> ino_nrepls (inoh_ino ih)"
  obtains ih0 x where "mds_inox_ensure_loaded env ih = Some (0, ih0)"
    "inoh_ino ih0 = inoh_ino ih" "inoh_extras ih0 = Some x" "inoh_ok ih0" "rlist ih0 = rlist ih"
proof -
  from assms(1) obtain ih0 x where l: "mds_inox_ensure_loaded env ih = Some (0, ih0)"
    and x: "inoh_extras ih0 = Some x" "length (inox_repls x) = SL_INOX_NREPLICAS"
    by (auto simp: inox_readable_def split: option.splits)
  have s: "inoh_ino ih0 = inoh_ino ih"
    using l by (auto simp: mds_inox_ensure_loaded_def mds_inox_load_locked_def Let_def
        split: if_splits prod.splits option.splits simp: bind_eq_Some_conv)
  have "ih0 = ih" if "inoh_extras ih \<noteq> None"
    using l that by (simp add: mds_inox_ensure_loaded_def)
  with l x s assms show ?thesis
    by (intro that [of ih0 x]) (auto simp: inoh_ok_def rlist_def split: option.splits)
qed

lemma inoh_add_entry:
  assumes "inoh_ok ih" "SL_DEF_REPLICAS \<le> ino_nrepls (inoh_ino ih)"
    "ino_nrepls (inoh_ino ih) < SL_MAX_REPLICAS" "inoh_extras ih = Some x"
    "ih' = ih\<lparr>inoh_extras := Some (x\<lparr>inox_repls :=
         (inox_repls x)[ino_nrepls (inoh_ino ih) - SL_DEF_REPLICAS := ios]\<rparr>),
       inoh_ino := (inoh_ino ih)\<lparr>ino_nrepls := ino_nrepls (inoh_ino ih) + 1\<rparr>\<rparr>"
  shows "inoh_ok ih' \<and> rlist ih' = rlist ih @ [ios]"
proof -
  have ok': "inoh_ok ih'" using assms by (simp add: inoh_ok_def)
  moreover have "rlist ih' = rlist ih @ [ios]"
    by (rule nth_equalityI)
      (use assms ok' in \<open>auto simp: length_rlist rlist_nth nth_append inoh_ok_def
          nth_list_update SL_INOX_NREPLICAS_def\<close>)
  ultimately show ?thesis by simp
qed

lemma ino_add_entry:
  assumes "inoh_ok ih" "ino_nrepls (inoh_ino ih) < SL_DEF_REPLICAS"
    "ih' = ih\<lparr>inoh_ino := (inoh_ino ih)\<lparr>ino_repls :=
         (ino_repls (inoh_ino ih))[ino_nrepls (inoh_ino ih) := ios],
         ino_nrepls := ino_nrepls (inoh_ino ih) + 1\<rparr>\<rparr>"
  shows "inoh_ok ih' \<and> rlist ih' = rlist ih @ [ios]"
proof -
  have ok': "inoh_ok ih'" using assms by (auto simp: inoh_ok_def split: option.splits)
  moreover have "rlist ih' = rlist ih @ [ios]"
    by (rule nth_equalityI)
      (use assms ok' in \<open>auto simp: length_rlist rlist_nth nth_append inoh_ok_def
          nth_list_update split: option.splits\<close>)
  ultimately show ?thesis by simp
qed

lemma mds_repl_ios_add_rlist:
  assumes ok: "inoh_ok ih"
    and rd: "length (rlist ih) = SL_DEF_REPLICAS \<Longrightarrow> inox_readable env ih"
  shows "\<exists>ih'. mds_repl_ios_add env ios ih =
       Some (if length (rlist ih) = SL_MAX_REPLICAS then - ENOSPC else int (length (rlist ih)), ih') \<and>
     inoh_ok ih' \<and>
     rlist ih' = (if length (rlist ih) = SL_MAX_REPLICAS then rlist ih else rlist ih @ [ios])"
proof (cases "ino_nrepls (inoh_ino ih) = SL_MAX_REPLICAS")
  case True
  then show ?thesis using ok by (simp add: mds_repl_ios_add_def length_rlist)
next
  case False
  let ?nr = "ino_nrepls (inoh_ino ih)"
  have nr: "?nr < 64" using False ok by (auto simp: inoh_ok_def)
  have "\<exists>ih2. mds_repl_ios_add env ios ih =
       do { (_, ih) \<leftarrow> mds_inodes_odsync env True ih2; Some (int ?nr, ih) } \<and>
     inoh_ok ih2 \<and> rlist ih2 = rlist ih @ [ios]"
  proof (cases "SL_DEF_REPLICAS \<le> ?nr")
    case True
    have "inox_readable env ih"
      using ok True rd by (cases "?nr = 4")
        (auto simp: inox_readable_def ensure_loaded_ready length_rlist inoh_ok_def split: option.splits)
    then obtain ih0 x where "mds_inox_ensure_loaded env ih = Some (0, ih0)"
        "inoh_ino ih0 = inoh_ino ih" "inoh_extras ih0 = Some x" "inoh_ok ih0" "rlist ih0 = rlist ih"
      using inox_readableD ok True by blast
    then show ?thesis
      using inoh_add_entry [of ih0 x _ ios] nr True
      by (auto simp: mds_repl_ios_add_def Let_def)
  next
    case False
    then show ?thesis
      using ino_add_entry [OF ok _ refl, of ios] nr by (auto simp: mds_repl_ios_add_def Let_def)
  qed
  then obtain ih2 where add: "mds_repl_ios_add env ios ih =
       do { (_, ih) \<leftarrow> mds_inodes_odsync env True ih2; Some (int ?nr, ih) }"
    and ok2: "inoh_ok ih2" and r2: "rlist ih2 = rlist ih @ [ios]" by blast
  obtain rc ih' where "mds_inodes_odsync env True ih2 = Some (rc, ih')"
      "inoh_ino ih' = inoh_ino ih2" "inoh_extras ih' = inoh_extras ih2"
    using mds_inodes_odsync_same [OF ok2] by blast
  with add ok2 r2 nr rlist_cong [of ih' ih2] show ?thesis
    by (simp add: length_rlist [OF ok])
qed

subsection \<open>The replica table as a specification\<close>

definition ios_lookup_spec :: "sl_config \<Rightarrow> u32 \<Rightarrow> int \<Rightarrow> u32 list \<Rightarrow> int \<times> u32 list" where
  "ios_lookup_spec cf ios flags L =
     (case ios_index ios L of
        Some j \<Rightarrow> (int j, if flags = IOSV_LOOKUPF_DEL then take j L @ drop (Suc j) L else L)
      | None \<Rightarrow>
          if (case libsl_id2res cf ios of None \<Rightarrow> True | Some r \<Rightarrow> \<not> RES_ISFS r)
          then (- SLERR_RES_BADTYPE, L)
          else if flags \<noteq> IOSV_LOOKUPF_ADD then (- SLERR_REPL_NOT_ACT, L)
          else if length L = SL_MAX_REPLICAS then (- ENOSPC, L)
          else (int (length L), L @ [ios]))"

lemma mds_repl_ios_search_start:
  "inoh_ok ih \<Longrightarrow>
   mds_repl_ios_search env ios (ino_nrepls (inoh_ino ih)) 0 0 False ih =
     Some (case ios_index ios (rlist ih) of None \<Rightarrow> NotFound | Some i \<Rightarrow> Found i (kpos i), ih)"
  using mds_repl_ios_search_rlist [of ih 0 "ino_nrepls (inoh_ino ih)" 0 False env ios]
  by (simp add: kpos_def cong: option.case_cong)

lemma ios_lookup_rlist:
  assumes ok: "inoh_ok ih"
    and rd: "flags = IOSV_LOOKUPF_ADD \<Longrightarrow> length (rlist ih) = SL_DEF_REPLICAS \<Longrightarrow> inox_readable env ih"
  shows "\<exists>ih'. mds_repl_ios_lookup env cf ih ios flags =
       Some (fst (ios_lookup_spec cf ios flags (rlist ih)), ih') \<and>
     inoh_ok ih' \<and> rlist ih' = snd (ios_lookup_spec cf ios flags (rlist ih))"
proof (cases "ios_index ios (rlist ih)")
  case None
  then show ?thesis
    using ok mds_repl_ios_add_rlist [of ih env ios] rd
    by (cases "libsl_id2res cf ios")
      (auto simp: mds_repl_ios_lookup_def mds_repl_ios_search_start ios_lookup_spec_def)
next
  case (Some j)
  then have "j < ino_nrepls (inoh_ino ih)"
    using ios_index_SomeD length_rlist ok by metis
  with Some show ?thesis
    using ok mds_repl_ios_delete_rlist [OF ok, of j env]
    by (auto simp: mds_repl_ios_lookup_def mds_repl_ios_search_start ios_lookup_spec_def)
qed

lemma iosidx_dup_check_step:
  "k < length xs \<Longrightarrow> lst \<noteq> int (xs ! k) \<Longrightarrow>
   iosidx_dup_check xs k lst = (if k + 1 < length xs then EINVAL else 0)"
  by (subst iosidx_dup_check.simps, subst iosidx_dup_check.simps) simp

lemma iosidx_dup_check_start:
  "iosidx_dup_check xs 0 (- 1) = (if length xs \<le> 1 then 0 else EINVAL)"
  using iosidx_dup_check_step [of 0 xs "- 1"]
  by (cases xs) (simp_all add: iosidx_dup_check.simps [of "[]"])

lemma mds_repl_iosv_fill_length:
  "mds_repl_iosv_fill env cf ih iosv flags = Some (0, idx, ih') \<Longrightarrow> length idx = length iosv"
  by (induction iosv arbitrary: ih idx)
    (auto simp: bind_eq_Some_conv split: prod.splits if_splits)

subsection \<open>A sample environment\<close>

text \<open>
  A metafile that holds an extras block, with reads and writes that succeed, and a
  configuration with one standalone file system: the concrete inputs of the examples.
\<close>

definition env_ex :: "slm_inox_od mdenv" where
  "env_ex = \<lparr>PFLERR_ALREADY = 2001, PFLERR_BADCRC = 2002, crc64_ino = (\<lambda>_. 1), crc64_inox = (\<lambda>_. 1),
     preadv_inox = (\<lambda>m. (0, 752, m, 1)),
     pwritev_ino = (\<lambda>m _ _ _. (0, 72, m)),
     pwritev_inox = (\<lambda>m x _ _. (0, 752, x))\<rparr>"

definition cf_ex :: sl_config where
  "cf_ex = \<lparr>gconf_sites = [],
     gconf_res_hashtbl = (\<lambda>i. if i < 100
        then Some \<lparr>res_id = i, res_type = SLREST_STANDALONE_FS, res_name = ''r'', res_members = []\<rparr>
        else None)\<rparr>"

definition ih_ex :: "u32 list \<Rightarrow> slm_inox_od slm_inoh" where
  "ih_ex rs = \<lparr>inoh_ino = \<lparr>ino_version = 2, ino_flags = 0, ino_bsz = 0, ino_nrepls = length rs,
       ino_replpol = 0, ino_repls = take 4 (rs @ replicate 4 0), ino_repl_nblks = [5, 6, 7, 8]\<rparr>,
     inoh_extras = None, inoh_ino_new = False, inoh_ino_notloaded = False, inoh_mfh = inox_zero\<rparr>"

lemmas inode_ex_defs = env_ex_def cf_ex_def ih_ex_def inoh_ok_def inox_readable_def
  mds_inox_ensure_loaded_def mds_inox_load_locked_def inox_zero_def SL_INOX_NREPLICAS_def
  rlist_def libsl_id2res_def RES_ISFS_def

subsection \<open>Properties\<close>



text \<open>
  C22: no I/O system is ever entered twice: if the replicas of a file are distinct, they are
  distinct after any lookup, add or delete.
\<close>

theorem mds_repl_ios_lookup_distinct:
  assumes "inoh_ok ih"
    and "flags = IOSV_LOOKUPF_ADD \<Longrightarrow> length (rlist ih) = SL_DEF_REPLICAS \<Longrightarrow> inox_readable env ih"
    and "distinct (rlist ih)"
    and "mds_repl_ios_lookup env cf ih ios flags = Some (rc, ih')"
  shows "distinct (rlist ih')"
proof -
  have "rlist ih' = snd (ios_lookup_spec cf ios flags (rlist ih))"
    using ios_lookup_rlist [of ih flags env cf ios] assms by auto
  moreover have "distinct (take j L @ drop (Suc j) L)" if "distinct L" for j and L :: "u32 list"
    using that distinct_take distinct_drop set_take_disj_set_drop_if_distinct [of L j "Suc j"]
    by simp
  ultimately show ?thesis
    using assms(3) by (auto simp: ios_lookup_spec_def ios_index_None split: option.splits if_splits)
qed

theorem mds_repl_ios_lookup_distinct_witness:
  "\<exists>rc ih'. mds_repl_ios_lookup env_ex cf_ex (ih_ex [11, 12]) 12 IOSV_LOOKUPF_DEL = Some (rc, ih') \<and>
     distinct (rlist ih')"
proof -
  obtain rc ih' where "mds_repl_ios_lookup env_ex cf_ex (ih_ex [11, 12]) 12 IOSV_LOOKUPF_DEL = Some (rc, ih')"
    using ios_lookup_rlist [of "ih_ex [11, 12]" IOSV_LOOKUPF_DEL env_ex cf_ex 12]
    by (auto simp: inode_ex_defs)
  with mds_repl_ios_lookup_distinct [OF _ _ _ this] show ?thesis
    by (auto simp: inode_ex_defs)
qed

text \<open>
  C23: the lookup of several I/O systems at once succeeds for at most one. When every single
  lookup succeeded, a request for two or more is refused with \<open>EINVAL\<close> whether or not it
  holds a duplicate, because the duplicate check compares each sorted index with itself. The
  inode has been changed by then.
\<close>

theorem mds_repl_iosv_lookup_multi:
  assumes "mds_repl_iosv_fill env cf ih iosv flags = Some (0, idx, ih')"
  shows "mds_repl_iosv_lookup env cf ih iosv flags =
    Some (if length iosv \<le> 1 then 0 else EINVAL, sort idx, ih')"
  using assms mds_repl_iosv_fill_length [OF assms]
  by (simp add: mds_repl_iosv_lookup_def iosidx_dup_check_start)

theorem mds_repl_iosv_lookup_multi_witness:
  "mds_repl_iosv_fill env_ex cf_ex (ih_ex [11, 12]) [12, 11] 0 = Some (0, [1, 0], ih_ex [11, 12]) \<and>
   mds_repl_iosv_lookup env_ex cf_ex (ih_ex [11, 12]) [12, 11] 0 = Some (EINVAL, [0, 1], ih_ex [11, 12])"
proof -
  have "mds_repl_iosv_fill env_ex cf_ex (ih_ex [11, 12]) [12, 11] 0 = Some (0, [1, 0], ih_ex [11, 12])"
    by (simp add: mds_repl_ios_lookup_def ih_ex_def repl_at_def numeral_2_eq_2)
  with mds_repl_iosv_lookup_multi [OF this] show ?thesis by simp
qed

text \<open>
  C24: an extras block is used only when it was verified. A load that returns 0 keeps exactly the
  block that was read, and this block is complete and has the checksum stored behind it, or is
  an untouched block of zeroes; every other load returns a negative error and keeps no block.
\<close>

theorem mds_inox_load_verified:
  assumes "inoh_extras ih = None" "preadv_inox env (inoh_mfh ih) = (rc0, nb, x, od_crc)"
    and "0 < PFLERR_BADCRC env"
  shows "\<exists>rc ih'. mds_inox_ensure_loaded env ih = Some (rc, ih') \<and> rc \<le> 0 \<and>
    (if rc0 = 0 \<and> (od_crc = 0 \<and> x = inox_zero \<or>
         nb = INOX_SZ + CRC_SZ \<and> crc64_inox env x = od_crc)
     then rc = 0 \<and> ih' = ih\<lparr>inoh_extras := Some x\<rparr>
     else rc < 0 \<and> ih' = ih)"
  using assms by (auto simp: mds_inox_ensure_loaded_def mds_inox_load_locked_def Let_def)

theorem mds_inox_load_verified_witness:
  "\<exists>rc ih'. mds_inox_ensure_loaded (env_ex\<lparr>crc64_inox := \<lambda>_. 9\<rparr>) (ih_ex []) = Some (rc, ih') \<and>
     rc < 0 \<and> ih' = ih_ex []"
  using mds_inox_load_verified [of "ih_ex []" "env_ex\<lparr>crc64_inox := \<lambda>_. 9\<rparr>" 0 752 inox_zero 1]
  by (auto simp: env_ex_def ih_ex_def)

end
