(* ===== verification/Lease_Chain.thy ===== *)
theory Lease_Chain
  imports Bmap_Seq Inode "HOL-Library.Multiset"
begin

text \<open>
  The leases of one bmap on the metadata server: which client holds which, the numbers of
  reading and writing clients, and the direct I/O mode that keeps them coherent
  (\<open>mds_bmap_directio\<close>, \<open>mds_bmap_dupls_find\<close>, \<open>mds_bmap_getbml\<close>, the list
  operations of \<open>mds_bmap_bml_add\<close> and \<open>mds_bmap_bml_del_locked\<close> in \<open>slashd/mds.c\<close>,
  \<open>mdscoh_req\<close> in \<open>slashd/coh.c\<close>).

  A lease is known by its address, an index of the store \<open>lt_bml\<close>. The list
  \<open>bmi_leases\<close> holds one lease of each client; the further leases of that client form a
  circle through \<open>bml_chain\<close>. The circle that starts at a lease of the list is a list of
  addresses, and \<open>lt_leases\<close> is the list of these circles. Following a circle in search of a
  lease that is not on it never ends, which is \<^term>\<open>None\<close> as an abort is.
\<close>

subsection \<open>State\<close>

record lease_tbl =
  lt_bml :: "nat \<Rightarrow> bmap_mds_lease"
  lt_leases :: "nat list list"
  bmi_writers :: int
  bmi_readers :: int
  bcm_dio :: bool
  bcm_diocb :: bool
  lt_coh :: "nat list"

datatype sl_rw = SL_READ | SL_WRITE

text \<open>
  Whether a client's connection is available, and the code of starting a request on it, are
  decided by the RPC library.
\<close>

record coh_env =
  cl_csvc :: "u64 \<times> u32 \<Rightarrow> bool"
  cl_newreq :: "u64 \<times> u32 \<Rightarrow> int"
  PFLERR_NOTCONN :: int

abbreviation lt_cli :: "lease_tbl \<Rightarrow> nat \<Rightarrow> u64 \<times> u32" where
  "lt_cli t x \<equiv> bml_cli (lt_bml t x)"

definition bml_upd :: "nat \<Rightarrow> (bmap_mds_lease \<Rightarrow> bmap_mds_lease) \<Rightarrow> lease_tbl \<Rightarrow> lease_tbl" where
  "bml_upd x f t = t\<lparr>lt_bml := (lt_bml t)(x := f (lt_bml t x))\<rparr>"

subsection \<open>Direct I/O\<close>

definition mdscoh_req :: "coh_env \<Rightarrow> nat \<Rightarrow> lease_tbl \<Rightarrow> (int \<times> lease_tbl) option" where
  "mdscoh_req ce x t =
     (let b = lt_bml t x in
      if bml_recover b then do {
        psc_assert (\<not> bml_exp b);
        Some (- PFLERR_NOTCONN ce, t)
      }
      else do {
        psc_assert (bml_exp b);
        if \<not> cl_csvc ce (bml_cli b) then Some (- PFLERR_NOTCONN ce, t)
        else if cl_newreq ce (bml_cli b) \<noteq> 0 then Some (cl_newreq ce (bml_cli b), t)
        else Some (0, t\<lparr>lt_coh := lt_coh t @ [x]\<rparr>)
      })"

fun directio_loop ::
    "coh_env \<Rightarrow> u64 \<times> u32 \<Rightarrow> nat list \<Rightarrow> int \<times> bool \<times> lease_tbl \<Rightarrow> (int \<times> bool \<times> lease_tbl) option" where
  "directio_loop ce np [] acc = Some acc"
| "directio_loop ce np (x # xs) (rc, force_dio, t) =
     (let b = lt_bml t x in
      if bml_cli b = np then directio_loop ce np xs (rc, force_dio, t)
      else if bml_dio b then directio_loop ce np xs (rc, True, t)
      else if bml_diocb b then directio_loop ce np xs (- SLERR_BMAP_DIOWAIT, True, t)
      else do {
        let t = (bml_upd x (\<lambda>b. b\<lparr>bml_diocb := True\<rparr>) t)\<lparr>bcm_diocb := True\<rparr>;
        (_, t) \<leftarrow> mdscoh_req ce x t;
        directio_loop ce np xs (- SLERR_BMAP_DIOWAIT, True, t)
      })"

definition mds_bmap_directio ::
    "coh_env \<Rightarrow> sl_rw \<Rightarrow> bool \<Rightarrow> u64 \<times> u32 \<Rightarrow> lease_tbl \<Rightarrow> (int \<times> lease_tbl) option" where
  "mds_bmap_directio ce rw want_dio np t =
     (if bcm_dio t then Some (0, t)
      else do {
        let want_dio = (want_dio \<or> bcm_diocb t);
        (rc, force_dio, t) \<leftarrow>
          (if want_dio \<or> bmi_writers t \<noteq> 0 \<or> rw = SL_WRITE \<and> bmi_readers t \<noteq> 0
           then directio_loop ce np (concat (lt_leases t)) (0, False, t)
           else Some (0, False, t));
        Some (rc, if rc = 0 \<and> (want_dio \<or> force_dio)
                  then t\<lparr>bcm_dio := True, bcm_diocb := False\<rparr> else t)
      })"

subsection \<open>The leases of a client\<close>

definition mds_bmap_dupls_find ::
    "lease_tbl \<Rightarrow> u64 \<times> u32 \<Rightarrow> (nat list option \<times> int \<times> int) option" where
  "mds_bmap_dupls_find t cnp =
     (case filter (\<lambda>c. lt_cli t (hd c) = cnp) (lt_leases t) of
        [] \<Rightarrow> Some (None, 0, 0)
      | [c] \<Rightarrow> Some (Some c, int (length (filter (\<lambda>x. bml_write (lt_bml t x)) c)),
                      int (length (filter (\<lambda>x. \<not> bml_write (lt_bml t x)) c)))
      | _ \<Rightarrow> None)"

definition mds_bmap_getbml :: "u64 \<Rightarrow> u64 \<times> u32 \<Rightarrow> lease_tbl \<Rightarrow> nat option \<times> lease_tbl" where
  "mds_bmap_getbml seq cli t =
     (case find (\<lambda>x. bml_seq (lt_bml t x) = seq)
             (concat (filter (\<lambda>c. lt_cli t (hd c) = cli) (lt_leases t))) of
        None \<Rightarrow> (None, t)
      | Some x \<Rightarrow>
          if \<not> bml_freeing (lt_bml t x)
          then (Some x, bml_upd x (\<lambda>b. b\<lparr>bml_refcnt := bml_refcnt b + 1\<rparr>) t)
          else (None, t))"

text \<open>Linking a new lease, and the counts a write lease changes (\<open>mds_bmap_bml_add\<close>).\<close>

definition chain_upd :: "nat \<Rightarrow> (nat list \<Rightarrow> nat list) \<Rightarrow> nat list list \<Rightarrow> nat list list" where
  "chain_upd h f L = map (\<lambda>c. if hd c = h then f c else c) L"

definition bml_link :: "nat \<Rightarrow> nat list option \<Rightarrow> lease_tbl \<Rightarrow> lease_tbl" where
  "bml_link x obml t =
     bml_upd x (\<lambda>b. b\<lparr>bml_chain := (obml \<noteq> None) \<or> bml_chain b, bml_bmi := True\<rparr>)
       (t\<lparr>lt_leases := (case obml of
            Some c \<Rightarrow> chain_upd (hd c) (\<lambda>c. c @ [x]) (lt_leases t)
          | None \<Rightarrow> lt_leases t @ [[x]])\<rparr>)"

definition bml_count_add :: "sl_rw \<Rightarrow> int \<Rightarrow> int \<Rightarrow> lease_tbl \<Rightarrow> lease_tbl" where
  "bml_count_add rw wlease rlease t =
     (if rw = SL_WRITE
      then if wlease = 0
           then t\<lparr>bmi_writers := bmi_writers t + 1,
                  bmi_readers := (if rlease \<noteq> 0 then bmi_readers t - 1 else bmi_readers t)\<rparr>
           else t
      else if wlease = 0 \<and> rlease = 0 then t\<lparr>bmi_readers := bmi_readers t + 1\<rparr> else t)"

text \<open>
  Removing a lease from its circle, of \<open>n\<close> leases; when it was the one on the list, the next
  one takes its place at the end of the list. Then the counters.
\<close>

definition bml_unlink :: "nat \<Rightarrow> nat list \<Rightarrow> int \<Rightarrow> lease_tbl \<Rightarrow> lease_tbl option" where
  "bml_unlink x c n t =
     (if bml_chain (lt_bml t x) then do {
        psc_assert (n > 1);
        Some (t\<lparr>lt_leases := chain_upd (hd c) (remove1 x) (lt_leases t)\<rparr>)
      } else do {
        psc_assert (hd c = x);
        let t = t\<lparr>lt_leases := filter (\<lambda>c. hd c \<noteq> x) (lt_leases t)\<rparr>;
        if n > 1 then do {
          psc_assert (bml_chain (lt_bml t (hd (tl c))));
          Some (bml_upd (hd (tl c)) (\<lambda>b. b\<lparr>bml_chain := False\<rparr>)
                  (t\<lparr>lt_leases := lt_leases t @ [tl c]\<rparr>))
        } else do {
          psc_assert (tl c = []);
          Some t
        }
      })"

definition bml_count_del :: "bool \<Rightarrow> int \<Rightarrow> int \<Rightarrow> lease_tbl \<Rightarrow> lease_tbl option" where
  "bml_count_del wr wlease rlease t =
     (if wr then
        if wlease = 1 then do {
          psc_assert (bmi_writers t > 0);
          Some (t\<lparr>bmi_writers := bmi_writers t - 1,
                  bmi_readers := (if rlease \<noteq> 0 then bmi_readers t + 1 else bmi_readers t)\<rparr>)
        } else Some t
      else if wlease = 0 \<and> rlease = 1 then do {
        psc_assert (bmi_readers t > 0);
        Some (t\<lparr>bmi_readers := bmi_readers t - 1\<rparr>)
      } else Some t)"

definition mds_bmap_bml_del_locked :: "nat \<Rightarrow> lease_tbl \<Rightarrow> lease_tbl option" where
  "mds_bmap_bml_del_locked x t = do {
     (obml, wlease, rlease) \<leftarrow> mds_bmap_dupls_find t (lt_cli t x);
     c \<leftarrow> obml;
     psc_assert (wlease + rlease > 0);
     psc_assert (\<not> bml_chain (lt_bml t (hd c)));
     psc_assert (x \<in> set c);
     t' \<leftarrow> bml_unlink x c (wlease + rlease) t;
     bml_count_del (bml_write (lt_bml t x)) wlease rlease t'
   }"

text \<open>The reply of a client that went to direct I/O (\<open>slmcoh_releasebml\<close>).\<close>

definition bml_set_dio :: "nat \<Rightarrow> lease_tbl \<Rightarrow> lease_tbl" where
  "bml_set_dio x = bml_upd x (\<lambda>b. b\<lparr>bml_dio := True, bml_diocb := False\<rparr>)"

text \<open>Removing the direct I/O mode when the last conflict is gone (\<open>mds_bmap_bml_release\<close>).\<close>

definition dio_clear :: "lease_tbl \<Rightarrow> lease_tbl" where
  "dio_clear t =
     (if (bcm_dio t \<or> bcm_diocb t) \<and>
         (bmi_writers t = 0 \<or> bmi_writers t = 1 \<and> bmi_readers t = 0)
      then t\<lparr>bcm_dio := False, bcm_diocb := False\<rparr> else t)"

subsection \<open>The invariant\<close>

definition has_w :: "lease_tbl \<Rightarrow> nat list \<Rightarrow> bool" where
  "has_w t c = list_ex (\<lambda>x. bml_write (lt_bml t x)) c"

abbreviation lease_ids :: "lease_tbl \<Rightarrow> nat set" where
  "lease_ids t \<equiv> set (concat (lt_leases t))"

text \<open>
  Every circle is nonempty and belongs to one client, no client has two, the flags say who is on
  the list, and the counters count the clients with a write lease and those with read leases only.
\<close>

definition member_ok :: "lease_tbl \<Rightarrow> nat list \<Rightarrow> bool" where
  "member_ok t c \<longleftrightarrow> c \<noteq> [] \<and> (\<forall>x \<in> set c. lt_cli t x = lt_cli t (hd c) \<and>
     (bml_chain (lt_bml t x) \<longleftrightarrow> x \<noteq> hd c) \<and> bml_bmi (lt_bml t x))"

definition chains_ok :: "lease_tbl \<Rightarrow> nat list list \<Rightarrow> int \<Rightarrow> int \<Rightarrow> bool" where
  "chains_ok t L w r \<longleftrightarrow> distinct (concat L) \<and> distinct (map (\<lambda>c. lt_cli t (hd c)) L) \<and>
     (\<forall>c \<in> set L. member_ok t c) \<and> w = int (length (filter (has_w t) L)) \<and>
     r = int (length (filter (\<lambda>c. \<not> has_w t c) L))"

definition leases_ok :: "lease_tbl \<Rightarrow> bool" where
  "leases_ok t \<longleftrightarrow> chains_ok t (lt_leases t) (bmi_writers t) (bmi_readers t)"

text \<open>Without direct I/O, a writing client is alone.\<close>

definition coherent :: "lease_tbl \<Rightarrow> bool" where
  "coherent t \<longleftrightarrow> bcm_dio t \<or> bmi_writers t = 0 \<or> length (lt_leases t) \<le> 1"

lemma bml_upd_simps [simp]:
  "lt_bml (bml_upd x f t) = (lt_bml t)(x := f (lt_bml t x))"
  "lt_leases (bml_upd x f t) = lt_leases t" "bmi_writers (bml_upd x f t) = bmi_writers t"
  "bmi_readers (bml_upd x f t) = bmi_readers t" "bcm_dio (bml_upd x f t) = bcm_dio t"
  "bcm_diocb (bml_upd x f t) = bcm_diocb t" "lt_coh (bml_upd x f t) = lt_coh t"
  by (simp_all add: bml_upd_def)

lemma has_w_cong:
  "(\<And>x. x \<in> set c \<Longrightarrow> bml_write (lt_bml t x) = bml_write (lt_bml u x)) \<Longrightarrow> has_w t c = has_w u c"
  by (auto simp: has_w_def list_ex_iff)

lemma member_ok_cong:
  assumes "\<And>x. x \<in> set c \<Longrightarrow> lt_cli t x = lt_cli u x \<and>
    bml_chain (lt_bml t x) = bml_chain (lt_bml u x) \<and> bml_bmi (lt_bml t x) = bml_bmi (lt_bml u x)"
  shows "member_ok t c = member_ok u c"
proof (cases "c = []")
  case False
  then have "hd c \<in> set c" by simp
  then show ?thesis using assms by (simp add: member_ok_def)
qed (simp add: member_ok_def)

text \<open>Two stores that agree on what the invariant reads of the given leases.\<close>

definition same_on :: "nat set \<Rightarrow> lease_tbl \<Rightarrow> lease_tbl \<Rightarrow> bool" where
  "same_on X t u \<longleftrightarrow> (\<forall>x \<in> X. lt_cli u x = lt_cli t x \<and> bml_chain (lt_bml u x) = bml_chain (lt_bml t x) \<and>
     bml_bmi (lt_bml u x) = bml_bmi (lt_bml t x) \<and> bml_write (lt_bml u x) = bml_write (lt_bml t x))"

lemma chains_ok_cong:
  assumes same: "same_on (set (concat L)) t u" and ok: "chains_ok t L w r"
  shows "chains_ok u L w r"
proof -
  have w: "has_w u c = has_w t c" and m: "member_ok u c = member_ok t c" if "c \<in> set L" for c
    using that same by (auto simp: same_on_def intro!: has_w_cong member_ok_cong)
  have "lt_cli u (hd c) = lt_cli t (hd c)" if "c \<in> set L" for c
  proof -
    have "hd c \<in> set c" using that ok by (auto simp: chains_ok_def member_ok_def)
    then show ?thesis using that same by (auto simp: same_on_def)
  qed
  then have e: "map (\<lambda>c. lt_cli u (hd c)) L = map (\<lambda>c. lt_cli t (hd c)) L" by simp
  have "filter (has_w u) L = filter (has_w t) L" "filter (\<lambda>c. \<not> has_w u c) L = filter (\<lambda>c. \<not> has_w t c) L"
    using w by (auto intro: filter_cong)
  then show ?thesis using ok m unfolding chains_ok_def e by simp
qed

lemma leases_ok_cong:
  assumes "leases_ok t" "lt_leases u = lt_leases t" "bmi_writers u = bmi_writers t"
    "bmi_readers u = bmi_readers t" "same_on (lease_ids t) t u"
  shows "leases_ok u"
  using chains_ok_cong [OF assms(5)] assms(1-4) by (simp add: leases_ok_def)

lemma chains_ok_insert:
  "chains_ok t (xs @ c # ys) w r \<longleftrightarrow>
    chains_ok t (xs @ ys) (w - (if has_w t c then 1 else 0)) (r - (if has_w t c then 0 else 1)) \<and>
    member_ok t c \<and> distinct c \<and> set c \<inter> set (concat (xs @ ys)) = {} \<and>
    (\<forall>d \<in> set (xs @ ys). lt_cli t (hd d) \<noteq> lt_cli t (hd c))"
  by (auto simp: chains_ok_def image_iff)

text \<open>The circle of a client splits the list.\<close>

lemma dupls_find_cases:
  assumes ok: "leases_ok t"
  obtains (none) "\<forall>c \<in> set (lt_leases t). lt_cli t (hd c) \<noteq> np" "mds_bmap_dupls_find t np = Some (None, 0, 0)"
  | (some) xs c ys where "lt_leases t = xs @ c # ys" "lt_cli t (hd c) = np"
      "\<forall>d \<in> set xs \<union> set ys. lt_cli t (hd d) \<noteq> np"
      "mds_bmap_dupls_find t np = Some (Some c, int (length (filter (\<lambda>x. bml_write (lt_bml t x)) c)),
         int (length (filter (\<lambda>x. \<not> bml_write (lt_bml t x)) c)))"
proof (cases "\<exists>c \<in> set (lt_leases t). lt_cli t (hd c) = np")
  case True
  then obtain xs c ys where L: "lt_leases t = xs @ c # ys" and c: "lt_cli t (hd c) = np"
    by (auto simp: in_set_conv_decomp)
  have "distinct (map (\<lambda>c. lt_cli t (hd c)) (xs @ c # ys))" using ok L by (simp add: leases_ok_def chains_ok_def)
  then have d: "\<forall>d \<in> set xs \<union> set ys. lt_cli t (hd d) \<noteq> np" using c by (auto simp: image_iff)
  then have "filter (\<lambda>c. lt_cli t (hd c) = np) xs = []" "filter (\<lambda>c. lt_cli t (hd c) = np) ys = []"
    by (auto simp: filter_empty_conv)
  then have "filter (\<lambda>c. lt_cli t (hd c) = np) (lt_leases t) = [c]" using L c by simp
  then show ?thesis using some [OF L c d] by (simp add: mds_bmap_dupls_find_def)
next
  case False
  then have "filter (\<lambda>c. lt_cli t (hd c) = np) (lt_leases t) = []" by (auto simp: filter_empty_conv)
  then show ?thesis using none False by (auto simp: mds_bmap_dupls_find_def)
qed

lemma chain_upd_split:
  assumes "\<forall>d \<in> set xs \<union> set ys. hd d \<noteq> hd c"
  shows "chain_upd (hd c) f (xs @ c # ys) = xs @ f c # ys"
    "filter (\<lambda>d. hd d \<noteq> hd c) (xs @ c # ys) = xs @ ys"
proof -
  have "map (\<lambda>d. if hd d = hd c then f d else d) zs = zs" "filter (\<lambda>d. hd d \<noteq> hd c) zs = zs"
    if "\<forall>d \<in> set zs. hd d \<noteq> hd c" for zs
    using that by (auto intro: map_idI filter_True)
  then show "chain_upd (hd c) f (xs @ c # ys) = xs @ f c # ys"
    "filter (\<lambda>d. hd d \<noteq> hd c) (xs @ c # ys) = xs @ ys"
    using assms by (simp_all add: chain_upd_def)
qed

lemma count_w_iff:
  "length (filter (\<lambda>x. bml_write (lt_bml t x)) c) = 0 \<longleftrightarrow> \<not> has_w t c"
  by (auto simp: has_w_def list_ex_iff filter_empty_conv)

lemma chain_headD:
  assumes "chains_ok t (xs @ c # ys) w r"
  shows "c \<noteq> []" "hd c \<in> set c" "\<forall>d \<in> set xs \<union> set ys. hd d \<noteq> hd c"
proof -
  show c: "c \<noteq> []" using assms unfolding chains_ok_insert by (simp add: member_ok_def)
  then show "hd c \<in> set c" by simp
  have "\<forall>d \<in> set (xs @ ys). lt_cli t (hd d) \<noteq> lt_cli t (hd c)"
    using assms unfolding chains_ok_insert by (elim conjE)
  then show "\<forall>d \<in> set xs \<union> set ys. hd d \<noteq> hd c" by (metis set_append)
qed

text \<open>A new lease keeps the invariant.\<close>

lemma link_new_ok:
  assumes ok: "leases_ok t" and x: "x \<notin> lease_ids t" "\<not> bml_chain (lt_bml t x)"
    and none: "\<forall>c \<in> set (lt_leases t). lt_cli t (hd c) \<noteq> lt_cli t x"
    and rw: "rw = SL_WRITE \<longleftrightarrow> bml_write (lt_bml t x)"
  shows "leases_ok (bml_count_add rw 0 0 (bml_link x None t))"
proof -
  let ?u = "bml_count_add rw 0 0 (bml_link x None t)"
  have L: "lt_leases ?u = lt_leases t @ [[x]]" by (simp add: bml_count_add_def bml_link_def)
  have "chains_ok t (lt_leases t) (bmi_writers t) (bmi_readers t)" using ok by (simp add: leases_ok_def)
  moreover have "same_on (lease_ids t) t ?u"
    using x by (auto simp: same_on_def bml_count_add_def bml_link_def)
  ultimately have "chains_ok ?u (lt_leases t) (bmi_writers t) (bmi_readers t)" by (rule chains_ok_cong [rotated])
  moreover have "\<forall>d \<in> set (lt_leases t). lt_cli ?u (hd d) \<noteq> lt_cli ?u x"
    using none(1) by (auto simp: bml_count_add_def bml_link_def)
  moreover have "member_ok ?u [x]" using x(2) by (simp add: member_ok_def bml_count_add_def bml_link_def)
  moreover have "bmi_writers ?u - (if has_w ?u [x] then 1 else 0) = bmi_writers t"
    "bmi_readers ?u - (if has_w ?u [x] then 0 else 1) = bmi_readers t"
    using rw by (auto simp: bml_count_add_def bml_link_def has_w_def)
  ultimately show ?thesis
    using x(1) unfolding leases_ok_def L by (subst chains_ok_insert) simp
qed

lemma link_chain_ok:
  assumes ok: "leases_ok t" and x: "x \<notin> lease_ids t"
    and L: "lt_leases t = xs @ c # ys" "lt_cli t (hd c) = lt_cli t x"
    and wl: "wl = 0 \<longleftrightarrow> \<not> has_w t c" "rl = 0 \<longleftrightarrow> (\<forall>y \<in> set c. bml_write (lt_bml t y))"
    and rw: "rw = SL_WRITE \<longleftrightarrow> bml_write (lt_bml t x)"
  shows "leases_ok (bml_count_add rw wl rl (bml_link x (Some c) t))"
proof -
  let ?u = "bml_count_add rw wl rl (bml_link x (Some c) t)"
  have ch: "chains_ok t (xs @ c # ys) (bmi_writers t) (bmi_readers t)"
    using ok by (simp add: leases_ok_def L(1))
  note hd = chain_headD [OF ch]
  have xc: "x \<notin> set c" "x \<noteq> hd c" using x L(1) hd(2) by auto
  have u: "lt_bml ?u = (lt_bml t)(x := (lt_bml t x)\<lparr>bml_chain := True, bml_bmi := True\<rparr>)"
    "lt_leases ?u = xs @ (c @ [x]) # ys"
    using chain_upd_split(1) [OF hd(3)] by (simp_all add: bml_count_add_def bml_link_def L(1))
  have w: "has_w ?u (c @ [x]) \<longleftrightarrow> has_w t c \<or> rw = SL_WRITE"
    using xc(1) rw by (auto simp: has_w_def list_ex_iff u(1))
  have "\<not> has_w t c \<Longrightarrow> rl \<noteq> 0" using wl(2) hd(2) by (auto simp: has_w_def list_ex_iff)
  then have n: "bmi_writers ?u - (if has_w ?u (c @ [x]) then 1 else 0) = bmi_writers t - (if has_w t c then 1 else 0)"
    "bmi_readers ?u - (if has_w ?u (c @ [x]) then 0 else 1) = bmi_readers t - (if has_w t c then 0 else 1)"
    using wl(1) unfolding w by (cases rw; auto simp: bml_count_add_def bml_link_def)+
  have cli: "lt_cli ?u y = lt_cli t y" for y by (simp add: u(1))
  have "same_on (set (concat (xs @ ys))) t ?u" using x by (auto simp: same_on_def u(1) L(1))
  then have "chains_ok ?u (xs @ ys) (bmi_writers t - (if has_w t c then 1 else 0))
      (bmi_readers t - (if has_w t c then 0 else 1))"
    by (rule chains_ok_cong) (use ch in \<open>simp only: chains_ok_insert\<close>)
  moreover have "member_ok ?u (c @ [x])"
    using ch xc hd(1) L(2) unfolding chains_ok_insert by (auto simp: member_ok_def u(1))
  moreover have "distinct (c @ [x])" "set (c @ [x]) \<inter> set (concat (xs @ ys)) = {}"
    using ch xc(1) x unfolding chains_ok_insert L(1) by auto
  moreover have "\<forall>d \<in> set (xs @ ys). lt_cli ?u (hd d) \<noteq> lt_cli ?u (hd (c @ [x]))"
    using ch hd(1) unfolding chains_ok_insert cli by simp
  ultimately show ?thesis unfolding leases_ok_def u(2) chains_ok_insert n by (intro conjI)
qed

lemma link_ok:
  assumes ok: "leases_ok t" and x: "x \<notin> lease_ids t" "\<not> bml_chain (lt_bml t x)"
    and d: "mds_bmap_dupls_find t (lt_cli t x) = Some (ob, wl, rl)"
    and rw: "rw = SL_WRITE \<longleftrightarrow> bml_write (lt_bml t x)"
  shows "leases_ok (bml_count_add rw wl rl (bml_link x ob t))"
proof (rule dupls_find_cases [OF ok, of "lt_cli t x"], goal_cases)
  case 1
  then show ?thesis using link_new_ok [OF ok x 1(1) rw] d by simp
next
  case (2 xs c ys)
  have "wl = 0 \<longleftrightarrow> \<not> has_w t c" "rl = 0 \<longleftrightarrow> (\<forall>y \<in> set c. bml_write (lt_bml t y))"
    using d 2(4) count_w_iff [of t c] by (auto simp: filter_empty_conv)
  then show ?thesis using link_chain_ok [OF ok x(1) 2(1,2) _ _ rw] d 2(4) by simp
qed

text \<open>Removing a lease keeps the invariant and does not abort.\<close>

abbreviation n_w :: "lease_tbl \<Rightarrow> nat list \<Rightarrow> nat" where
  "n_w t c \<equiv> length (filter (\<lambda>x. bml_write (lt_bml t x)) c)"

abbreviation n_r :: "lease_tbl \<Rightarrow> nat list \<Rightarrow> nat" where
  "n_r t c \<equiv> length (filter (\<lambda>x. \<not> bml_write (lt_bml t x)) c)"

lemma n_w_remove:
  assumes "x \<in> set c"
  shows "n_w t (remove1 x c) = n_w t c - (if bml_write (lt_bml t x) then 1 else 0)"
    "n_r t (remove1 x c) = n_r t c - (if bml_write (lt_bml t x) then 0 else 1)"
    "bml_write (lt_bml t x) \<Longrightarrow> n_w t c > 0" "\<not> bml_write (lt_bml t x) \<Longrightarrow> n_r t c > 0"
  using assms by (auto simp: filter_remove1 length_remove1 filter_empty_conv)

lemma n_w_r_length: "n_w t c + n_r t c = length c"
  by (rule sum_length_filter_compl)

lemma has_w_count: "has_w t c \<longleftrightarrow> n_w t c > 0"
  using count_w_iff [of t c] by auto

definition del_counts :: "bool \<Rightarrow> nat \<Rightarrow> nat \<Rightarrow> int \<Rightarrow> int \<Rightarrow> int \<times> int" where
  "del_counts wr wl rl w r =
     (if wr then if wl = 1 then (w - 1, if rl \<noteq> 0 then r + 1 else r) else (w, r)
      else if wl = 0 \<and> rl = 1 then (w, r - 1) else (w, r))"

lemma del_counts_arith:
  assumes "wr \<Longrightarrow> wl > 0" "\<not> wr \<Longrightarrow> rl > 0"
    "wl' = wl - (if wr then 1 else 0)" "rl' = rl - (if wr then 0 else 1)"
  shows "del_counts wr wl rl w r =
    (w - (if wl > 0 then 1 else 0) + (if wl' > 0 then 1 else 0),
     r - (if wl > 0 then 0 else 1) + (if wl' + rl' = 0 \<or> wl' > 0 then 0 else 1))"
  using assms by (cases wr) (auto simp: del_counts_def)

lemma del_counts_shrink:
  assumes "x \<in> set c"
  shows "del_counts (bml_write (lt_bml t x)) (n_w t c) (n_r t c) w r =
    (w - (if has_w t c then 1 else 0) + (if has_w t (remove1 x c) then 1 else 0),
     r - (if has_w t c then 0 else 1) + (if remove1 x c = [] \<or> has_w t (remove1 x c) then 0 else 1))"
proof -
  have e: "remove1 x c = [] \<longleftrightarrow> n_w t (remove1 x c) + n_r t (remove1 x c) = 0"
    unfolding n_w_r_length by simp
  show ?thesis unfolding has_w_count e
    by (rule del_counts_arith) (rule n_w_remove [OF assms]; assumption)+
qed

lemma shrink_ok:
  assumes ch: "chains_ok t (xs @ c # ys) w r" and x: "x \<in> set c" and L: "ps @ qs = xs @ ys"
    and u: "same_on (set (concat (xs @ ys))) t u" "\<forall>y. lt_cli u y = lt_cli t y"
      "\<forall>y. bml_write (lt_bml u y) = bml_write (lt_bml t y)"
    and m: "member_ok u (remove1 x c)"
    and wr: "del_counts (bml_write (lt_bml t x)) (n_w t c) (n_r t c) w r = (w', r')"
  shows "chains_ok u (ps @ remove1 x c # qs) w' r'"
proof -
  have ch': "chains_ok t (xs @ ys) (w - (if has_w t c then 1 else 0)) (r - (if has_w t c then 0 else 1))"
    "member_ok t c" "distinct c" "set c \<inter> set (concat (xs @ ys)) = {}"
    "\<forall>d \<in> set (xs @ ys). lt_cli t (hd d) \<noteq> lt_cli t (hd c)"
    using ch unfolding chains_ok_insert by simp_all
  have h: "has_w u (remove1 x c) = has_w t (remove1 x c)" using u(3) by (intro has_w_cong) simp
  have ne: "remove1 x c \<noteq> []" "hd (remove1 x c) \<in> set c"
    using m set_remove1_subset [of x c] by (auto simp: member_ok_def intro: hd_in_set)
  have "chains_ok u (xs @ ys) (w - (if has_w t c then 1 else 0)) (r - (if has_w t c then 0 else 1))"
    by (rule chains_ok_cong [OF u(1) ch'(1)])
  moreover have "w' - (if has_w t (remove1 x c) then 1 else 0) = w - (if has_w t c then 1 else 0)"
    "r' - (if has_w t (remove1 x c) then 0 else 1) = r - (if has_w t c then 0 else 1)"
    using wr ne(1) unfolding del_counts_shrink [OF x] by auto
  moreover have "distinct (remove1 x c)" using ch'(3) by simp
  moreover have "set (remove1 x c) \<inter> set (concat (xs @ ys)) = {}"
    using ch'(4) set_remove1_subset [of x c] by fast
  moreover have "lt_cli t (hd (remove1 x c)) = lt_cli t (hd c)" using ch'(2) ne(2) unfolding member_ok_def by blast
  ultimately show ?thesis
    using ch'(5) m unfolding chains_ok_insert L h by (simp add: u(2))
qed

text \<open>The table after the list operations of a removal, before the counters change.\<close>

definition del_links :: "nat \<Rightarrow> nat list list \<Rightarrow> nat list \<Rightarrow> nat list list \<Rightarrow> lease_tbl \<Rightarrow> lease_tbl" where
  "del_links x xs c ys t =
     (if x \<noteq> hd c then t\<lparr>lt_leases := xs @ remove1 x c # ys\<rparr>
      else if tl c = [] then t\<lparr>lt_leases := xs @ ys\<rparr>
      else bml_upd (hd (tl c)) (\<lambda>b. b\<lparr>bml_chain := False\<rparr>) (t\<lparr>lt_leases := xs @ ys @ [tl c]\<rparr>))"

lemma del_links_simps [simp]:
  "bmi_writers (del_links x xs c ys t) = bmi_writers t" "bmi_readers (del_links x xs c ys t) = bmi_readers t"
  "bcm_dio (del_links x xs c ys t) = bcm_dio t" "bcm_diocb (del_links x xs c ys t) = bcm_diocb t"
  "lt_coh (del_links x xs c ys t) = lt_coh t"
  by (simp_all add: del_links_def)

lemma chains_pos:
  assumes "chains_ok t (xs @ c # ys) w r"
  shows "has_w t c \<Longrightarrow> w > 0" "\<not> has_w t c \<Longrightarrow> r > 0"
  using assms by (auto simp: chains_ok_def)

lemma unlink_links:
  assumes ok: "leases_ok t" and L: "lt_leases t = xs @ c # ys" and x: "x \<in> set c"
  shows "bml_unlink x c (int (length c)) t = Some (del_links x xs c ys t)" "\<not> bml_chain (lt_bml t (hd c))"
proof -
  have ch: "chains_ok t (xs @ c # ys) (bmi_writers t) (bmi_readers t)" using ok by (simp add: leases_ok_def L)
  note hd = chain_headD [OF ch]
  have m: "\<forall>y \<in> set c. bml_chain (lt_bml t y) \<longleftrightarrow> y \<noteq> hd c" and dist: "distinct c"
    using ch unfolding chains_ok_insert member_ok_def by blast+
  then show "\<not> bml_chain (lt_bml t (hd c))" using hd(2) by simp
  show "bml_unlink x c (int (length c)) t = Some (del_links x xs c ys t)"
  proof (cases "x = hd c")
    case True
    then have f: "\<not> bml_chain (lt_bml t x)" "filter (\<lambda>c. hd c \<noteq> x) (lt_leases t) = xs @ ys"
      using m hd(2) chain_upd_split(2) [OF hd(3)] L by simp_all
    show ?thesis
    proof (cases "tl c = []")
      case True
      then have "length c = 1" using hd(1) by (cases c) auto
      then show ?thesis using \<open>x = hd c\<close> True f by (simp add: bml_unlink_def del_links_def)
    next
      case False
      have "hd (tl c) \<in> set c" "hd (tl c) \<noteq> hd c" "length c > 1"
        using False hd(1) dist by (cases c; cases "tl c"; auto)+
      then have "bml_chain (lt_bml t (hd (tl c)))" using m by simp
      then show ?thesis using \<open>x = hd c\<close> False f \<open>length c > 1\<close> by (simp add: bml_unlink_def del_links_def)
    qed
  next
    case False
    then have "length c > 1" using x by (cases c; cases "tl c") auto
    then show ?thesis
      using False m x chain_upd_split(1) [OF hd(3)] L by (simp add: bml_unlink_def del_links_def)
  qed
qed

lemma count_del_counts:
  assumes "wr \<Longrightarrow> bmi_writers t > 0" "wl = 0 \<Longrightarrow> bmi_readers t > 0"
  shows "bml_count_del wr (int wl) (int rl) t =
    Some (t\<lparr>bmi_writers := fst (del_counts wr wl rl (bmi_writers t) (bmi_readers t)),
            bmi_readers := snd (del_counts wr wl rl (bmi_writers t) (bmi_readers t))\<rparr>)"
  using assms by (cases wr) (simp_all add: bml_count_del_def del_counts_def)

lemma del_unfold:
  assumes ok: "leases_ok t" and L: "lt_leases t = xs @ c # ys" and x: "x \<in> set c"
    and d: "mds_bmap_dupls_find t (lt_cli t x) = Some (Some c, int (n_w t c), int (n_r t c))"
    and wr: "del_counts (bml_write (lt_bml t x)) (n_w t c) (n_r t c) (bmi_writers t) (bmi_readers t) = (w', r')"
  shows "mds_bmap_bml_del_locked x t =
    Some ((del_links x xs c ys t)\<lparr>bmi_writers := w', bmi_readers := r'\<rparr>)"
proof -
  have ch: "chains_ok t (xs @ c # ys) (bmi_writers t) (bmi_readers t)" using ok by (simp add: leases_ok_def L)
  have len: "int (n_w t c) + int (n_r t c) = int (length c)" using n_w_r_length [of t c] by linarith
  have "0 < int (length c)" using x by (cases c) auto
  moreover have "bmi_writers (del_links x xs c ys t) > 0" if "bml_write (lt_bml t x)"
    using chains_pos(1) [OF ch] that x by (auto simp: has_w_def list_ex_iff)
  moreover have "bmi_readers (del_links x xs c ys t) > 0" if "n_w t c = 0"
    using chains_pos(2) [OF ch] that by (simp add: has_w_count)
  ultimately have "bml_count_del (bml_write (lt_bml t x)) (int (n_w t c)) (int (n_r t c)) (del_links x xs c ys t) =
      Some ((del_links x xs c ys t)\<lparr>bmi_writers := w', bmi_readers := r'\<rparr>)"
    using wr by (subst count_del_counts) simp_all
  then show ?thesis
    using x unlink_links [OF ok L x] \<open>0 < int (length c)\<close> by (simp add: mds_bmap_bml_del_locked_def d len)
qed

lemma remove1_hd: "c \<noteq> [] \<Longrightarrow> remove1 (hd c) c = tl c"
  by (cases c) auto

lemma member_ok_subset:
  "member_ok t c \<Longrightarrow> set d \<subseteq> set c \<Longrightarrow> hd d = hd c \<Longrightarrow> d \<noteq> [] \<Longrightarrow> member_ok t d"
  unfolding member_ok_def by (metis subsetD)

lemma member_ok_remove:
  assumes m: "member_ok t c" "distinct c" and x: "x \<in> set c" "remove1 x c \<noteq> []"
  shows "member_ok (del_links x xs c ys t) (remove1 x c)"
proof (cases "x = hd c")
  case True
  obtain y d where c: "c = x # y # d" using True x by (cases c; cases "tl c") auto
  let ?u = "del_links x xs c ys t"
  have u: "lt_bml ?u = (lt_bml t)(y := (lt_bml t y)\<lparr>bml_chain := False\<rparr>)" by (simp add: del_links_def c)
  have h: "lt_cli t z = lt_cli t x" "bml_bmi (lt_bml t z)" "bml_chain (lt_bml t z)" if "z \<in> set (y # d)" for z
    using m that unfolding member_ok_def c by (metis distinct.simps(2) list.sel(1) list.set_intros(2))+
  have "member_ok ?u (y # d)" unfolding member_ok_def
  proof (intro conjI ballI)
    fix z assume z: "z \<in> set (y # d)"
    show "lt_cli ?u z = lt_cli ?u (hd (y # d))" using h(1) [OF z] h(1) [of y] by (simp add: u)
    show "bml_chain (lt_bml ?u z) \<longleftrightarrow> z \<noteq> hd (y # d)" using h(3) [OF z] by (simp add: u)
    show "bml_bmi (lt_bml ?u z)" using h(2) [OF z] by (auto simp: u)
  qed simp
  then show ?thesis by (simp add: c)
next
  case False
  have "hd (remove1 x c) = hd c" using False m(1) by (cases c) (simp_all add: member_ok_def)
  then have "member_ok t (remove1 x c)" by (rule member_ok_subset [OF m(1) set_remove1_subset]) (rule x(2))
  moreover have "lt_bml (del_links x xs c ys t) = lt_bml t" using False by (simp add: del_links_def)
  ultimately show ?thesis unfolding member_ok_def by metis
qed

lemma del_links_bml: "\<exists>f. lt_bml (del_links x xs c ys t) y = (lt_bml t y)\<lparr>bml_chain := f\<rparr>"
  by (auto simp: del_links_def intro: exI [of _ "bml_chain (lt_bml t y)"])

lemma del_links_keep:
  assumes "x \<in> set c" "distinct c" "y = x \<or> y \<notin> set c"
  shows "lt_bml (del_links x xs c ys t) y = lt_bml t y"
proof (cases "x = hd c \<and> tl c \<noteq> []")
  case True
  then obtain z d where c: "c = x # z # d" using assms(1) by (cases c; cases "tl c") auto
  then show ?thesis using assms(2,3) by (auto simp: del_links_def)
qed (auto simp: del_links_def)

lemma remove1_Nil_iff: "x \<in> set c \<Longrightarrow> remove1 x c = [] \<longleftrightarrow> x = hd c \<and> tl c = []"
  by (cases c; cases "tl c") auto

lemma del_links_leases:
  assumes "x \<in> set c"
  obtains "remove1 x c = []" "lt_leases (del_links x xs c ys t) = xs @ ys"
  | ps qs where "remove1 x c \<noteq> []" "ps @ qs = xs @ ys" "lt_leases (del_links x xs c ys t) = ps @ remove1 x c # qs"
proof (cases "x = hd c")
  case True
  have c: "remove1 x c = tl c" using remove1_hd [of c] assms True by (cases c) auto
  show ?thesis
    using that(1) that(2) [of "xs @ ys" "[]"] unfolding c by (cases "tl c = []") (simp_all add: del_links_def True)
next
  case False
  then show ?thesis using that(2) [of xs ys] remove1_Nil_iff [OF assms] by (simp add: del_links_def)
qed

lemma del_links_ok:
  assumes ch: "chains_ok t (xs @ c # ys) w r" and x: "x \<in> set c"
    and wr: "del_counts (bml_write (lt_bml t x)) (n_w t c) (n_r t c) w r = (w', r')"
  shows "chains_ok (del_links x xs c ys t) (lt_leases (del_links x xs c ys t)) w' r'"
proof -
  let ?u = "del_links x xs c ys t"
  have ch': "chains_ok t (xs @ ys) (w - (if has_w t c then 1 else 0)) (r - (if has_w t c then 0 else 1))"
    "member_ok t c" "distinct c" "set c \<inter> set (concat (xs @ ys)) = {}"
    using ch unfolding chains_ok_insert by simp_all
  have f: "lt_cli ?u y = lt_cli t y" "bml_write (lt_bml ?u y) = bml_write (lt_bml t y)" for y
    using del_links_bml [of x xs c ys t y] by auto
  have k: "lt_bml ?u y = lt_bml t y" if "y \<in> set (concat (xs @ ys))" for y
  proof (rule del_links_keep [OF x ch'(3)])
    show "y = x \<or> y \<notin> set c" using that ch'(4) by (metis disjoint_iff)
  qed
  have same: "same_on (set (concat (xs @ ys))) t ?u" unfolding same_on_def by (intro ballI) (simp add: k)
  show ?thesis
  proof (rule del_links_leases [OF x])
    assume 1: "remove1 x c = []" "lt_leases ?u = xs @ ys"
    have "w' = w - (if has_w t c then 1 else 0)" "r' = r - (if has_w t c then 0 else 1)"
      using wr unfolding del_counts_shrink [OF x] by (auto simp: 1(1) has_w_def)
    then show ?thesis using chains_ok_cong [OF same ch'(1)] unfolding 1(2) by simp
  next
    fix ps qs
    assume 2: "remove1 x c \<noteq> []" "ps @ qs = xs @ ys" "lt_leases ?u = ps @ remove1 x c # qs"
    show ?thesis unfolding 2(3)
      by (rule shrink_ok [OF ch x 2(2) same])
        (simp_all add: f member_ok_remove [OF ch'(2,3) x 2(1)] wr)
  qed
qed

lemma lease_split:
  assumes ok: "leases_ok t" and x: "x \<in> lease_ids t"
  obtains xs c ys where "lt_leases t = xs @ c # ys" "x \<in> set c"
    "mds_bmap_dupls_find t (lt_cli t x) = Some (Some c, int (n_w t c), int (n_r t c))"
proof -
  obtain d where d: "d \<in> set (lt_leases t)" "x \<in> set d" using x by auto
  have h: "lt_cli t (hd d) = lt_cli t x"
    using ok d unfolding leases_ok_def chains_ok_def member_ok_def by metis
  show ?thesis
  proof (rule dupls_find_cases [OF ok, of "lt_cli t x"], goal_cases)
    case 1
    then show ?thesis using d(1) h by blast
  next
    case (2 xs c ys)
    have "d \<in> set xs \<union> set ys \<or> d = c" using d(1) 2(1) by auto
    then have "d = c" using 2(3) h by blast
    then show ?thesis using that [OF 2(1) _ 2(4)] d(2) by blast
  qed
qed

lemma del_links_ids:
  assumes ch: "chains_ok t (xs @ c # ys) w r" and x: "x \<in> set c"
  shows "lease_ids (del_links x xs c ys t) = set (concat (xs @ c # ys)) - {x}"
    "length (lt_leases (del_links x xs c ys t)) \<le> length (xs @ c # ys)"
proof -
  have ch': "distinct c" "set c \<inter> set (concat (xs @ ys)) = {}"
    using ch unfolding chains_ok_insert by simp_all
  have nx: "x \<notin> set (concat (xs @ ys))" using x ch'(2) by blast
  have r: "set (remove1 x c) = set c - {x}" using ch'(1) by simp
  have "lease_ids (del_links x xs c ys t) = set (concat (xs @ ys)) \<union> set (remove1 x c) \<and>
      length (lt_leases (del_links x xs c ys t)) \<le> length (xs @ c # ys)"
  proof (rule del_links_leases [OF x, of xs ys t])
    fix ps qs assume 2: "ps @ qs = xs @ ys" "lt_leases (del_links x xs c ys t) = ps @ remove1 x c # qs"
    have "set (concat (ps @ qs)) = set (concat (xs @ ys))" "length (ps @ qs) = length (xs @ ys)"
      by (simp_all only: 2(1))
    then show ?thesis using 2(2) by auto
  qed auto
  then show "lease_ids (del_links x xs c ys t) = set (concat (xs @ c # ys)) - {x}"
    "length (lt_leases (del_links x xs c ys t)) \<le> length (xs @ c # ys)"
    using nx r by auto
qed

lemma del_ok:
  assumes ok: "leases_ok t" and x: "x \<in> lease_ids t"
  shows "\<exists>u. mds_bmap_bml_del_locked x t = Some u \<and> leases_ok u \<and> lease_ids u = lease_ids t - {x} \<and>
    length (lt_leases u) \<le> length (lt_leases t) \<and> bmi_writers u \<le> bmi_writers t \<and>
    bcm_dio u = bcm_dio t \<and> bcm_diocb u = bcm_diocb t \<and> lt_coh u = lt_coh t \<and>
    (\<forall>y. \<exists>f. lt_bml u y = (lt_bml t y)\<lparr>bml_chain := f\<rparr>) \<and> lt_bml u x = lt_bml t x"
proof (rule lease_split [OF ok x])
  fix xs c ys
  assume c: "lt_leases t = xs @ c # ys" "x \<in> set c"
    "mds_bmap_dupls_find t (lt_cli t x) = Some (Some c, int (n_w t c), int (n_r t c))"
  have ch: "chains_ok t (xs @ c # ys) (bmi_writers t) (bmi_readers t)" using ok by (simp add: leases_ok_def c(1))
  have dist: "distinct c" using ch unfolding chains_ok_insert by simp
  obtain w' r' where wr:
    "del_counts (bml_write (lt_bml t x)) (n_w t c) (n_r t c) (bmi_writers t) (bmi_readers t) = (w', r')"
    by fastforce
  then have le: "w' \<le> bmi_writers t" by (auto simp: del_counts_def split: if_splits)
  let ?v = "del_links x xs c ys t"
  let ?u = "?v\<lparr>bmi_writers := w', bmi_readers := r'\<rparr>"
  have "chains_ok ?u (lt_leases ?v) w' r'"
    by (rule chains_ok_cong [OF _ del_links_ok [OF ch c(2) wr]]) (simp add: same_on_def)
  then have "leases_ok ?u" by (simp add: leases_ok_def)
  then show ?thesis
    using del_unfold [OF ok c wr] del_links_ids [OF ch c(2)] le del_links_bml [of x xs c ys t]
      del_links_keep [OF c(2) dist, of x] c(1)
    by (intro exI [of _ ?u] conjI allI) simp_all
qed

text \<open>The direct I/O mode goes away only when no conflict is left.\<close>

lemma count_total: "leases_ok t \<Longrightarrow> bmi_writers t + bmi_readers t = int (length (lt_leases t))"
  using sum_length_filter_compl [of "has_w t" "lt_leases t"] by (simp add: leases_ok_def chains_ok_def)

lemma counts_nonneg: "leases_ok t \<Longrightarrow> 0 \<le> bmi_writers t \<and> 0 \<le> bmi_readers t"
  by (simp add: leases_ok_def chains_ok_def)

lemma dio_clear_ok:
  assumes "leases_ok t" "coherent t"
  shows "leases_ok (dio_clear t)" "coherent (dio_clear t)"
proof -
  show "leases_ok (dio_clear t)"
    by (rule leases_ok_cong [OF assms(1)]) (simp_all add: dio_clear_def same_on_def)
  show "coherent (dio_clear t)"
    using assms(2) count_total [OF assms(1)] by (auto simp: coherent_def dio_clear_def)
qed

subsection \<open>Direct I/O\<close>

text \<open>A recovered lease has no connection, every other lease has one.\<close>

definition exports_ok :: "lease_tbl \<Rightarrow> bool" where
  "exports_ok t \<longleftrightarrow> (\<forall>x \<in> lease_ids t. bml_exp (lt_bml t x) \<longleftrightarrow> \<not> bml_recover (lt_bml t x))"

definition dio_asked :: "u64 \<times> u32 \<Rightarrow> nat set \<Rightarrow> lease_tbl \<Rightarrow> nat set" where
  "dio_asked np X t = {x \<in> X. lt_cli t x \<noteq> np \<and> \<not> bml_dio (lt_bml t x)}"

definition dio_mark :: "nat set \<Rightarrow> lease_tbl \<Rightarrow> nat \<Rightarrow> bmap_mds_lease" where
  "dio_mark X t y = (if y \<in> X then (lt_bml t y)\<lparr>bml_diocb := True\<rparr> else lt_bml t y)"

lemma mdscoh_req_spec:
  assumes "bml_exp (lt_bml t x) \<longleftrightarrow> \<not> bml_recover (lt_bml t x)"
  shows "\<exists>rc l. mdscoh_req ce x t = Some (rc, t\<lparr>lt_coh := l\<rparr>)"
  using assms by (cases "bml_recover (lt_bml t x)") (auto simp: mdscoh_req_def Let_def intro: exI [of _ "lt_coh t"])

lemma dio_mark_simps:
  "dio_mark {} t = lt_bml t" "bml_diocb (lt_bml t x) \<Longrightarrow> dio_mark {x} t = lt_bml t"
  "(lt_bml t)(x := (lt_bml t x)\<lparr>bml_diocb := True\<rparr>) = dio_mark {x} t"
  "bml_cli (dio_mark X t y) = bml_cli (lt_bml t y)" "bml_dio (dio_mark X t y) = bml_dio (lt_bml t y)"
  "bml_exp (dio_mark X t y) = bml_exp (lt_bml t y)" "bml_recover (dio_mark X t y) = bml_recover (lt_bml t y)"
  "bml_chain (dio_mark X t y) = bml_chain (lt_bml t y)" "bml_bmi (dio_mark X t y) = bml_bmi (lt_bml t y)"
  "bml_write (dio_mark X t y) = bml_write (lt_bml t y)"
  by (auto simp: dio_mark_def fun_eq_iff)

lemma directio_asks:
  assumes "x \<in> dio_asked np {x} t" "bml_exp (lt_bml t x) \<longleftrightarrow> \<not> bml_recover (lt_bml t x)"
  shows "\<exists>cb l. directio_loop ce np (x # xs) (rc, force, t) = directio_loop ce np xs
    (- SLERR_BMAP_DIOWAIT, True, t\<lparr>lt_bml := dio_mark {x} t, bcm_diocb := cb, lt_coh := l\<rparr>)"
proof (cases "bml_diocb (lt_bml t x)")
  case True
  then show ?thesis
    using assms(1)
    by (intro exI [of _ "bcm_diocb t"] exI [of _ "lt_coh t"]) (simp add: dio_asked_def Let_def dio_mark_simps)
next
  case False
  let ?t = "(bml_upd x (\<lambda>b. b\<lparr>bml_diocb := True\<rparr>) t)\<lparr>bcm_diocb := True\<rparr>"
  obtain rc' l where c: "mdscoh_req ce x ?t = Some (rc', ?t\<lparr>lt_coh := l\<rparr>)"
    using mdscoh_req_spec [of ?t x ce] assms(2) by auto
  have "?t\<lparr>lt_coh := l\<rparr> = t\<lparr>lt_bml := dio_mark {x} t, bcm_diocb := True, lt_coh := l\<rparr>"
    by (simp add: bml_upd_def dio_mark_simps)
  then show ?thesis
    using c assms(1) False by (intro exI [of _ True] exI [of _ l]) (simp add: dio_asked_def Let_def)
qed

lemma directio_loop_spec:
  assumes "\<forall>x \<in> set ids. bml_exp (lt_bml t x) \<longleftrightarrow> \<not> bml_recover (lt_bml t x)"
  shows "\<exists>cb l. directio_loop ce np ids (rc, force, t) =
      Some (if dio_asked np (set ids) t \<noteq> {} then - SLERR_BMAP_DIOWAIT else rc,
            force \<or> (\<exists>x \<in> set ids. lt_cli t x \<noteq> np),
            t\<lparr>lt_bml := dio_mark (dio_asked np (set ids) t) t, bcm_diocb := cb, lt_coh := l\<rparr>)"
  using assms
proof (induction ids arbitrary: rc force t)
  case Nil
  show ?case
    by (intro exI [of _ "bcm_diocb t"] exI [of _ "lt_coh t"]) (simp add: dio_asked_def dio_mark_simps)
next
  case (Cons x xs)
  show ?case
  proof (cases "x \<in> dio_asked np {x} t")
    case False
    have "dio_asked np (set (x # xs)) t = dio_asked np (set xs) t"
      using False by (auto simp: dio_asked_def)
    moreover have "lt_cli t x = np \<or> bml_dio (lt_bml t x)" using False by (simp add: dio_asked_def)
    ultimately show ?thesis
      using Cons.IH [of t rc force] Cons.IH [of t rc True] Cons.prems
      by (cases "lt_cli t x = np") (simp_all add: Let_def)
  next
    case True
    obtain cb l where s: "directio_loop ce np (x # xs) (rc, force, t) = directio_loop ce np xs
        (- SLERR_BMAP_DIOWAIT, True, t\<lparr>lt_bml := dio_mark {x} t, bcm_diocb := cb, lt_coh := l\<rparr>)"
      using directio_asks [OF True] Cons.prems by (metis list.set_intros(1))
    let ?t = "t\<lparr>lt_bml := dio_mark {x} t, bcm_diocb := cb, lt_coh := l\<rparr>"
    have a: "dio_asked np (set xs) ?t = dio_asked np (set xs) t"
      "dio_asked np (set (x # xs)) t = insert x (dio_asked np (set xs) t)"
      using True by (auto simp: dio_asked_def dio_mark_simps)
    have m: "dio_mark X ?t = dio_mark (insert x X) t" for X by (auto simp: dio_mark_def fun_eq_iff)
    have c: "lt_cli t x \<noteq> np" using True by (simp add: dio_asked_def)
    show ?thesis
      using Cons.IH [of ?t "- SLERR_BMAP_DIOWAIT" True] Cons.prems c
      unfolding s a m by (simp add: dio_mark_simps)
  qed
qed

lemma directio_spec:
  assumes "exports_ok t" "\<not> bcm_dio t"
  shows "\<exists>rc u. mds_bmap_directio ce rw want np t = Some (rc, u) \<and>
    (if want \<or> bcm_diocb t \<or> bmi_writers t \<noteq> 0 \<or> rw = SL_WRITE \<and> bmi_readers t \<noteq> 0
     then rc = (if dio_asked np (lease_ids t) t \<noteq> {} then - SLERR_BMAP_DIOWAIT else 0) \<and>
       lt_bml u = dio_mark (dio_asked np (lease_ids t) t) t \<and>
       bcm_dio u = (rc = 0 \<and> (want \<or> bcm_diocb t \<or> (\<exists>x \<in> lease_ids t. lt_cli t x \<noteq> np)))
     else rc = 0 \<and> u = t) \<and>
    lt_leases u = lt_leases t \<and> bmi_writers u = bmi_writers t \<and> bmi_readers u = bmi_readers t"
proof (cases "want \<or> bcm_diocb t \<or> bmi_writers t \<noteq> 0 \<or> rw = SL_WRITE \<and> bmi_readers t \<noteq> 0")
  case True
  have "\<forall>x \<in> set (concat (lt_leases t)). bml_exp (lt_bml t x) \<longleftrightarrow> \<not> bml_recover (lt_bml t x)"
    using assms(1) by (simp add: exports_ok_def)
  from directio_loop_spec [OF this, of ce np 0 False]
  obtain cb l where l: "directio_loop ce np (concat (lt_leases t)) (0, False, t) =
      Some (if dio_asked np (lease_ids t) t \<noteq> {} then - SLERR_BMAP_DIOWAIT else 0,
            \<exists>x \<in> lease_ids t. lt_cli t x \<noteq> np,
            t\<lparr>lt_bml := dio_mark (dio_asked np (lease_ids t) t) t, bcm_diocb := cb, lt_coh := l\<rparr>)"
    by auto
  show ?thesis
    using True assms(2) unfolding mds_bmap_directio_def Let_def l
    by (cases "dio_asked np (lease_ids t) t = {}") auto
next
  case False
  then have "mds_bmap_directio ce rw want np t = Some (0, t)" using assms(2) by (auto simp: mds_bmap_directio_def)
  then show ?thesis using False by (intro exI [of _ 0] exI [of _ t]) auto
qed

lemma directio_dio: "bcm_dio t \<Longrightarrow> mds_bmap_directio ce rw want np t = Some (0, t)"
  by (simp add: mds_bmap_directio_def)

lemma mark_ok:
  assumes "leases_ok t" "lt_leases u = lt_leases t" "bmi_writers u = bmi_writers t"
    "bmi_readers u = bmi_readers t" "lt_bml u = dio_mark X t"
  shows "leases_ok u"
  by (rule leases_ok_cong [OF assms(1-4)]) (simp add: same_on_def assms(5) dio_mark_simps)

lemma single_client:
  assumes ok: "leases_ok t" and all: "\<forall>x \<in> lease_ids t. lt_cli t x = np"
  shows "length (lt_leases t) \<le> 1"
proof (rule ccontr)
  assume "\<not> length (lt_leases t) \<le> 1"
  then obtain c d L where L: "lt_leases t = c # d # L" by (cases "lt_leases t"; cases "tl (lt_leases t)") auto
  have ch: "chains_ok t ([] @ c # d # L) (bmi_writers t) (bmi_readers t)"
    "chains_ok t ([c] @ d # L) (bmi_writers t) (bmi_readers t)" using ok by (simp_all add: leases_ok_def L)
  have "hd c \<in> set c" "hd d \<in> set d" using chain_headD(2) [OF ch(1)] chain_headD(2) [OF ch(2)] .
  then have "lt_cli t (hd c) = lt_cli t (hd d)" using all L by simp
  then show False using ch(1) by (simp add: chains_ok_def)
qed


text \<open>Three clients with a read lease each; one of them does direct I/O already.\<close>

definition ce_ex :: coh_env where
  "ce_ex = \<lparr>cl_csvc = (\<lambda>_. True), cl_newreq = (\<lambda>_. 0), PFLERR_NOTCONN = 2003\<rparr>"

definition lt_ex :: "bool \<Rightarrow> lease_tbl" where
  "lt_ex dio3 = \<lparr>lt_bml = (\<lambda>i. (bml_ex i)\<lparr>bml_cli := (of_nat i, 1), bml_write := False, bml_bmi := True,
        bml_dio := (i = 3 \<and> dio3)\<rparr>),
     lt_leases = [[1], [3]], bmi_writers = 0, bmi_readers = 2, bcm_dio = False, bcm_diocb = False, lt_coh = []\<rparr>"

lemma lt_ex_ok: "leases_ok (lt_ex d)" "exports_ok (lt_ex d)"
  by (simp_all add: lt_ex_def leases_ok_def chains_ok_def member_ok_def has_w_def bml_ex_def exports_ok_def)


subsection \<open>The counters\<close>

abbreviation writing :: "lease_tbl \<Rightarrow> (u64 \<times> u32) set" where
  "writing t \<equiv> lt_cli t ` {x \<in> lease_ids t. bml_write (lt_bml t x)}"

abbreviation holding :: "lease_tbl \<Rightarrow> (u64 \<times> u32) set" where
  "holding t \<equiv> lt_cli t ` lease_ids t"

lemma chain_clients:
  assumes "leases_ok t" "C \<subseteq> set (lt_leases t)"
  shows "card ((\<lambda>c. lt_cli t (hd c)) ` C) = card C" "lt_cli t ` \<Union>(set ` C) = (\<lambda>c. lt_cli t (hd c)) ` C"
proof -
  have ok: "distinct (map (\<lambda>c. lt_cli t (hd c)) (lt_leases t))" "\<forall>c \<in> set (lt_leases t). member_ok t c"
    using assms(1) by (simp_all add: leases_ok_def chains_ok_def)
  have "inj_on (\<lambda>c. lt_cli t (hd c)) C"
    using ok(1) assms(2) by (auto simp: distinct_map intro: inj_on_subset)
  then show "card ((\<lambda>c. lt_cli t (hd c)) ` C) = card C" by (rule card_image)
  have "lt_cli t ` set c = {lt_cli t (hd c)}" if "c \<in> C" for c
  proof -
    have "member_ok t c" using that ok(2) assms(2) by blast
    then show ?thesis unfolding member_ok_def by (metis (no_types, lifting) image_cong image_constant_conv set_empty)
  qed
  then show "lt_cli t ` \<Union>(set ` C) = (\<lambda>c. lt_cli t (hd c)) ` C" by (auto simp: image_Union)
qed



end
