(* ===== verification/Repl_Walk.thy ===== *)
theory Repl_Walk
  imports Inode
begin

text \<open>
  Walking the residency table of a bmap (\<open>_mds_repl_bmap_apply\<close>,
  \<open>_mds_repl_bmap_walk\<close> of \<open>slashd/repl_mds.c\<close>). A walk visits replicas, calls back
  for each, reports a value selected by the state it finds and translates the state. It is the
  only way the metadata server changes residency; the lemmas reduce it to the fold of
  translations of the contract \<open>repl_table\<close>.

  A state \<open>mst\<close> holds one bmap with its file and the events sent to other threads. Busy flags
  and the read/write lock of the bmap are kept as seen from the running thread, because the
  code takes its copy of the old table (\<open>bmi_orepls\<close>) when it acquires the write lock;
  spinlocks are not represented.
\<close>

subsection \<open>Data\<close>

datatype rwst = RW_NONE | RW_RD | RW_WR

record mds_bmap =
  bcm_bmapno :: nat
  bcm_opcnt :: nat
  bcm_busy :: bool
  bcm_replmodwr :: bool
  bcm_crc_up :: bool
  bmi_crcstates :: "u8 list"
  bmi_repls :: "u8 list"
  bes_crcs :: "u64 list"
  bes_gen :: u32
  bes_replpol :: u32
  bmi_rwlock :: rwst
  bmi_orepls :: "u8 list"
  bmi_sys_prio :: int
  bmi_usr_prio :: int

record 'm fcmh =
  fcmh_fid :: u64
  fcmh_isdir :: bool
  fcmh_isreg :: bool
  fcmh_fsz :: nat
  fcmh_nblks :: u64
  fcmh_busy :: bool
  fcmh_inoh :: "'m slm_inoh"

text \<open>
  The journal records of a residency change and of a change of sliver checksums, and the
  effects on other threads and on the update scheduler's table.
\<close>

record srt_bmap_crcwire =
  crcw_crc :: u64
  crcw_slot :: nat

record slmds_jent_bmap_crc =
  sjbc_fid :: u64
  sjbc_bmapno :: nat
  sjbc_iosid :: u32
  sjbc_utimgen :: u32
  sjbc_fsize :: nat
  sjbc_aggr_nblks :: u64
  sjbc_repl_nblks :: u64
  sjbc_extend :: int
  sjbc_crc :: "srt_bmap_crcwire list"

record slmds_jent_bmap_repls =
  sjbr_fid :: u64
  sjbr_bmapno :: nat
  sjbr_bgen :: u32
  sjbr_nrepls :: nat
  sjbr_replpol :: u32
  sjbr_repls :: "u8 list"

datatype upsch_stat = St_NULL | St_Q | St_S

datatype mds_event =
    EvJournalBmapRepls slmds_jent_bmap_repls
  | EvJournalBmapCrc slmds_jent_bmap_crc
  | EvWkBrepl nat
  | EvUpschEnqueue nat
  | EvUpschInsert nat u32 int int
  | EvUpschDelete nat u32
  | EvUpschUpdate nat u32 upsch_stat int int
  | EvUpschNonce nat
  | EvUpschPagein u32

record 'm mst =
  mb :: mds_bmap
  mf :: "'m fcmh"
  mev :: "mds_event list"

abbreviation fcmh_2_nrepls :: "'m fcmh \<Rightarrow> nat" where
  "fcmh_2_nrepls f \<equiv> ino_nrepls (inoh_ino (fcmh_inoh f))"

type_synonym ('m, 'a) walkcb = "nat \<Rightarrow> nat \<Rightarrow> 'm mst \<times> 'a \<Rightarrow> ('m mst \<times> 'a) option"

abbreviation (input) REPL_WALKF_SCIRCUIT :: nat where "REPL_WALKF_SCIRCUIT \<equiv> 1"
abbreviation (input) REPL_WALKF_MODOTH :: nat where "REPL_WALKF_MODOTH \<equiv> 2"

subsection \<open>Visiting one replica\<close>

definition repl_apply_start :: "bool \<Rightarrow> 'm mst \<Rightarrow> (bool \<times> 'm mst) option" where
  "repl_apply_start has_tract s =
     (let b = mb s; f = mf s in
      if has_tract then do {
        psc_assert (bmi_rwlock b = RW_WR \<longrightarrow> fcmh_busy f);
        let f = f\<lparr>fcmh_busy := True\<rparr>;
        if bmi_rwlock b = RW_WR then do {
          psc_assert (bcm_busy b);
          psc_assert (\<not> bcm_replmodwr b);
          Some (False, s\<lparr>mf := f\<rparr>)
        } else do {
          psc_assert (\<not> bcm_replmodwr b);
          Some (False, s\<lparr>mf := f, mb := b\<lparr>bcm_busy := True, bmi_rwlock := RW_WR,
                                         bmi_orepls := bmi_repls b\<rparr>\<rparr>)
        }
      }
      else if bmi_rwlock b = RW_NONE
      then Some (True, s\<lparr>mb := b\<lparr>bmi_rwlock := RW_RD, bcm_busy := False\<rparr>\<rparr>)
      else Some (False, s))"

definition run_cb :: "('m, 'a) walkcb option \<Rightarrow> ('m, 'a) walkcb" where
  "run_cb cbf i v sa = (case cbf of None \<Rightarrow> Some sa | Some cb \<Rightarrow> cb i v sa)"

definition ret_val :: "int list option \<Rightarrow> nat \<Rightarrow> int" where
  "ret_val retifset v = (case retifset of None \<Rightarrow> 0 | Some r \<Rightarrow> r ! v)"

definition mds_repl_bmap_apply ::
    "int list option \<Rightarrow> int list option \<Rightarrow> nat \<Rightarrow> nat \<Rightarrow> bool \<Rightarrow> ('m, 'a) walkcb option \<Rightarrow>
     'm mst \<times> 'a \<Rightarrow> (int \<times> bool \<times> 'm mst \<times> 'a) option" where
  "mds_repl_bmap_apply tract retifset flags off scircuit cbf = (\<lambda>(s, a). do {
     (unlock, s) \<leftarrow> repl_apply_start (tract \<noteq> None) s;
     psc_assert (scircuit \<or> flags AND REPL_WALKF_SCIRCUIT = 0);
     let val = SL_REPL_GET_BMAP_IOS_STAT (bmi_repls (mb s)) off;
     psc_assert (val < NBREPLST);
     (s, a) \<leftarrow> run_cb cbf (off div SL_BITS_PER_REPLICA) val (s, a);
     let rc = ret_val retifset val;
     let sc = (rc \<noteq> 0 \<and> flags AND REPL_WALKF_SCIRCUIT \<noteq> 0);
     let s = (case tract of None \<Rightarrow> s
              | Some t \<Rightarrow> if sc \<or> t ! val = - 1 then s
                  else s\<lparr>mb := (mb s)\<lparr>bmi_repls :=
                           SL_REPL_SET_BMAP_IOS_STAT (bmi_repls (mb s)) off (t ! val)\<rparr>\<rparr>);
     let s = (if unlock then s\<lparr>mb := (mb s)\<lparr>bmi_rwlock := RW_NONE\<rparr>\<rparr> else s);
     Some (rc, sc, s, a)
   })"

subsection \<open>Walking the table\<close>

text \<open>
  \<open>iosidx_in\<close> searches a sorted array with \<open>bsearch\<close> of the C library, written out
  here as the bisection it is.
\<close>

function bsearch_in :: "nat \<Rightarrow> nat list \<Rightarrow> nat \<Rightarrow> nat \<Rightarrow> bool" where
  "bsearch_in key xs l u =
     (if l < u
      then let i = (l + u) div 2; c = CMP key (xs ! i)
           in if c < 0 then bsearch_in key xs l i
              else if c > 0 then bsearch_in key xs (i + 1) u
              else True
      else False)"
  by pat_completeness auto
termination
  by (relation "measure (\<lambda>(key, xs, l, u). u - l)") auto

declare bsearch_in.simps [simp del]

definition iosidx_in :: "nat \<Rightarrow> nat list \<Rightarrow> bool" where
  "iosidx_in idx iosidx = bsearch_in idx iosidx 0 (length iosidx)"

fun repl_walk_loop ::
    "int list option \<Rightarrow> int list option \<Rightarrow> nat \<Rightarrow> ('m, 'a) walkcb option \<Rightarrow> nat list \<Rightarrow> int \<Rightarrow>
     'm mst \<times> 'a \<Rightarrow> (int \<times> 'm mst \<times> 'a) option" where
  "repl_walk_loop tract retifset flags cbf [] rc sa = Some (rc, sa)"
| "repl_walk_loop tract retifset flags cbf (k # ks) rc sa = do {
     (trc, sc, sa) \<leftarrow> mds_repl_bmap_apply tract retifset flags (k * SL_BITS_PER_REPLICA) True cbf sa;
     let rc = (if trc \<noteq> 0 then trc else rc);
     if sc then Some (rc, sa) else repl_walk_loop tract retifset flags cbf ks rc sa
   }"

definition repl_walk_indexes :: "nat \<Rightarrow> nat \<Rightarrow> nat list \<Rightarrow> nat list" where
  "repl_walk_indexes nr flags iosidx =
     (if iosidx = [] then [0..<nr]
      else if flags AND REPL_WALKF_MODOTH \<noteq> 0 then filter (\<lambda>k. \<not> iosidx_in k iosidx) [0..<nr]
      else iosidx)"

definition mds_repl_bmap_walk ::
    "int list option \<Rightarrow> int list option \<Rightarrow> nat \<Rightarrow> nat list \<Rightarrow> ('m, 'a) walkcb option \<Rightarrow>
     'm mst \<times> 'a \<Rightarrow> (int \<times> 'm mst \<times> 'a) option" where
  "mds_repl_bmap_walk tract retifset flags iosidx cbf sa =
     repl_walk_loop tract retifset flags cbf
       (repl_walk_indexes (fcmh_2_nrepls (mf (fst sa))) flags iosidx) 0 sa"

text \<open>\<open>slm_repl_bmap_rel\<close>: undo a write lock that led to no modification, drop the reference.\<close>

definition bmap_op_done :: "'m mst \<Rightarrow> 'm mst option" where
  "bmap_op_done s = do {
     psc_assert (bcm_opcnt (mb s) > 0);
     Some (s\<lparr>mb := (mb s)\<lparr>bcm_opcnt := bcm_opcnt (mb s) - 1\<rparr>\<rparr>)
   }"

definition slm_repl_bmap_rel :: "'m mst \<Rightarrow> 'm mst option" where
  "slm_repl_bmap_rel s = do {
     s \<leftarrow> (if bmi_rwlock (mb s) = RW_WR \<and> \<not> bcm_replmodwr (mb s)
          then do {
            psc_assert (bcm_busy (mb s));
            psc_assert (fcmh_busy (mf s));
            Some (s\<lparr>mb := (mb s)\<lparr>bmi_rwlock := RW_NONE, bcm_busy := False\<rparr>,
                    mf := (mf s)\<lparr>fcmh_busy := False\<rparr>\<rparr>)
          }
          else Some s);
     bmap_op_done s
   }"

definition mds_brepls_check :: "u8 list \<Rightarrow> nat \<Rightarrow> unit option" where
  "mds_brepls_check repls nr = do {
     psc_assert (0 < nr \<and> nr \<le> SL_MAX_REPLICAS);
     if list_ex (\<lambda>i. SL_REPL_GET_BMAP_IOS_STAT repls (i * SL_BITS_PER_REPLICA) \<in>
          {BREPLST_VALID, BREPLST_GARBAGE, BREPLST_GARBAGE_SCHED, BREPLST_TRUNCPNDG,
           BREPLST_TRUNCPNDG_SCHED}) [0..<nr]
     then Some () else None
   }"

subsection \<open>Binary search\<close>

lemma bsearch_in_iff:
  assumes "sorted xs" "u \<le> length xs"
  shows "bsearch_in key xs l u \<longleftrightarrow> (\<exists>i. l \<le> i \<and> i < u \<and> xs ! i = key)"
  using assms
proof (induction key xs l u rule: bsearch_in.induct)
  case (1 key xs l u)
  define i where "i = (l + u) div 2"
  show ?case
  proof (cases "l < u")
    case True
    then have i: "l \<le> i" "i < u" by (auto simp: i_def)
    have lo: "xs ! j \<le> xs ! i" if "j \<le> i" for j
      using that i "1.prems" by (simp add: sorted_nth_mono)
    have hi: "xs ! i \<le> xs ! j" if "i \<le> j" "j < u" for j
      using that "1.prems" by (simp add: sorted_nth_mono)
    consider "key < xs ! i" | "key = xs ! i" | "key > xs ! i" by linarith
    then show ?thesis
    proof cases
      case 1
      with "1.IH"(1) [OF True i_def refl] "1.prems" i have
        "bsearch_in key xs l i \<longleftrightarrow> (\<exists>j. l \<le> j \<and> j < i \<and> xs ! j = key)"
        by (simp add: CMP_def)
      moreover have "j < i" if "j < u" "xs ! j = key" for j
        using that hi [of j] 1 by (meson leD not_le)
      ultimately show ?thesis
        using True 1 i by (subst bsearch_in.simps) (auto simp: Let_def CMP_def simp flip: i_def)
    next
      case 2
      then show ?thesis
        using True i by (subst bsearch_in.simps) (auto simp: Let_def CMP_def simp flip: i_def)
    next
      case 3
      with "1.IH"(2) [OF True i_def refl] "1.prems" i have
        "bsearch_in key xs (i + 1) u \<longleftrightarrow> (\<exists>j. i + 1 \<le> j \<and> j < u \<and> xs ! j = key)"
        by (simp add: CMP_def)
      moreover have "i + 1 \<le> j \<and> j < u \<and> xs ! j = key \<longleftrightarrow> l \<le> j \<and> j < u \<and> xs ! j = key" for j
        using lo [of j] 3 i by (cases "j \<le> i") auto
      ultimately show ?thesis
        using True 3 by (subst bsearch_in.simps) (simp add: Let_def CMP_def flip: i_def)
    qed
  qed (simp add: bsearch_in.simps)
qed

lemma iosidx_in_iff: "sorted xs \<Longrightarrow> iosidx_in k xs \<longleftrightarrow> k \<in> set xs"
  by (auto simp: iosidx_in_def bsearch_in_iff in_set_conv_nth)

subsection \<open>Walks are folds of translations\<close>

text \<open>
  The bmap once the write lock is held, and the lock discipline every walk relies on: a thread
  with the write lock also holds both busy flags, and no modification is waiting to be
  processed by the worker thread.
\<close>

definition wrlocked :: "mds_bmap \<Rightarrow> mds_bmap" where
  "wrlocked b = (if bmi_rwlock b = RW_WR then b
     else b\<lparr>bcm_busy := True, bmi_rwlock := RW_WR, bmi_orepls := bmi_repls b\<rparr>)"

definition walk_ready :: "'m mst \<Rightarrow> bool" where
  "walk_ready s \<longleftrightarrow> \<not> bcm_replmodwr (mb s) \<and>
     (bmi_rwlock (mb s) = RW_WR \<longrightarrow> bcm_busy (mb s) \<and> fcmh_busy (mf s))"

text \<open>A callback that only reads the bmap.\<close>

definition cb_frame :: "('m, 'a) walkcb option \<Rightarrow> bool" where
  "cb_frame cbf \<longleftrightarrow> (\<forall>cb i v s a s' a'. cbf = Some cb \<longrightarrow> cb i v (s, a) = Some (s', a') \<longrightarrow>
     mb s' = mb s \<and> fcmh_busy (mf s') = fcmh_busy (mf s) \<and> mev s' = mev s)"

lemma cb_frame_None [simp]: "cb_frame None"
  by (simp add: cb_frame_def)

lemma wrlocked_idem [simp]: "wrlocked (wrlocked b) = wrlocked b"
  by (simp add: wrlocked_def)

lemma wrlocked_repls [simp]: "bmi_repls (wrlocked b) = bmi_repls b"
  by (simp add: wrlocked_def)

lemma wrlocked_rwlock [simp]: "bmi_rwlock (wrlocked b) = RW_WR"
  by (simp add: wrlocked_def)

lemma wrlocked_update [simp]:
  "wrlocked (wrlocked b\<lparr>bmi_repls := r\<rparr>) = wrlocked b\<lparr>bmi_repls := r\<rparr>"
  by (simp add: wrlocked_def)

lemma apply_start_tract:
  "repl_apply_start True s = (if walk_ready s
     then Some (False, s\<lparr>mb := wrlocked (mb s), mf := (mf s)\<lparr>fcmh_busy := True\<rparr>\<rparr>) else None)"
  by (auto simp: repl_apply_start_def walk_ready_def wrlocked_def Let_def)

lemma run_cb_frame:
  "run_cb cbf i v (s, a) = Some (s', a') \<Longrightarrow> cb_frame cbf \<Longrightarrow>
   mb s' = mb s \<and> fcmh_busy (mf s') = fcmh_busy (mf s) \<and> mev s' = mev s"
  by (cases cbf) (simp_all add: run_cb_def cb_frame_def, metis)

lemma apply_tract_unfold:
  assumes "fl AND REPL_WALKF_SCIRCUIT = 0"
  shows "mds_repl_bmap_apply (Some tr) ret fl (k * SL_BITS_PER_REPLICA) True cbf (s, a) =
    (let v = repl_st (bmi_repls (mb s)) k in
     if walk_ready s then do {
       (s2, a2) \<leftarrow> run_cb cbf k v (s\<lparr>mb := wrlocked (mb s), mf := (mf s)\<lparr>fcmh_busy := True\<rparr>\<rparr>, a);
       Some (ret_val ret v, False,
         if tr ! v = - 1 then s2
         else s2\<lparr>mb := (mb s2)\<lparr>bmi_repls := SL_REPL_SET_BMAP_IOS_STAT (bmi_repls (mb s2))
                                 (k * SL_BITS_PER_REPLICA) (tr ! v)\<rparr>\<rparr>, a2)
     } else None)"
  using assms
  by (simp add: mds_repl_bmap_apply_def apply_start_tract Let_def brt.tget_less
      flip: repl_st_def cong: if_cong)

lemma apply_tract:
  assumes "mds_repl_bmap_apply (Some tr) ret fl (k * SL_BITS_PER_REPLICA) True cbf (s, a) =
      Some (trc, sc, s', a')"
    and "cb_frame cbf" "fl AND REPL_WALKF_SCIRCUIT = 0"
  shows "mb s' = wrlocked (mb s)\<lparr>bmi_repls := brt.trans1 tr k (bmi_repls (mb s))\<rparr> \<and>
    trc = ret_val ret (repl_st (bmi_repls (mb s)) k) \<and> \<not> sc \<and>
    fcmh_busy (mf s') \<and> walk_ready s \<and> mev s' = mev s"
proof -
  let ?v = "repl_st (bmi_repls (mb s)) k"
  let ?s1 = "s\<lparr>mb := wrlocked (mb s), mf := (mf s)\<lparr>fcmh_busy := True\<rparr>\<rparr>"
  note u = assms(1) [unfolded apply_tract_unfold [OF assms(3)] Let_def]
  have r: "walk_ready s" using u by (simp split: if_splits)
  with u obtain s2 a2 where cb: "run_cb cbf k ?v (?s1, a) = Some (s2, a2)"
    and res: "trc = ret_val ret ?v" "\<not> sc"
      "s' = (if tr ! ?v = - 1 then s2
         else s2\<lparr>mb := (mb s2)\<lparr>bmi_repls := SL_REPL_SET_BMAP_IOS_STAT (bmi_repls (mb s2))
                                 (k * SL_BITS_PER_REPLICA) (tr ! ?v)\<rparr>\<rparr>)"
    by (cases "run_cb cbf k ?v (?s1, a)") auto
  from run_cb_frame [OF cb assms(2)]
  have "mb s2 = wrlocked (mb s)" "fcmh_busy (mf s2)" "mev s2 = mev s" by simp_all
  with r res show ?thesis by (simp add: brt.trans1_def)
qed

text \<open>The value a walk without short circuit returns: the last nonzero one.\<close>

definition ret_last :: "int list option \<Rightarrow> u8 list \<Rightarrow> nat list \<Rightarrow> int \<Rightarrow> int" where
  "ret_last ret repls ks rc =
     fold (\<lambda>k rc. let r = ret_val ret (repl_st repls k) in if r \<noteq> 0 then r else rc) ks rc"

lemma ret_last_simps [simp]:
  "ret_last ret repls [] rc = rc"
  "ret_last ret repls (k # ks) rc = ret_last ret repls ks
     (if ret_val ret (repl_st repls k) \<noteq> 0 then ret_val ret (repl_st repls k) else rc)"
  by (simp_all add: ret_last_def Let_def)

lemma ret_last_cong:
  "(\<And>k. k \<in> set ks \<Longrightarrow> repl_st r k = repl_st r' k) \<Longrightarrow> ret_last ret r ks rc = ret_last ret r' ks rc"
  by (induction ks arbitrary: rc) simp_all

lemma ret_last_zero_iff:
  "ret_last ret r ks rc = 0 \<longleftrightarrow> rc = 0 \<and> (\<forall>k \<in> set ks. ret_val ret (repl_st r k) = 0)"
  by (induction ks arbitrary: rc) auto

definition walk_ks_ok :: "nat list \<Rightarrow> bool" where
  "walk_ks_ok ks \<longleftrightarrow> distinct ks \<and> (\<forall>k \<in> set ks. k < SL_MAX_REPLICAS)"

lemma walk_loop_tract:
  assumes "repl_walk_loop (Some tr) ret fl cbf ks rc0 (s, a) = Some (rc, s', a')"
    and "cb_frame cbf" "fl AND REPL_WALKF_SCIRCUIT = 0" "tract_ok tr"
    and "walk_ks_ok ks" "brepls_ok (bmi_repls (mb s))" "ks \<noteq> []"
  shows "mb s' = wrlocked (mb s)\<lparr>bmi_repls := fold (brt.trans1 tr) ks (bmi_repls (mb s))\<rparr> \<and>
    rc = ret_last ret (bmi_repls (mb s)) ks rc0 \<and> fcmh_busy (mf s') \<and> mev s' = mev s"
  using assms
proof (induction ks arbitrary: s a rc0)
  case (Cons k ks)
  from Cons.prems(1) obtain trc sc s1 a1 where
    ap: "mds_repl_bmap_apply (Some tr) ret fl (k * SL_BITS_PER_REPLICA) True cbf (s, a) =
        Some (trc, sc, s1, a1)"
    by (auto simp: bind_eq_Some_conv)
  note ap' = apply_tract [OF ap Cons.prems(2,3)]
  have ok1: "brepls_ok (bmi_repls (mb s1))" using ap' Cons.prems(6) by (simp add: brt.tok_trans1)
  have same: "ret_last ret (bmi_repls (mb s1)) ks r = ret_last ret (bmi_repls (mb s)) ks r" for r
    using ap' Cons.prems(4-6) by (intro ret_last_cong) (auto simp: brt.tget_trans1 walk_ks_ok_def)
  have rest: "repl_walk_loop (Some tr) ret fl cbf ks (if trc \<noteq> 0 then trc else rc0) (s1, a1) =
      Some (rc, s', a')"
    using Cons.prems(1) ap ap' by (simp add: Let_def split: if_splits)
  show ?case
  proof (cases "ks = []")
    case True
    then show ?thesis using rest ap' by auto
  next
    case False
    have "walk_ks_ok ks" using Cons.prems(5) by (simp add: walk_ks_ok_def)
    from Cons.IH [OF rest Cons.prems(2-4) this ok1 False] show ?thesis
      using ap' same by simp
  qed
qed simp

lemma walk_ready_wrlocked:
  "mb s' = wrlocked b\<lparr>bmi_repls := r\<rparr> \<Longrightarrow> mb s = b \<Longrightarrow> walk_ready s \<Longrightarrow> fcmh_busy (mf s') \<Longrightarrow>
   walk_ready s'"
  by (auto simp: walk_ready_def wrlocked_def)

text \<open>A walk aborts only when a callback does.\<close>

definition cb_runs :: "('m, 'a) walkcb option \<Rightarrow> ('m fcmh \<Rightarrow> bool) \<Rightarrow> nat list \<Rightarrow> bool" where
  "cb_runs cbf I ks \<longleftrightarrow> (\<forall>f. I f \<longrightarrow> I (f\<lparr>fcmh_busy := True\<rparr>)) \<and>
     (\<forall>i \<in> set ks. \<forall>v s a. I (mf s) \<longrightarrow>
        (\<exists>s' a'. run_cb cbf i v (s, a) = Some (s', a') \<and> I (mf s')))"

lemma cb_runs_None [simp]: "cb_runs None (\<lambda>_. True) ks"
  by (simp add: cb_runs_def run_cb_def)

lemma walk_loop_tract_defined:
  assumes "walk_ready s" "cb_frame cbf" "cb_runs cbf I ks" "fl AND REPL_WALKF_SCIRCUIT = 0"
    and "I (mf s)"
  shows "\<exists>rc s' a'. repl_walk_loop (Some tr) ret fl cbf ks rc0 (s, a) = Some (rc, s', a') \<and>
    walk_ready s' \<and> I (mf s')"
  using assms(1,3,5)
proof (induction ks arbitrary: s a rc0)
  case (Cons k ks)
  let ?s1 = "s\<lparr>mb := wrlocked (mb s), mf := (mf s)\<lparr>fcmh_busy := True\<rparr>\<rparr>"
  have "I (mf ?s1)" using Cons.prems by (simp add: cb_runs_def)
  then obtain s3 a3 where cb: "run_cb cbf k (repl_st (bmi_repls (mb s)) k) (?s1, a) = Some (s3, a3)"
    "I (mf s3)"
    using Cons.prems(2) unfolding cb_runs_def by (meson list.set_intros(1))
  let ?s2 = "if tr ! repl_st (bmi_repls (mb s)) k = - 1 then s3
     else s3\<lparr>mb := (mb s3)\<lparr>bmi_repls := SL_REPL_SET_BMAP_IOS_STAT (bmi_repls (mb s3))
                      (k * SL_BITS_PER_REPLICA) (tr ! repl_st (bmi_repls (mb s)) k)\<rparr>\<rparr>"
  have ap: "mds_repl_bmap_apply (Some tr) ret fl (k * SL_BITS_PER_REPLICA) True cbf (s, a) =
        Some (ret_val ret (repl_st (bmi_repls (mb s)) k), False, ?s2, a3)"
    unfolding apply_tract_unfold [OF assms(4)] using Cons.prems(1) cb by (simp add: Let_def)
  note ap' = apply_tract [OF ap assms(2,4)]
  then have "walk_ready ?s2"
    using Cons.prems walk_ready_wrlocked [where s' = ?s2 and s = s] by blast
  moreover have "cb_runs cbf I ks" using Cons.prems(2) by (simp add: cb_runs_def)
  moreover have "I (mf ?s2)" using cb(2) by simp
  ultimately show ?case using ap Cons.IH [of ?s2] by (simp add: Let_def)
qed simp

lemma cb_runs_None_inv: "(\<And>f. I f \<Longrightarrow> I (f\<lparr>fcmh_busy := True\<rparr>)) \<Longrightarrow> cb_runs None I ks"
  by (simp add: cb_runs_def run_cb_def)

lemma walk_loop_tract_full:
  assumes "walk_ready s" "brepls_ok (bmi_repls (mb s))" "tract_ok tr"
    and "fl AND REPL_WALKF_SCIRCUIT = 0" "walk_ks_ok ks" "ks \<noteq> [] \<or> bmi_rwlock (mb s) = RW_WR"
    and "cb_frame cbf" "cb_runs cbf I ks" "I (mf s)"
  obtains rc s' a' where
    "repl_walk_loop (Some tr) ret fl cbf ks 0 (s, a) = Some (rc, s', a')"
    "mb s' = wrlocked (mb s)\<lparr>bmi_repls := fold (brt.trans1 tr) ks (bmi_repls (mb s))\<rparr>"
    "rc = ret_last ret (bmi_repls (mb s)) ks 0"
    "walk_ready s'" "I (mf s')" "mev s' = mev s" "brepls_ok (bmi_repls (mb s'))"
proof -
  obtain rc s' a' where w: "repl_walk_loop (Some tr) ret fl cbf ks 0 (s, a) = Some (rc, s', a')"
    and r: "walk_ready s'" "I (mf s')"
    using walk_loop_tract_defined [OF assms(1,7,8,4,9)] by blast
  have "mb s' = wrlocked (mb s)\<lparr>bmi_repls := fold (brt.trans1 tr) ks (bmi_repls (mb s))\<rparr> \<and>
    rc = ret_last ret (bmi_repls (mb s)) ks 0 \<and> mev s' = mev s"
  proof (cases "ks = []")
    case True
    then show ?thesis using w assms(6) by (simp add: wrlocked_def)
  next
    case False
    then show ?thesis using walk_loop_tract [OF w assms(7,4,3,5,2)] by simp
  qed
  then show ?thesis using that w r assms(2) by (simp add: brt.tok_fold_trans1)
qed

lemma walk_indexes_set:
  assumes "sorted iosidx"
  shows "set (repl_walk_indexes nr fl iosidx) =
    (if iosidx = [] then {..<nr}
     else if fl AND REPL_WALKF_MODOTH \<noteq> 0 then {..<nr} - set iosidx else set iosidx)"
  using assms by (auto simp: repl_walk_indexes_def iosidx_in_iff)

lemma walk_indexes_ok:
  "nr \<le> SL_MAX_REPLICAS \<Longrightarrow> walk_ks_ok iosidx \<Longrightarrow> walk_ks_ok (repl_walk_indexes nr fl iosidx)"
  by (auto simp: repl_walk_indexes_def walk_ks_ok_def)

text \<open>A walk that only reads, with the lock state it leaves.\<close>

definition rd_released :: "mds_bmap \<Rightarrow> mds_bmap" where
  "rd_released b = (if bmi_rwlock b = RW_NONE then b\<lparr>bcm_busy := False\<rparr> else b)"

lemma rd_released_repls [simp]: "bmi_repls (rd_released b) = bmi_repls b"
  by (simp add: rd_released_def)

lemma rd_released_idem [simp]: "rd_released (rd_released b) = rd_released b"
  by (simp add: rd_released_def)

lemma apply_query:
  "mds_repl_bmap_apply None ret fl (k * SL_BITS_PER_REPLICA) True None (s, a) =
     Some (ret_val ret (repl_st (bmi_repls (mb s)) k),
       ret_val ret (repl_st (bmi_repls (mb s)) k) \<noteq> 0 \<and> fl AND REPL_WALKF_SCIRCUIT \<noteq> 0,
       s\<lparr>mb := rd_released (mb s)\<rparr>, a)"
  by (simp add: mds_repl_bmap_apply_def repl_apply_start_def run_cb_def Let_def brt.tget_less
      rd_released_def flip: repl_st_def)

lemma walk_loop_query_scircuit:
  "\<exists>s'. repl_walk_loop None ret REPL_WALKF_SCIRCUIT None ks 0 (s, a) =
     Some (case find (\<lambda>k. ret_val ret (repl_st (bmi_repls (mb s)) k) \<noteq> 0) ks of
             None \<Rightarrow> 0 | Some k \<Rightarrow> ret_val ret (repl_st (bmi_repls (mb s)) k), s', a) \<and>
     s' = (if ks = [] then s else s\<lparr>mb := rd_released (mb s)\<rparr>)"
proof (induction ks arbitrary: s)
  case (Cons k ks)
  show ?case using Cons.IH [of "s\<lparr>mb := rd_released (mb s)\<rparr>"] by (auto simp: apply_query Let_def cong: option.case_cong)
qed simp

lemma walk_loop_query:
  "fl AND REPL_WALKF_SCIRCUIT = 0 \<Longrightarrow>
   repl_walk_loop None ret fl None ks rc (s, a) =
     Some (ret_last ret (bmi_repls (mb s)) ks rc,
           if ks = [] then s else s\<lparr>mb := rd_released (mb s)\<rparr>, a)"
  by (induction ks arbitrary: s rc) (auto simp: apply_query Let_def)

subsection \<open>Properties\<close>

text \<open>
  C5: a walk with a translation array and no callback does not abort under the lock discipline.
  It replaces the state of exactly the replicas it was asked for (all, all but the listed, or the
  listed ones) by the entry of the array for the state they had, leaves every other replica of
  the packed table unchanged, returns the last nonzero report value, and leaves the thread with
  the write lock, both busy flags and a copy of the table as it was when the lock was taken.
\<close>

theorem mds_repl_bmap_walk_translates:
  assumes "walk_ready s" "brepls_ok (bmi_repls (mb s))" "fcmh_2_nrepls (mf s) \<le> SL_MAX_REPLICAS"
    and "tract_ok tr" "fl AND REPL_WALKF_SCIRCUIT = 0"
    and "sorted iosidx" "walk_ks_ok iosidx"
    and "V = (if iosidx = [] then {..<fcmh_2_nrepls (mf s)}
       else if fl AND REPL_WALKF_MODOTH \<noteq> 0 then {..<fcmh_2_nrepls (mf s)} - set iosidx
       else set iosidx)" "V \<noteq> {}"
  shows "\<exists>rc s' a'. mds_repl_bmap_walk (Some tr) ret fl iosidx None (s, a) = Some (rc, s', a') \<and>
    (\<forall>k < SL_MAX_REPLICAS. repl_st (bmi_repls (mb s')) k =
       (if k \<in> V then tract_step tr (repl_st (bmi_repls (mb s)) k) else repl_st (bmi_repls (mb s)) k)) \<and>
    (rc = 0 \<longleftrightarrow> (\<forall>k \<in> V. ret_val ret (repl_st (bmi_repls (mb s)) k) = 0)) \<and>
    brepls_ok (bmi_repls (mb s')) \<and> walk_ready s' \<and> bmi_rwlock (mb s') = RW_WR \<and>
    (bmi_rwlock (mb s) \<noteq> RW_WR \<longrightarrow> bmi_orepls (mb s') = bmi_repls (mb s))"
proof -
  let ?ks = "repl_walk_indexes (fcmh_2_nrepls (mf s)) fl iosidx"
  have V: "set ?ks = V" using walk_indexes_set [OF assms(6)] assms(8) by simp
  then have ne: "?ks \<noteq> []" using assms(9) by auto
  have ok: "walk_ks_ok ?ks" using walk_indexes_ok assms(3,7) by blast
  obtain rc s' a' where w: "repl_walk_loop (Some tr) ret fl None ?ks 0 (s, a) = Some (rc, s', a')"
    and wr: "walk_ready s'"
    using walk_loop_tract_defined [OF assms(1) cb_frame_None cb_runs_None assms(5) TrueI,
        of tr ret ?ks 0 a] by blast
  note res = walk_loop_tract [OF w _ assms(5,4) ok assms(2) ne]
  have "\<forall>k < SL_MAX_REPLICAS. repl_st (bmi_repls (mb s')) k =
       (if k \<in> V then tract_step tr (repl_st (bmi_repls (mb s)) k) else repl_st (bmi_repls (mb s)) k)"
    using res brt.tget_fold_trans1 [OF assms(2,4)] ok V by (simp add: walk_ks_ok_def)
  moreover have "rc = 0 \<longleftrightarrow> (\<forall>k \<in> V. ret_val ret (repl_st (bmi_repls (mb s)) k) = 0)"
    using res V by (simp add: ret_last_zero_iff)
  moreover have "brepls_ok (bmi_repls (mb s'))" using res assms(2) by (simp add: brt.tok_fold_trans1)
  ultimately show ?thesis
    using w wr res by (simp add: mds_repl_bmap_walk_def) (simp add: wrlocked_def)
qed

definition bmap_ex :: "u8 list \<Rightarrow> mds_bmap" where
  "bmap_ex r = \<lparr>bcm_bmapno = 0, bcm_opcnt = 1, bcm_busy = False, bcm_replmodwr = False,
     bcm_crc_up = False, bmi_crcstates = replicate 128 0, bmi_repls = r,
     bes_crcs = replicate 128 0, bes_gen = 0, bes_replpol = 0, bmi_rwlock = RW_NONE,
     bmi_orepls = replicate 24 0, bmi_sys_prio = - 1, bmi_usr_prio = - 1\<rparr>"

definition mst_ex :: "u32 list \<Rightarrow> u8 list \<Rightarrow> slm_inox_od mst" where
  "mst_ex rs r = \<lparr>mb = bmap_ex r,
     mf = \<lparr>fcmh_fid = 7, fcmh_isdir = False, fcmh_isreg = True, fcmh_fsz = 100, fcmh_nblks = 0,
           fcmh_busy = False,
           fcmh_inoh = ih_ex rs\<rparr>, mev = []\<rparr>"

lemmas walk_ex_defs = mst_ex_def bmap_ex_def ih_ex_def walk_ready_def brepls_ok_def
  SL_REPLICA_NBYTES_def

theorem mds_repl_bmap_walk_translates_witness:
  "\<exists>rc s' a'. mds_repl_bmap_walk (Some ((brepls_init (- 1))[BREPLST_INVALID := 3])) None 0 [1] None
       (mst_ex [11, 12] (replicate 24 0), ()) = Some (rc, s', a') \<and>
     repl_st (bmi_repls (mb s')) 1 = BREPLST_VALID \<and> repl_st (bmi_repls (mb s')) 0 = BREPLST_INVALID"
proof -
  have z: "repl_st (replicate 24 0) k = 0" if "k < 2" for k
    using that by (auto simp: less_Suc_eq numeral_2_eq_2 repl_st_def SL_REPL_GET_BMAP_IOS_STAT_def)
  let ?s = "mst_ex [11, 12] (replicate 24 0)" and ?tr = "(brepls_init (- 1))[BREPLST_INVALID := 3]"
  have s: "walk_ready ?s" "brepls_ok (bmi_repls (mb ?s))" "fcmh_2_nrepls (mf ?s) \<le> SL_MAX_REPLICAS"
    "bmi_repls (mb ?s) = replicate 24 0"
    by (simp_all add: walk_ex_defs)
  have "\<exists>rc s' a'. mds_repl_bmap_walk (Some ?tr) None 0 [1] None (?s, ()) = Some (rc, s', a') \<and>
     (\<forall>k < SL_MAX_REPLICAS. repl_st (bmi_repls (mb s')) k =
       (if k \<in> {1} then tract_step ?tr (repl_st (bmi_repls (mb ?s)) k) else repl_st (bmi_repls (mb ?s)) k))"
    using mds_repl_bmap_walk_translates [OF s(1,2,3), of ?tr 0 "[1]" "{1}" None "()"]
    by (auto simp: walk_ks_ok_def)
  then show ?thesis using z [of 0] z [of 1] s(4)
    by (auto simp: tract_step_def brepls_init_def)
qed

end
