(* ===== verification/Fid.thy ===== *)
theory Fid
  imports Config
begin

text \<open>
  File identifiers (\<open>include/fid.h\<close>): the four bit fields of a 64-bit FID, the allocation
  of new FIDs by the metadata server (\<open>slashd/rmc.c\<close>), the choice of the local file system
  by site (\<open>slashd/fidc_mds.c\<close>) and the backing file name an I/O server derives from a FID
  and its generation (\<open>sliod/fidc_iod.c\<close>). The mask macro \<open>MAXVALMASK\<close> belongs to
  the PFL library and is a parameter; the properties assume that it is the mask of the low bits.
\<close>

subsection \<open>Bit fields\<close>

abbreviation (input) SLASH_FID_FLAG_BITS :: nat where "SLASH_FID_FLAG_BITS \<equiv> 4"
abbreviation (input) SLASH_FID_MDSID_BITS :: nat where "SLASH_FID_MDSID_BITS \<equiv> 10"
abbreviation (input) SLASH_FID_CYCLE_BITS :: nat where "SLASH_FID_CYCLE_BITS \<equiv> 8"
abbreviation (input) SLASH_FID_INUM_BITS :: nat where "SLASH_FID_INUM_BITS \<equiv> 42"
abbreviation (input) SLASH_FID_INUM_SHFT :: nat where "SLASH_FID_INUM_SHFT \<equiv> 0"
abbreviation (input) SLASH_FID_CYCLE_SHFT :: nat where "SLASH_FID_CYCLE_SHFT \<equiv> 42"
abbreviation (input) SLASH_FID_MDSID_SHFT :: nat where "SLASH_FID_MDSID_SHFT \<equiv> 50"
abbreviation (input) SLASH_FID_FLAG_SHFT :: nat where "SLASH_FID_FLAG_SHFT \<equiv> 60"

abbreviation (input) FID_ANY :: u64 where "FID_ANY \<equiv> 0xffffffffffffffff"
abbreviation (input) FGEN_ANY :: u64 where "FGEN_ANY \<equiv> 0xffffffffffffffff"
abbreviation (input) SLFID_ROOT :: u64 where "SLFID_ROOT \<equiv> 1"
abbreviation (input) SLFID_MIN :: u64 where "SLFID_MIN \<equiv> 3"

record sl_fidgen =
  fg_fid :: u64
  fg_gen :: u64

definition FID_SET_FIELD :: "(nat \<Rightarrow> u64) \<Rightarrow> u64 \<Rightarrow> u64 \<Rightarrow> nat \<Rightarrow> nat \<Rightarrow> u64" where
  "FID_SET_FIELD MAXVALMASK fid val shft nb =
     (fid AND NOT (push_bit shft (MAXVALMASK nb))) OR push_bit shft (val AND MAXVALMASK nb)"

definition FID_GET_FIELD :: "(nat \<Rightarrow> u64) \<Rightarrow> u64 \<Rightarrow> nat \<Rightarrow> nat \<Rightarrow> u64" where
  "FID_GET_FIELD MAXVALMASK fid shft nb = drop_bit shft fid AND MAXVALMASK nb"

definition FID_GET_FLAGS :: "(nat \<Rightarrow> u64) \<Rightarrow> u64 \<Rightarrow> u64" where
  "FID_GET_FLAGS mv fid = FID_GET_FIELD mv fid SLASH_FID_FLAG_SHFT SLASH_FID_FLAG_BITS"
definition FID_GET_SITEID :: "(nat \<Rightarrow> u64) \<Rightarrow> u64 \<Rightarrow> u64" where
  "FID_GET_SITEID mv fid = FID_GET_FIELD mv fid SLASH_FID_MDSID_SHFT SLASH_FID_MDSID_BITS"
definition FID_GET_CYCLE :: "(nat \<Rightarrow> u64) \<Rightarrow> u64 \<Rightarrow> u64" where
  "FID_GET_CYCLE mv fid = FID_GET_FIELD mv fid SLASH_FID_CYCLE_SHFT SLASH_FID_CYCLE_BITS"
definition FID_GET_INUM :: "(nat \<Rightarrow> u64) \<Rightarrow> u64 \<Rightarrow> u64" where
  "FID_GET_INUM mv fid = FID_GET_FIELD mv fid SLASH_FID_INUM_SHFT SLASH_FID_INUM_BITS"

definition FID_SET_FLAGS :: "(nat \<Rightarrow> u64) \<Rightarrow> u64 \<Rightarrow> u64 \<Rightarrow> u64" where
  "FID_SET_FLAGS mv fid fl = FID_SET_FIELD mv fid fl SLASH_FID_FLAG_SHFT SLASH_FID_FLAG_BITS"
definition FID_SET_SITEID :: "(nat \<Rightarrow> u64) \<Rightarrow> u64 \<Rightarrow> u64 \<Rightarrow> u64" where
  "FID_SET_SITEID mv fid i = FID_SET_FIELD mv fid i SLASH_FID_MDSID_SHFT SLASH_FID_MDSID_BITS"
definition FID_SET_CYCLE :: "(nat \<Rightarrow> u64) \<Rightarrow> u64 \<Rightarrow> u64 \<Rightarrow> u64" where
  "FID_SET_CYCLE mv fid cy = FID_SET_FIELD mv fid cy SLASH_FID_CYCLE_SHFT SLASH_FID_CYCLE_BITS"

definition FID_MAX_INUM :: "(nat \<Rightarrow> u64) \<Rightarrow> u64" where
  "FID_MAX_INUM mv = mv SLASH_FID_INUM_BITS"

definition FID_IS_RESERVED :: "u64 \<Rightarrow> bool" where
  "FID_IS_RESERVED fid \<longleftrightarrow> fid < SLFID_MIN"

definition SAMEFG :: "sl_fidgen \<Rightarrow> sl_fidgen \<Rightarrow> bool" where
  "SAMEFG a b \<longleftrightarrow> fg_fid a = fg_fid b \<and> fg_gen a = fg_gen b"

subsection \<open>Allocation (\<open>slm_get_next_slashfid\<close>)\<close>

text \<open>The state is \<open>slm_next_fid\<close>; the result is the error code and the FID handed out.\<close>

definition slm_set_curr_slashfid :: "u64 \<Rightarrow> u64 \<Rightarrow> u64" where
  "slm_set_curr_slashfid next slfid = slfid"

definition slm_get_next_slashfid :: "(nat \<Rightarrow> u64) \<Rightarrow> u64 \<Rightarrow> (int + u64) \<times> u64" where
  "slm_get_next_slashfid mv next =
     (if FID_GET_INUM mv next \<ge> FID_MAX_INUM mv then (Inl 28, next)
      else (Inr next, next + 1))"

subsection \<open>Local file system of a FID (\<open>slfid_to_vfsid\<close>)\<close>

definition slfid_to_vfsid :: "(nat \<Rightarrow> u64) \<Rightarrow> u64 list \<Rightarrow> nat \<Rightarrow> u64 \<Rightarrow> int + nat" where
  "slfid_to_vfsid mv zm_siteids current_vfsid fid =
     (if fid = SLFID_ROOT then Inr current_vfsid
      else if length zm_siteids = 1 then Inr current_vfsid
      else case find (\<lambda>i. zm_siteids ! i = FID_GET_SITEID mv fid) [0..<length zm_siteids] of
             Some i \<Rightarrow> Inr i
           | None \<Rightarrow> Inl (- 22))"

subsection \<open>Backing file names (\<open>sli_fg_makepath\<close>)\<close>

definition hexdig :: "nat \<Rightarrow> char" where
  "hexdig n = (if n < 10 then char_of (48 + n) else char_of (87 + n))"

definition nibbles :: "u64 \<Rightarrow> nat list" where
  "nibbles w = map (\<lambda>i. (unat w div 16 ^ i) mod 16) (rev [0..<16])"

text \<open>The conversions \<open>%016x\<close> and \<open>%x\<close> of a 64-bit value.\<close>

definition fmt_016x :: "u64 \<Rightarrow> string" where
  "fmt_016x w = map hexdig (nibbles w)"

definition fmt_x :: "u64 \<Rightarrow> string" where
  "fmt_x w = (if w = 0 then [hexdig 0] else map hexdig (dropWhile (\<lambda>n. n = 0) (nibbles w)))"

abbreviation (input) FID_PATH_DEPTH :: nat where "FID_PATH_DEPTH \<equiv> 4"
abbreviation (input) FID_PATH_START :: nat where "FID_PATH_START \<equiv> 3"
abbreviation (input) BPHXC :: nat where "BPHXC \<equiv> 4"
abbreviation (input) PATH_MAX :: nat where "PATH_MAX \<equiv> 4096"

fun fid_path_dirs :: "u64 \<Rightarrow> nat \<Rightarrow> nat \<Rightarrow> string" where
  "fid_path_dirs fid shift 0 = ''''"
| "fid_path_dirs fid shift (Suc n) =
     (let d = unat (drop_bit shift (fid AND push_bit shift 0xf)) in
      (if d < 10 then char_of (d + 48) else char_of (d + (97 - 10))) # CHR ''/'' #
      fid_path_dirs fid (shift - BPHXC) n)"

definition sli_fg_makepath :: "string \<Rightarrow> u64 \<Rightarrow> sl_fidgen \<Rightarrow> string option" where
  "sli_fg_makepath fsroot fsuuid fg = do {
     let str = fid_path_dirs (fg_fid fg) (BPHXC * (FID_PATH_START + FID_PATH_DEPTH - 1)) FID_PATH_DEPTH;
     let path = fsroot @ ''/'' @ ''.slmd'' @ ''/'' @ fmt_x fsuuid @ ''/'' @ ''fidns'' @ ''/'' @
                str @ fmt_016x (fg_fid fg) @ ''_'' @ fmt_x (fg_gen fg);
     psc_assert (length path < PATH_MAX);
     Some path
   }"

subsection \<open>Lemmas on the fields\<close>

definition maxvalmask_ok :: "(nat \<Rightarrow> u64) \<Rightarrow> bool" where
  "maxvalmask_ok mv \<longleftrightarrow> list_all (\<lambda>n. mv n = mask n) [0..<64]"

lemma maxvalmask_bit: "maxvalmask_ok mv \<Longrightarrow> n < 64 \<Longrightarrow> bit (mv n) k \<longleftrightarrow> k < n"
  by (auto simp: maxvalmask_ok_def list_all_iff bit_mask_iff)

lemma bit_get_field:
  "maxvalmask_ok mv \<Longrightarrow> nb < 64 \<Longrightarrow>
   bit (FID_GET_FIELD mv fid shft nb) k \<longleftrightarrow> k < nb \<and> bit fid (shft + k)"
  by (auto simp: FID_GET_FIELD_def bit_and_iff bit_drop_bit_eq maxvalmask_bit)

lemma bit_set_field:
  "maxvalmask_ok mv \<Longrightarrow> nb < 64 \<Longrightarrow> k < 64 \<Longrightarrow>
   bit (FID_SET_FIELD mv fid val shft nb) k \<longleftrightarrow>
     (if shft \<le> k \<and> k < shft + nb then bit val (k - shft) else bit fid k)"
  by (auto simp: FID_SET_FIELD_def bit_and_iff bit_or_iff bit_not_iff bit_push_bit_iff maxvalmask_bit)

lemma get_set_field_same:
  assumes "maxvalmask_ok mv" "nb < 64" "shft + nb \<le> 64"
  shows "FID_GET_FIELD mv (FID_SET_FIELD mv fid val shft nb) shft nb = val AND mv nb"
  using assms by (intro bit_eqI) (auto simp: bit_get_field bit_set_field bit_and_iff maxvalmask_bit)

lemma get_set_field_other:
  assumes "maxvalmask_ok mv" "nb < 64" "shft + nb \<le> 64" "nb' < 64" "shft' + nb' \<le> 64"
    and "shft + nb \<le> shft' \<or> shft' + nb' \<le> shft"
  shows "FID_GET_FIELD mv (FID_SET_FIELD mv fid val shft nb) shft' nb' = FID_GET_FIELD mv fid shft' nb'"
  using assms by (intro bit_eqI) (auto simp: bit_get_field bit_set_field)

lemma split_fields:
  assumes "maxvalmask_ok mv"
    and "FID_GET_FLAGS mv a = FID_GET_FLAGS mv b" "FID_GET_SITEID mv a = FID_GET_SITEID mv b"
    and "FID_GET_CYCLE mv a = FID_GET_CYCLE mv b" "FID_GET_INUM mv a = FID_GET_INUM mv b"
  shows "a = b"
proof (rule bit_eqI)
  fix n assume "possible_bit TYPE(u64) n"
  then have n: "n < 64" by (simp add: possible_bit_def)
  have eq: "bit a (s + k) = bit b (s + k)"
    if "FID_GET_FIELD mv a s nb = FID_GET_FIELD mv b s nb" "k < nb" "nb < 64" for s nb k
    using that bit_get_field [OF assms(1), of nb] by metis
  consider "n < 42" | "42 \<le> n" "n < 50" | "50 \<le> n" "n < 60" | "60 \<le> n" by linarith
  then show "bit a n = bit b n"
    using eq [of 0 42 n] eq [of 42 8 "n - 42"] eq [of 50 10 "n - 50"] eq [of 60 4 "n - 60"] n assms(2-5)
    by cases (simp_all add: FID_GET_FLAGS_def FID_GET_SITEID_def FID_GET_CYCLE_def FID_GET_INUM_def)
qed

subsection \<open>Lemmas on allocation\<close>

lemma mask_eq_mv: "maxvalmask_ok mv \<Longrightarrow> n < 64 \<Longrightarrow> mv n = mask n"
  by (simp add: maxvalmask_ok_def list_all_iff)

lemma FID_GET_INUM_nat:
  "maxvalmask_ok mv \<Longrightarrow> unat (FID_GET_INUM mv fid) = unat fid mod 2 ^ 42"
  by (simp add: FID_GET_INUM_def FID_GET_FIELD_def mask_eq_mv flip: take_bit_eq_mask)
    (simp add: take_bit_eq_mod unat_mod_distrib)

lemma FID_MAX_INUM_nat: "maxvalmask_ok mv \<Longrightarrow> unat (FID_MAX_INUM mv) = 2 ^ 42 - 1"
  by (simp add: FID_MAX_INUM_def mask_eq_mv mask_eq_exp_minus_1)

lemma get_field_high:
  assumes "maxvalmask_ok mv" "42 \<le> s" "nb < 64" "unat a div 2 ^ 42 = unat b div 2 ^ 42"
  shows "FID_GET_FIELD mv a s nb = FID_GET_FIELD mv b s nb"
proof -
  have d: "drop_bit 42 a = drop_bit 42 b"
    by (simp only: word_unat_eq_iff drop_bit_eq_div unat_div_distrib) (use assms(4) in simp)
  have eq: "bit a (s + k) = bit b (s + k)" for k
  proof -
    have "bit (drop_bit 42 a) (s + k - 42) = bit (drop_bit 42 b) (s + k - 42)" by (simp only: d)
    then show ?thesis
      using assms(2) by (simp only: bit_drop_bit_eq o_def le_add_diff_inverse trans_le_add1)
  qed
  show ?thesis
    by (rule bit_eqI) (simp only: bit_get_field [OF assms(1,3)] eq)
qed

definition same_high :: "(nat \<Rightarrow> u64) \<Rightarrow> u64 \<Rightarrow> u64 \<Rightarrow> bool" where
  "same_high mv a b \<longleftrightarrow> FID_GET_FLAGS mv a = FID_GET_FLAGS mv b \<and>
     FID_GET_SITEID mv a = FID_GET_SITEID mv b \<and> FID_GET_CYCLE mv a = FID_GET_CYCLE mv b"

text \<open>The FIDs handed out by \<open>n\<close> successive requests.\<close>

primrec fids_allocated :: "(nat \<Rightarrow> u64) \<Rightarrow> nat \<Rightarrow> u64 \<Rightarrow> u64 list" where
  "fids_allocated mv 0 next = []"
| "fids_allocated mv (Suc n) next =
     (case slm_get_next_slashfid mv next of
        (Inr fid, next') \<Rightarrow> fid # fids_allocated mv n next'
      | (Inl _, next') \<Rightarrow> fids_allocated mv n next')"

lemma alloc_room:
  assumes "maxvalmask_ok mv" "\<not> FID_GET_INUM mv next \<ge> FID_MAX_INUM mv"
  shows "unat (next + 1) = unat next + 1" "unat (next + 1) div 2 ^ 42 = unat next div 2 ^ 42"
proof -
  have m: "unat next mod 2 ^ 42 < 2 ^ 42 - 1"
    using assms FID_GET_INUM_nat [OF assms(1), of "next"] FID_MAX_INUM_nat [OF assms(1)]
    by (simp add: word_le_nat_alt)
  have "next \<noteq> - 1"
  proof
    assume "next = - 1"
    then have "unat next = 2 ^ 64 - 1" by (simp add: unsigned_minus_1_eq_mask mask_eq_exp_minus_1)
    with m show False by simp
  qed
  then show u: "unat (next + 1) = unat next + 1"
    by (metis Suc_eq_plus1 add.commute add_eq_0_iff unatSuc)
  show "unat (next + 1) div 2 ^ 42 = unat next div 2 ^ 42"
    using m by (simp add: u div_Suc mod_Suc)
qed

lemma fids_allocated_range:
  assumes "maxvalmask_ok mv"
  shows "fid \<in> set (fids_allocated mv n next) \<Longrightarrow>
    unat next \<le> unat fid \<and> unat fid div 2 ^ 42 = unat next div 2 ^ 42"
proof (induction n arbitrary: "next")
  case (Suc n)
  show ?case
  proof (cases "FID_GET_INUM mv next \<ge> FID_MAX_INUM mv")
    case True
    then show ?thesis using Suc by (simp add: slm_get_next_slashfid_def)
  next
    case False
    then show ?thesis
      using Suc.prems Suc.IH [of "next + 1"] alloc_room [OF assms False]
      by (auto simp: slm_get_next_slashfid_def)
  qed
qed simp

lemma fids_allocated_sorted:
  assumes "maxvalmask_ok mv"
  shows "sorted_wrt (<) (map unat (fids_allocated mv n next))"
proof (induction n arbitrary: "next")
  case (Suc n)
  show ?case
  proof (cases "FID_GET_INUM mv next \<ge> FID_MAX_INUM mv")
    case True
    then show ?thesis by (simp add: slm_get_next_slashfid_def Suc)
  next
    case False
    then show ?thesis
      using alloc_room [OF assms False] fids_allocated_range [OF assms, of _ n "next + 1"] Suc
      by (auto simp: slm_get_next_slashfid_def Suc_le_eq)
  qed
qed simp

subsection \<open>Lemmas on backing file names\<close>

lemma of_char_hexdig: "n < 16 \<Longrightarrow> of_char (hexdig n) = (if n < 10 then 48 + n else 87 + n)"
  by (simp add: hexdig_def of_char_of)

lemma hexdig_inj:
  assumes "a < 16" "b < 16"
  shows "hexdig a = hexdig b \<longleftrightarrow> a = b"
proof
  assume "hexdig a = hexdig b"
  then have "(of_char (hexdig a) :: nat) = of_char (hexdig b)" by simp
  with assms show "a = b" by (simp add: of_char_hexdig split: if_splits)
qed simp

lemma nibbles_less: "n \<in> set (nibbles w) \<Longrightarrow> n < 16"
  unfolding nibbles_def set_map by (elim imageE) simp

lemma map_hexdig_inj:
  assumes "\<forall>n \<in> set xs \<union> set ys. n < 16" "map hexdig xs = map hexdig ys"
  shows "xs = ys"
  using assms(2,1)
proof (induction xs arbitrary: ys)
  case (Cons x xs)
  then show ?case by (cases ys) (auto simp: hexdig_inj)
qed simp

lemma horner_nibbles:
  fixes m c :: nat
  shows "foldl (\<lambda>a d. 16 * a + d) c (map (\<lambda>i. (m div 16 ^ i) mod 16) (rev [0..<n])) =
     c * 16 ^ n + m mod 16 ^ n"
proof (induction n arbitrary: c)
  case (Suc n)
  have e: "m mod (16 * 16 ^ n) = 16 ^ n * (m div 16 ^ n mod 16) + m mod 16 ^ n"
    using mod_mult2_eq [of m "16 ^ n" 16] by (simp add: mult.commute)
  have "foldl (\<lambda>a d. 16 * a + d) c (map (\<lambda>i. (m div 16 ^ i) mod 16) (rev [0..<Suc n])) =
     (16 * c + m div 16 ^ n mod 16) * 16 ^ n + m mod 16 ^ n"
    using Suc [of "16 * c + m div 16 ^ n mod 16"] by simp
  also have "\<dots> = c * 16 ^ Suc n + m mod 16 ^ Suc n"
    by (simp add: e distrib_right)
  finally show ?case .
qed simp

lemma value_nibbles: "foldl (\<lambda>a d. 16 * a + d) 0 (nibbles w) = unat w"
proof -
  have "unat w < 16 ^ 16" using unsigned_less [of w, where 'a = nat] by simp
  then show ?thesis
    unfolding nibbles_def horner_nibbles by (simp only: mult_zero_left add_0 mod_less)
qed

lemma value_dropWhile:
  "foldl (\<lambda>a d. 16 * a + d) (0::nat) (dropWhile (\<lambda>n. n = 0) xs) = foldl (\<lambda>a d. 16 * a + d) 0 xs"
  by (induction xs) auto

lemma nibbles_inj: "nibbles a = nibbles b \<Longrightarrow> a = b"
  using value_nibbles [of a] value_nibbles [of b] by (simp add: word_unat_eq_iff)

lemma fmt_016x_inj: "fmt_016x a = fmt_016x b \<Longrightarrow> a = b"
  unfolding fmt_016x_def
  by (intro nibbles_inj map_hexdig_inj) (auto dest: nibbles_less)

definition hexnum :: "u64 \<Rightarrow> nat list" where
  "hexnum w = (if w = 0 then [0] else dropWhile (\<lambda>n. n = 0) (nibbles w))"

lemma fmt_x_hexnum: "fmt_x w = map hexdig (hexnum w)"
  by (simp add: fmt_x_def hexnum_def)

lemma value_hexnum: "foldl (\<lambda>a d. 16 * a + d) 0 (hexnum w) = unat w"
  by (simp add: hexnum_def value_dropWhile value_nibbles)

lemma hexnum_less: "n \<in> set (hexnum w) \<Longrightarrow> n < 16"
  by (auto simp: hexnum_def dest!: set_dropWhileD dest: nibbles_less split: if_splits)

lemma hexnum_inj: "hexnum a = hexnum b \<Longrightarrow> a = b"
  using value_hexnum [of a] value_hexnum [of b] by (simp add: word_unat_eq_iff)

lemma fmt_x_inj: "fmt_x a = fmt_x b \<Longrightarrow> a = b"
  unfolding fmt_x_hexnum
  by (intro hexnum_inj map_hexdig_inj) (auto dest: hexnum_less)

lemma length_fmt_016x [simp]: "length (fmt_016x w) = 16"
  unfolding fmt_016x_def nibbles_def length_map length_rev length_upt by simp

lemma length_fmt_x: "length (fmt_x w) \<le> 16"
proof -
  have "length (nibbles w) = 16" using length_fmt_016x [of w] by (simp only: fmt_016x_def length_map)
  then show ?thesis
    using length_dropWhile_le [of "\<lambda>n. n = 0" "nibbles w"] by (simp add: fmt_x_def)
qed

lemma length_fid_path_dirs [simp]: "length (fid_path_dirs fid s n) = 2 * n"
  by (induction n arbitrary: s) (simp_all add: Let_def)

subsection \<open>Properties\<close>

text \<open>
  The four fields of a FID are independent: a field that was set reads back as the value cut
  to its width, the other three fields are unchanged, and the four fields together determine
  the FID.
\<close>

theorem fid_fields_independent:
  assumes "maxvalmask_ok mv"
  shows "FID_GET_SITEID mv (FID_SET_SITEID mv fid v) = v AND mv SLASH_FID_MDSID_BITS \<and>
    FID_GET_FLAGS mv (FID_SET_SITEID mv fid v) = FID_GET_FLAGS mv fid \<and>
    FID_GET_CYCLE mv (FID_SET_SITEID mv fid v) = FID_GET_CYCLE mv fid \<and>
    FID_GET_INUM mv (FID_SET_SITEID mv fid v) = FID_GET_INUM mv fid \<and>
    FID_GET_CYCLE mv (FID_SET_CYCLE mv fid v) = v AND mv SLASH_FID_CYCLE_BITS \<and>
    FID_GET_FLAGS mv (FID_SET_CYCLE mv fid v) = FID_GET_FLAGS mv fid \<and>
    FID_GET_SITEID mv (FID_SET_CYCLE mv fid v) = FID_GET_SITEID mv fid \<and>
    FID_GET_INUM mv (FID_SET_CYCLE mv fid v) = FID_GET_INUM mv fid \<and>
    FID_GET_FLAGS mv (FID_SET_FLAGS mv fid v) = v AND mv SLASH_FID_FLAG_BITS \<and>
    FID_GET_SITEID mv (FID_SET_FLAGS mv fid v) = FID_GET_SITEID mv fid \<and>
    FID_GET_CYCLE mv (FID_SET_FLAGS mv fid v) = FID_GET_CYCLE mv fid \<and>
    FID_GET_INUM mv (FID_SET_FLAGS mv fid v) = FID_GET_INUM mv fid \<and>
    (fid' = fid \<longleftrightarrow> FID_GET_FLAGS mv fid' = FID_GET_FLAGS mv fid \<and>
       FID_GET_SITEID mv fid' = FID_GET_SITEID mv fid \<and>
       FID_GET_CYCLE mv fid' = FID_GET_CYCLE mv fid \<and> FID_GET_INUM mv fid' = FID_GET_INUM mv fid)"
proof -
  have "fid' = fid \<longleftrightarrow> FID_GET_FLAGS mv fid' = FID_GET_FLAGS mv fid \<and>
       FID_GET_SITEID mv fid' = FID_GET_SITEID mv fid \<and>
       FID_GET_CYCLE mv fid' = FID_GET_CYCLE mv fid \<and> FID_GET_INUM mv fid' = FID_GET_INUM mv fid"
    using split_fields [OF assms] by blast
  then show ?thesis
    by (intro conjI)
      (simp_all add: FID_GET_SITEID_def FID_SET_SITEID_def FID_GET_FLAGS_def FID_SET_FLAGS_def
        FID_GET_CYCLE_def FID_SET_CYCLE_def FID_GET_INUM_def get_set_field_same [OF assms]
        get_set_field_other [OF assms])
qed

theorem fid_fields_independent_witness:
  "FID_GET_SITEID mask (FID_SET_SITEID mask 7 5) = 5 AND mask 10 \<and>
   FID_GET_INUM mask (FID_SET_SITEID mask 7 5) = FID_GET_INUM mask 7"
proof -
  have "maxvalmask_ok mask" by (simp add: maxvalmask_ok_def list_all_iff)
  from fid_fields_independent [OF this, of 7 5] show ?thesis by blast
qed

text \<open>
  C11: no FID is handed out twice: the FIDs of any number of successive requests are strictly
  increasing, and every one of them keeps the flag, site and cycle bits of the cursor, so the
  inode number never runs over into the other fields.
\<close>

theorem slm_get_next_slashfid_unique:
  assumes "maxvalmask_ok mv"
  shows "distinct (fids_allocated mv n next) \<and>
    sorted_wrt (<) (fids_allocated mv n next) \<and>
    list_all (\<lambda>fid. same_high mv fid next) (fids_allocated mv n next)"
proof -
  have s: "sorted_wrt (<) (fids_allocated mv n next)"
    using fids_allocated_sorted [OF assms, of n "next"] unfolding sorted_wrt_map
    by (rule sorted_wrt_mono_rel [rotated]) (simp add: word_less_nat_alt)
  then have "distinct (fids_allocated mv n next)"
    by (simp add: strict_sorted_iff)
  moreover have "same_high mv fid next" if "fid \<in> set (fids_allocated mv n next)" for fid
    using fids_allocated_range [OF assms that] get_field_high [OF assms, of _ _ fid "next"]
    by (simp add: same_high_def FID_GET_SITEID_def FID_GET_FLAGS_def FID_GET_CYCLE_def)
  ultimately show ?thesis using s by (simp add: list_all_iff)
qed

theorem slm_get_next_slashfid_unique_witness:
  "fids_allocated mask 3 10 = [10, 11, 12] \<and> distinct (fids_allocated mask 3 10) \<and>
   list_all (\<lambda>fid. same_high mask fid 10) (fids_allocated mask 3 10)"
proof -
  have "maxvalmask_ok mask" by (simp add: maxvalmask_ok_def list_all_iff)
  moreover have "fids_allocated mask 3 10 = [10, 11, 12]"
    by (simp add: numeral_3_eq_3 slm_get_next_slashfid_def FID_GET_INUM_def FID_GET_FIELD_def
        FID_MAX_INUM_def mask_eq_exp_minus_1)
  ultimately show ?thesis using slm_get_next_slashfid_unique [of mask 3 10] by simp
qed

text \<open>
  C28: two file generations never share a backing file on an I/O server: the path determines the
  FID and the generation.
\<close>

theorem sli_fg_makepath_inj:
  assumes "sli_fg_makepath fsroot fsuuid a = Some p" "sli_fg_makepath fsroot fsuuid b = Some p"
  shows "a = b"
proof -
  let ?d = "\<lambda>fg. fid_path_dirs (fg_fid fg) 24 4 @ fmt_016x (fg_fid fg)"
  from assms have "?d a @ ''_'' @ fmt_x (fg_gen a) = ?d b @ ''_'' @ fmt_x (fg_gen b)"
    by (auto simp: sli_fg_makepath_def Let_def)
  moreover have "length (?d a) = length (?d b)" by simp
  ultimately have "?d a = ?d b \<and> ''_'' @ fmt_x (fg_gen a) = ''_'' @ fmt_x (fg_gen b)"
    using append_eq_append_conv [of "?d a" "?d b"] by blast
  moreover have "length (fid_path_dirs (fg_fid a) 24 4) = length (fid_path_dirs (fg_fid b) 24 4)"
    by simp
  ultimately have "fmt_016x (fg_fid a) = fmt_016x (fg_fid b)" "fmt_x (fg_gen a) = fmt_x (fg_gen b)"
    using append_eq_append_conv [of "fid_path_dirs (fg_fid a) 24 4" "fid_path_dirs (fg_fid b) 24 4"]
    by simp_all
  then show ?thesis by (auto dest!: fmt_016x_inj fmt_x_inj intro: sl_fidgen.equality)
qed

theorem sli_fg_makepath_inj_witness:
  "\<exists>p. sli_fg_makepath ''/r'' 7 \<lparr>fg_fid = 18, fg_gen = 0\<rparr> = Some p \<and>
       sli_fg_makepath ''/r'' 7 \<lparr>fg_fid = 18, fg_gen = 1\<rparr> \<noteq> Some p"
proof -
  obtain p where "sli_fg_makepath ''/r'' 7 \<lparr>fg_fid = 18, fg_gen = 0\<rparr> = Some p"
    using length_fmt_x [of 7] length_fmt_x [of 0] by (simp add: sli_fg_makepath_def psc_assert_def)
  with sli_fg_makepath_inj [OF this, of "\<lparr>fg_fid = 18, fg_gen = 1\<rparr>"] show ?thesis by auto
qed

end
