(* ===== verification/Bmap_Md.thy ===== *)
theory Bmap_Md
  imports Repl_Walk Fid
begin

text \<open>
  Bmaps on the metadata server (\<open>slashd/bmap_mds.c\<close>), their journal records
  (\<open>slashd/mdslog.c\<close>) and the invalidation of other replicas after a write
  (\<open>_mds_repl_inv_except\<close> of \<open>slashd/repl_mds.c\<close>).

  The record \<open>bmenv\<close> collects what belongs to other libraries: the bmap's slot of the
  metafile with its checksum, attribute updates, and the read side of PFL's read/write lock,
  whose effect on a thread that already holds the lock is left open. A journal callback runs
  inside the metafile write; whether the write got that far is part of the write's result.
\<close>

subsection \<open>Data\<close>

record bmap_ondisk =
  bod_crcstates :: "u8 list"
  bod_repls :: "u8 list"
  bod_crcs :: "u64 list"
  bod_gen :: u32
  bod_replpol :: u32

record srm_bmap_crcup =
  cu_fsize :: nat
  cu_nblks :: u64
  cu_utimgen :: u32
  cu_extend :: int
  cu_crcs :: "srt_bmap_crcwire list"

record 'm bmenv =
  be_env :: "'m mdenv"
  be_cf :: sl_config
  MAXVALMASK :: "nat \<Rightarrow> u64"
  zm_siteids :: "u64 list"
  current_vfsid :: nat
  crc64_bod :: "bmap_ondisk \<Rightarrow> u64"
  preadv_bmap :: "'m \<Rightarrow> nat \<Rightarrow> int \<times> nat \<times> bmap_ondisk \<times> u64"
  pwritev_bmap :: "'m \<Rightarrow> nat \<Rightarrow> bmap_ondisk \<Rightarrow> u64 \<Rightarrow> bool \<Rightarrow> int \<times> nat \<times> bool \<times> 'm"
  mdsio_setattr :: "u64 \<Rightarrow> u64 \<Rightarrow> nat option \<Rightarrow> int \<times> u64 \<times> nat"
  rw_reqrdlock :: "rwst \<Rightarrow> rwst"
  rw_hasrdlock :: "rwst \<Rightarrow> bool"
  rw_ureqlock :: "rwst \<Rightarrow> rwst \<Rightarrow> rwst"
  opstate_normal :: bool
  opstate_replay :: bool
  sl_sys_upnonce :: u32

abbreviation (input) SLASH_CRCS_PER_BMAP :: nat where "SLASH_CRCS_PER_BMAP \<equiv> 128"
abbreviation (input) BMAP_OD_SZ :: nat where "BMAP_OD_SZ \<equiv> 1192"
abbreviation (input) BMAP_NULL_CRC :: u64 where "BMAP_NULL_CRC \<equiv> 0x436f5d7c450ed606"
abbreviation (input) BMAP_SLVR_DATA :: u8 where "BMAP_SLVR_DATA \<equiv> 1"
abbreviation (input) BMAP_SLVR_CRC :: u8 where "BMAP_SLVR_CRC \<equiv> 2"
abbreviation (input) BRPOL_ONETIME :: u32 where "BRPOL_ONETIME \<equiv> 0"
abbreviation (input) BRPOL_PERSIST :: u32 where "BRPOL_PERSIST \<equiv> 1"
abbreviation (input) SLJ_MDS_NCRCS :: nat where "SLJ_MDS_NCRCS \<equiv> 24"

definition bmi_2_ondisk :: "mds_bmap \<Rightarrow> bmap_ondisk" where
  "bmi_2_ondisk b = \<lparr>bod_crcstates = bmi_crcstates b, bod_repls = bmi_repls b, bod_crcs = bes_crcs b,
     bod_gen = bes_gen b, bod_replpol = bes_replpol b\<rparr>"

definition bmi_set_ondisk :: "bmap_ondisk \<Rightarrow> mds_bmap \<Rightarrow> mds_bmap" where
  "bmi_set_ondisk d b = b\<lparr>bmi_crcstates := bod_crcstates d, bmi_repls := bod_repls d,
     bes_crcs := bod_crcs d, bes_gen := bod_gen d, bes_replpol := bod_replpol d\<rparr>"

definition bod_zero :: bmap_ondisk where
  "bod_zero = \<lparr>bod_crcstates = replicate SLASH_CRCS_PER_BMAP 0, bod_repls = replicate SL_REPLICA_NBYTES 0,
     bod_crcs = replicate SLASH_CRCS_PER_BMAP 0, bod_gen = 0, bod_replpol = 0\<rparr>"

abbreviation mst_mfh :: "'m mst \<Rightarrow> 'm" where
  "mst_mfh s \<equiv> inoh_mfh (fcmh_inoh (mf s))"

definition mst_set_mfh :: "'m \<Rightarrow> 'm mst \<Rightarrow> 'm mst" where
  "mst_set_mfh m s = s\<lparr>mf := (mf s)\<lparr>fcmh_inoh := (fcmh_inoh (mf s))\<lparr>inoh_mfh := m\<rparr>\<rparr>\<rparr>"

definition mst_set_rw :: "rwst \<Rightarrow> 'm mst \<Rightarrow> 'm mst" where
  "mst_set_rw r s = s\<lparr>mb := (mb s)\<lparr>bmi_rwlock := r\<rparr>\<rparr>"

text \<open>The busy flags of the bmap and its file.\<close>

definition set_busy :: "bool \<Rightarrow> 'm mst \<Rightarrow> 'm mst" where
  "set_busy v m = m\<lparr>mb := (mb m)\<lparr>bcm_busy := v\<rparr>, mf := (mf m)\<lparr>fcmh_busy := v\<rparr>\<rparr>"

definition bmap_fcmh_unbusy :: "'m mst \<Rightarrow> 'm mst option" where
  "bmap_fcmh_unbusy m = do {
     psc_assert (bcm_busy (mb m));
     psc_assert (fcmh_busy (mf m));
     Some (set_busy False m)
   }"

subsection \<open>New and valid bmaps\<close>

definition mds_bmap_initnew :: "'m mst \<Rightarrow> 'm mst" where
  "mds_bmap_initnew s = s\<lparr>mb := (mb s)\<lparr>bes_crcs := replicate SLASH_CRCS_PER_BMAP BMAP_NULL_CRC,
     bes_replpol := ino_replpol (inoh_ino (fcmh_inoh (mf s))),
     bmi_sys_prio := - 1, bmi_usr_prio := - 1\<rparr>\<rparr>"

definition valid_retifset :: "int list" where
  "valid_retifset = (brepls_init 0)[BREPLST_VALID := 1, BREPLST_GARBAGE := 1,
     BREPLST_GARBAGE_SCHED := 1, BREPLST_TRUNCPNDG := 1, BREPLST_TRUNCPNDG_SCHED := 1]"

definition mds_bmap_ensure_valid :: "'m mst \<Rightarrow> 'm mst option" where
  "mds_bmap_ensure_valid s = do {
     (rc, s, _) \<leftarrow> mds_repl_bmap_walk None (Some valid_retifset) REPL_WALKF_SCIRCUIT [] None (s, ());
     psc_assert (rc \<noteq> 0);
     Some s
   }"

subsection \<open>Journal records (\<open>slashd/mdslog.c\<close>)\<close>

definition mdslogfill_bmap_repls :: "'m mst \<Rightarrow> slmds_jent_bmap_repls option" where
  "mdslogfill_bmap_repls s = do {
     psc_assert (fcmh_busy (mf s));
     psc_assert (bcm_busy (mb s));
     Some \<lparr>sjbr_fid = fcmh_fid (mf s), sjbr_bmapno = bcm_bmapno (mb s), sjbr_bgen = bes_gen (mb s),
           sjbr_nrepls = fcmh_2_nrepls (mf s),
           sjbr_replpol = ino_replpol (inoh_ino (fcmh_inoh (mf s))),
           sjbr_repls = bmi_repls (mb s)\<rparr>
   }"

definition mdslog_bmap_repls :: "'m bmenv \<Rightarrow> 'm mst \<Rightarrow> 'm mst option" where
  "mdslog_bmap_repls be s = do {
     psc_assert (opstate_normal be);
     sjbr \<leftarrow> mdslogfill_bmap_repls s;
     Some (s\<lparr>mev := mev s @ [EvJournalBmapRepls sjbr, EvWkBrepl (bcm_bmapno (mb s))],
             mf := (mf s)\<lparr>fcmh_busy := False\<rparr>,
             mb := (mb s)\<lparr>bcm_busy := False, bcm_replmodwr := True,
                          bcm_opcnt := bcm_opcnt (mb s) + 1\<rparr>\<rparr>)
   }"

text \<open>A batch of checksums is split into records of at most \<open>SLJ_MDS_NCRCS\<close> entries.\<close>

function mdslog_bmap_crc_loop ::
    "slmds_jent_bmap_crc \<Rightarrow> int \<Rightarrow> srt_bmap_crcwire list \<Rightarrow> slmds_jent_bmap_crc list" where
  "mdslog_bmap_crc_loop j distill crcs =
     (if crcs = [] then []
      else let n = min SLJ_MDS_NCRCS (length crcs)
           in j\<lparr>sjbc_extend := distill, sjbc_crc := take n crcs\<rparr> #
              mdslog_bmap_crc_loop j 0 (drop n crcs))"
  by pat_completeness auto
termination
  by (relation "measure (\<lambda>(j, d, crcs). length crcs)") auto

declare mdslog_bmap_crc_loop.simps [simp del]

definition mdslog_bmap_crc :: "u32 \<Rightarrow> srm_bmap_crcup \<Rightarrow> 'm mst \<Rightarrow> 'm mst option" where
  "mdslog_bmap_crc iosid crcup s = do {
     let s = mst_set_rw RW_NONE s;
     psc_assert (bcm_crc_up (mb s));
     let j = \<lparr>sjbc_fid = fcmh_fid (mf s), sjbc_bmapno = bcm_bmapno (mb s), sjbc_iosid = iosid,
              sjbc_utimgen = cu_utimgen crcup, sjbc_fsize = cu_fsize crcup,
              sjbc_aggr_nblks = fcmh_nblks (mf s), sjbc_repl_nblks = cu_nblks crcup,
              sjbc_extend = 0, sjbc_crc = []\<rparr>;
     Some (s\<lparr>mev := mev s @ map EvJournalBmapCrc (mdslog_bmap_crc_loop j (cu_extend crcup) (cu_crcs crcup)),
             mb := (mb s)\<lparr>bcm_crc_up := False\<rparr>\<rparr>)
   }"

subsection \<open>Writing a bmap\<close>

datatype logf = Log_None | Log_Repls | Log_Crc u32 srm_bmap_crcup

definition run_logf :: "'m bmenv \<Rightarrow> logf \<Rightarrow> 'm mst \<Rightarrow> 'm mst option" where
  "run_logf be l s = (case l of Log_None \<Rightarrow> Some s | Log_Repls \<Rightarrow> mdslog_bmap_repls be s
     | Log_Crc iosid crcup \<Rightarrow> mdslog_bmap_crc iosid crcup s)"

definition mds_bmap_write :: "'m bmenv \<Rightarrow> logf \<Rightarrow> 'm mst \<Rightarrow> (int \<times> 'm mst) option" where
  "mds_bmap_write be logf s = do {
     let s = mst_set_rw (rw_reqrdlock be (bmi_rwlock (mb s))) s;
     s \<leftarrow> mds_bmap_ensure_valid s;
     let bod = bmi_2_ondisk (mb s);
     let (rc, nb, logged, m) =
       pwritev_bmap be (mst_mfh s) (bcm_bmapno (mb s)) bod (crc64_bod be bod) (logf \<noteq> Log_None);
     s \<leftarrow> (if logged then run_logf be logf (mst_set_mfh m s) else Some (mst_set_mfh m s));
     let rc = (if rc = 0 \<and> nb \<noteq> BMAP_OD_SZ then SLERR_SHORTIO else rc);
     Some (rc, if rw_hasrdlock be (bmi_rwlock (mb s)) then mst_set_rw RW_NONE s else s)
   }"

definition mds_bmap_write_rel :: "'m bmenv \<Rightarrow> logf \<Rightarrow> 'm mst \<Rightarrow> (int \<times> 'm mst) option" where
  "mds_bmap_write_rel be logf s = do {
     (rc, s) \<leftarrow> mds_bmap_write be logf s;
     s \<leftarrow> bmap_op_done s;
     Some (rc, s)
   }"

subsection \<open>Invalidation after a write (\<open>_mds_repl_inv_except\<close>)\<close>

definition mds_repl_inv_requeue :: "'m mdenv \<Rightarrow> ('m, u32 list) walkcb" where
  "mds_repl_inv_requeue env idx val = (\<lambda>(s, qv).
     if val = BREPLST_VALID then do {
       (ios, ih) \<leftarrow> fcmh_2_repl env (fcmh_inoh (mf s)) idx;
       Some (s\<lparr>mf := (mf s)\<lparr>fcmh_inoh := ih\<rparr>\<rparr>, qv @ [ios])
     } else Some (s, qv))"

text \<open>The translation and report arrays of the two walks.\<close>

definition inv_tract1 :: "int list" where
  "inv_tract1 = (brepls_init (- 1))[BREPLST_INVALID := int BREPLST_VALID,
     BREPLST_GARBAGE := int BREPLST_VALID]"

definition inv_tract2 :: "u32 \<Rightarrow> int list" where
  "inv_tract2 policy = (brepls_init (- 1))[
     BREPLST_VALID := (if policy = BRPOL_PERSIST then int BREPLST_REPL_QUEUED else int BREPLST_GARBAGE),
     BREPLST_REPL_SCHED := int BREPLST_REPL_QUEUED]"

definition inv_retifset1 :: "int list" where
  "inv_retifset1 = brepls_init_idx[BREPLST_INVALID := 0, BREPLST_VALID := 0]"

definition inv_retifset2 :: "int list" where
  "inv_retifset2 = (brepls_init 0)[BREPLST_VALID := 1]"

definition mds_repl_inv_except :: "'m bmenv \<Rightarrow> nat \<Rightarrow> bool \<Rightarrow> 'm mst \<Rightarrow> (int \<times> 'm mst) option" where
  "mds_repl_inv_except be iosidx defer s = do {
     (rc, s, _) \<leftarrow> mds_repl_bmap_walk (Some inv_tract1) (Some inv_retifset1) 0 [iosidx] None (s, ());
     let policy = bes_replpol (mb s);
     (rc2, s, qv) \<leftarrow> mds_repl_bmap_walk (Some (inv_tract2 policy)) (Some inv_retifset2)
                       REPL_WALKF_MODOTH [iosidx] (Some (mds_repl_inv_requeue (be_env be))) (s, []);
     let s = (if rc2 \<noteq> 0 then s\<lparr>mb := (mb s)\<lparr>bes_gen := bes_gen (mb s) + 1\<rparr>\<rparr> else s);
     if defer then Some (rc, s)
     else do {
       (rc, s) \<leftarrow> mds_bmap_write be Log_None s;
       Some (rc, if policy = BRPOL_PERSIST
                 then s\<lparr>mev := mev s @ [EvUpschEnqueue (bcm_bmapno (mb s))]\<rparr> else s)
     }
   }"

subsection \<open>Reading a bmap\<close>

text \<open>
  \<open>slm_bmap_resetnonce\<close> reverts work that was in flight before a restart. The rows its query
  selects from the update scheduler's table, a nonce and a resource each, are an argument.
\<close>

fun slm_bmap_resetnonce_rows ::
    "'m bmenv \<Rightarrow> (u32 \<times> u32) list \<Rightarrow> bool \<Rightarrow> 'm mst \<Rightarrow> (bool \<times> 'm mst) option" where
  "slm_bmap_resetnonce_rows be [] upd s = Some (upd, s)"
| "slm_bmap_resetnonce_rows be ((nonce, resid) # rows) upd s =
     (if nonce = sl_sys_upnonce be then slm_bmap_resetnonce_rows be rows upd s
      else do {
        (idx, ih) \<leftarrow> mds_repl_ios_lookup (be_env be) (be_cf be) (fcmh_inoh (mf s)) resid 0;
        let s = s\<lparr>mf := (mf s)\<lparr>fcmh_inoh := ih\<rparr>\<rparr>;
        psc_assert (idx \<ge> 0);
        let tract = (brepls_init (- 1))[BREPLST_REPL_SCHED := int BREPLST_REPL_QUEUED,
                                        BREPLST_GARBAGE_SCHED := int BREPLST_GARBAGE];
        (_, s, _) \<leftarrow> mds_repl_bmap_walk (Some tract) None 0 [nat idx] None (s, ());
        slm_bmap_resetnonce_rows be rows True s
      })"

definition slm_bmap_resetnonce :: "'m bmenv \<Rightarrow> (u32 \<times> u32) list \<Rightarrow> 'm mst \<Rightarrow> 'm mst option" where
  "slm_bmap_resetnonce be rows s = do {
     (upd, s) \<leftarrow> slm_bmap_resetnonce_rows be rows False s;
     if upd then do {
       (_, s) \<leftarrow> mds_bmap_write be Log_Repls (s\<lparr>mev := mev s @ [EvUpschNonce (bcm_bmapno (mb s))]\<rparr>);
       Some s
     } else Some s
   }"

definition mds_bmap_read_done :: "'m bmenv \<Rightarrow> (u32 \<times> u32) list \<Rightarrow> 'm mst \<Rightarrow> (int \<times> 'm mst) option" where
  "mds_bmap_read_done be rows s =
     (if opstate_replay be then Some (0, s)
      else do {
        let retifset = (brepls_init 0)[BREPLST_REPL_SCHED := 1, BREPLST_GARBAGE_SCHED := 1];
        (rc, s, _) \<leftarrow> mds_repl_bmap_walk None (Some retifset) REPL_WALKF_SCIRCUIT [] None (s, ());
        s \<leftarrow> (if rc \<noteq> 0 then slm_bmap_resetnonce be rows s else Some s);
        Some (0, s)
      })"

definition mds_bmap_read ::
    "'m bmenv \<Rightarrow> bool \<Rightarrow> bool \<Rightarrow> (u32 \<times> u32) list \<Rightarrow> 'm mst \<Rightarrow> (int \<times> 'm mst) option" where
  "mds_bmap_read be nodiskread noautoinst rows s =
     (if nodiskread then mds_bmap_read_done be rows (mds_bmap_initnew s)
      else let (rc, nb, d, od_crc) = preadv_bmap be (mst_mfh s) (bcm_bmapno (mb s));
               s = s\<lparr>mb := bmi_set_ondisk d (mb s)\<rparr>
           in if rc \<noteq> 0 then Some (rc, s)
              else if nb = 0 \<and> noautoinst then Some (SLERR_BMAP_INVALID, s)
              else if nb = 0 \<or> nb = BMAP_OD_SZ \<and> od_crc = 0 \<and> d = bod_zero
              then Some (0, mds_bmap_initnew s)
              else if nb = BMAP_OD_SZ \<and> od_crc \<noteq> crc64_bod be d
              then Some (PFLERR_BADCRC (be_env be), s)
              else do {
                s \<leftarrow> mds_bmap_ensure_valid s;
                mds_bmap_read_done be rows s
              })"

subsection \<open>Checksum updates from an I/O server\<close>

text \<open>
  A slot number outside the bmap would make the C code write outside its arrays; this counts as
  an aborted process.
\<close>

fun crcup_apply :: "srt_bmap_crcwire list \<Rightarrow> mds_bmap \<Rightarrow> mds_bmap option" where
  "crcup_apply [] b = Some b"
| "crcup_apply (c # cs) b = do {
     psc_assert (crcw_slot c < SLASH_CRCS_PER_BMAP);
     crcup_apply cs (b\<lparr>bes_crcs := (bes_crcs b)[crcw_slot c := crcw_crc c],
                      bmi_crcstates := (bmi_crcstates b)[crcw_slot c := BMAP_SLVR_DATA OR BMAP_SLVR_CRC]\<rparr>)
   }"

definition mds_bmap_crc_nblks ::
    "'m bmenv \<Rightarrow> nat \<Rightarrow> u64 \<Rightarrow> 'm mst \<Rightarrow> 'm mst option" where
  "mds_bmap_crc_nblks be idx nblks s = do {
     let env = be_env be;
     (old, ih) \<leftarrow> fcmh_2_repl_nblks env (fcmh_inoh (mf s)) idx;
     if nblks = old then Some (s\<lparr>mf := (mf s)\<lparr>fcmh_inoh := ih\<rparr>\<rparr>)
     else do {
       let blocks = fcmh_nblks (mf s) + nblks - old;
       ih \<leftarrow> fcmh_set_repl_nblks env ih idx nblks;
       let (rc, nblks_out, fsz_out) = mdsio_setattr be (fcmh_fid (mf s)) blocks None;
       let f = (if rc = 0 then (mf s)\<lparr>fcmh_nblks := nblks_out, fcmh_fsz := fsz_out\<rparr> else mf s);
       ih \<leftarrow> (if idx \<ge> SL_DEF_REPLICAS then map_option snd (mds_inox_write env False ih)
              else Some (snd (mds_inode_write env False ih)));
       Some (s\<lparr>mf := f\<lparr>fcmh_inoh := ih\<rparr>\<rparr>)
     }
   }"

definition mds_bmap_crc_update ::
    "'m bmenv \<Rightarrow> u32 \<Rightarrow> srm_bmap_crcup \<Rightarrow> 'm mst \<Rightarrow> (int \<times> 'm mst) option" where
  "mds_bmap_crc_update be iosid crcup s = do {
     psc_assert (bcm_crc_up (mb s));
     case slfid_to_vfsid (MAXVALMASK be) (zm_siteids be) (current_vfsid be) (fcmh_fid (mf s)) of
       Inl rc \<Rightarrow> Some (- rc, s)
     | Inr vfsid \<Rightarrow>
         if vfsid \<noteq> current_vfsid be then Some (EINVAL, s)
         else do {
           psc_assert (\<not> fcmh_busy (mf s));
           (idx, ih) \<leftarrow> mds_repl_ios_lookup (be_env be) (be_cf be) (fcmh_inoh (mf s)) iosid 0;
           psc_assert (idx \<ge> 0);
           s \<leftarrow> mds_bmap_crc_nblks be (nat idx) (cu_nblks crcup)
                 (s\<lparr>mf := (mf s)\<lparr>fcmh_busy := True, fcmh_inoh := ih\<rparr>\<rparr>);
           (rc, s) \<leftarrow> mds_repl_inv_except be (nat idx) True s;
           s \<leftarrow> (if rc \<noteq> 0 then map_option snd (mds_bmap_write be Log_Repls s)
                else do {
                  psc_assert (bcm_busy (mb s));
                  psc_assert (fcmh_busy (mf s));
                  Some (s\<lparr>mb := (mb s)\<lparr>bmi_rwlock := RW_NONE, bcm_busy := False\<rparr>,
                          mf := (mf s)\<lparr>fcmh_busy := False\<rparr>\<rparr>)
                });
           b \<leftarrow> crcup_apply (cu_crcs crcup) ((mb s)\<lparr>bmi_rwlock := RW_WR\<rparr>);
           mds_bmap_write be (Log_Crc iosid crcup) (s\<lparr>mb := b\<rparr>)
         }
   }"

subsection \<open>Lemmas on invalidation\<close>

lemma requeue_frame: "cb_frame (Some (mds_repl_inv_requeue env))"
  by (auto simp: cb_frame_def mds_repl_inv_requeue_def bind_eq_Some_conv split: if_splits)

definition inoh_fixed :: "nat \<Rightarrow> 'm fcmh \<Rightarrow> bool" where
  "inoh_fixed nr f \<longleftrightarrow> inoh_ok (fcmh_inoh f) \<and> fcmh_2_nrepls f = nr"

lemma inoh_fixed_busy [simp]: "inoh_fixed nr (f\<lparr>fcmh_busy := x\<rparr>) = inoh_fixed nr f"
  by (simp add: inoh_fixed_def)

lemma fcmh_2_repl_loaded:
  assumes "inoh_ok ih" "i < ino_nrepls (inoh_ino ih)"
  shows "fcmh_2_repl env ih i = Some (rlist ih ! i, ih)"
proof (cases "i < SL_DEF_REPLICAS")
  case True
  then show ?thesis using assms by (simp add: fcmh_2_repl_def rlist_nth)
next
  case False
  then obtain x where "inoh_extras ih = Some x"
    using assms by (auto simp: inoh_ok_def split: option.splits)
  then show ?thesis
    using assms False by (simp add: fcmh_2_repl_def rlist_nth ensure_loaded_ready)
qed

lemma requeue_runs:
  assumes "\<forall>k \<in> set ks. k < nr"
  shows "cb_runs (Some (mds_repl_inv_requeue env)) (inoh_fixed nr) ks"
  using assms
  by (auto simp: cb_runs_def run_cb_def mds_repl_inv_requeue_def inoh_fixed_def fcmh_2_repl_loaded)

lemma inv_tract_ok: "tract_ok inv_tract1" "tract_ok (inv_tract2 p)"
  by (simp_all add: inv_tract1_def inv_tract2_def)

text \<open>What invalidation makes of the state \<open>v\<close> of replica \<open>k\<close> when \<open>i\<close> was written.\<close>

definition inv_state :: "u32 \<Rightarrow> nat \<Rightarrow> nat \<Rightarrow> nat \<Rightarrow> nat" where
  "inv_state policy i k v =
     (if k = i then (if v = BREPLST_INVALID \<or> v = BREPLST_GARBAGE then BREPLST_VALID else v)
      else if v = BREPLST_VALID
           then (if policy = BRPOL_PERSIST then BREPLST_REPL_QUEUED else BREPLST_GARBAGE)
      else if v = BREPLST_REPL_SCHED then BREPLST_REPL_QUEUED
      else v)"

lemma less_8_cases: "(v::nat) < 8 \<Longrightarrow> v = 0 \<or> v = 1 \<or> v = 2 \<or> v = 3 \<or> v = 4 \<or> v = 5 \<or> v = 6 \<or> v = 7"
  by linarith

lemma brepls_init_list: "brepls_init x = [x, x, x, x, x, x, x, x]"
  by (simp add: brepls_init_def eval_nat_numeral)

lemma brepls_init_idx_list: "brepls_init_idx = [0, 1, 2, 3, 4, 5, 6, 7]"
  by (simp add: brepls_init_idx_def upt_rec)

lemma inv_tract_step:
  assumes "v < 8"
  shows "tract_step inv_tract1 v = inv_state policy i i v"
    and "k \<noteq> i \<Longrightarrow> tract_step (inv_tract2 policy) v = inv_state policy i k v"
  using less_8_cases [OF assms]
  by (auto simp: tract_step_def inv_tract1_def inv_tract2_def brepls_init_list inv_state_def)

lemma inv_ret1:
  "v < 8 \<Longrightarrow> ret_val (Some inv_retifset1) v =
     (if v = BREPLST_INVALID \<or> v = BREPLST_VALID then 0 else int v)"
  using less_8_cases [of v] by (auto simp: ret_val_def inv_retifset1_def brepls_init_idx_list)

lemma inv_ret2:
  "v < 8 \<Longrightarrow> ret_val (Some inv_retifset2) v =
     (if v = BREPLST_VALID then 1 else 0)"
  using less_8_cases [of v] by (auto simp: ret_val_def inv_retifset2_def brepls_init_list)

lemma inv_except_indexes:
  "i < nr \<Longrightarrow> nr \<le> SL_MAX_REPLICAS \<Longrightarrow>
   walk_ks_ok (repl_walk_indexes nr REPL_WALKF_MODOTH [i]) \<and>
   set (repl_walk_indexes nr REPL_WALKF_MODOTH [i]) = {..<nr} - {i}"
  using walk_indexes_ok [of nr "[i]" REPL_WALKF_MODOTH] walk_indexes_set [of "[i]" nr REPL_WALKF_MODOTH]
  by (simp add: walk_ks_ok_def)

lemma inv_except_defer:
  assumes ready: "walk_ready s" "brepls_ok (bmi_repls (mb s))" "inoh_ok (fcmh_inoh (mf s))"
    and i: "i < fcmh_2_nrepls (mf s)"
  obtains s' where
    "mds_repl_inv_except be i True s =
       Some (let v = repl_st (bmi_repls (mb s)) i
             in if v = BREPLST_INVALID \<or> v = BREPLST_VALID then 0 else int v, s')"
    "\<And>k. k < SL_MAX_REPLICAS \<Longrightarrow> repl_st (bmi_repls (mb s')) k =
       (if k < fcmh_2_nrepls (mf s) then inv_state (bes_replpol (mb s)) i k (repl_st (bmi_repls (mb s)) k)
        else repl_st (bmi_repls (mb s)) k)"
    "bes_gen (mb s') = bes_gen (mb s) +
       (if \<exists>k < fcmh_2_nrepls (mf s). k \<noteq> i \<and> repl_st (bmi_repls (mb s)) k = BREPLST_VALID then 1 else 0)"
    "mev s' = mev s" "walk_ready s'" "brepls_ok (bmi_repls (mb s'))" "bmi_rwlock (mb s') = RW_WR"
proof -
  let ?nr = "fcmh_2_nrepls (mf s)" and ?r0 = "bmi_repls (mb s)"
  let ?pol = "bes_replpol (mb s)"
  let ?ret1 = "Some inv_retifset1" and ?ret2 = "Some inv_retifset2"
  let ?ks = "repl_walk_indexes ?nr REPL_WALKF_MODOTH [i]"
  have nr: "?nr \<le> 64" using ready(3) by (simp add: inoh_ok_def)
  note ks = inv_except_indexes [OF i nr]
  have I: "inoh_fixed ?nr (mf s)" using ready(3) by (simp add: inoh_fixed_def)
  obtain s1 where w1: "repl_walk_loop (Some inv_tract1) ?ret1 0 None [i] 0 (s, ()) =
        Some (ret_val ?ret1 (repl_st ?r0 i), s1, ())"
    and b1: "mb s1 = wrlocked (mb s)\<lparr>bmi_repls := brt.trans1 inv_tract1 i ?r0\<rparr>"
    and s1: "walk_ready s1" "inoh_fixed ?nr (mf s1)" "mev s1 = mev s" "brepls_ok (bmi_repls (mb s1))"
    by (rule walk_loop_tract_full [OF ready(1,2) inv_tract_ok(1), of 0 "[i]" None "inoh_fixed ?nr" ?ret1 "()"])
      (use i nr I in \<open>auto simp: walk_ks_ok_def cb_runs_None_inv\<close>)
  have old: "repl_st (bmi_repls (mb s1)) k = (if k = i then inv_state ?pol i i (repl_st ?r0 i) else repl_st ?r0 k)"
    if "k < 64" for k
    using that i nr ready(2) inv_tract_ok(1)
    by (simp add: b1 brt.tget_trans1 inv_tract_step(1) brt.tget_less)
  obtain rc2 s2 qv where w2: "repl_walk_loop (Some (inv_tract2 ?pol)) ?ret2 REPL_WALKF_MODOTH
        (Some (mds_repl_inv_requeue (be_env be))) ?ks 0 (s1, []) = Some (rc2, s2, qv)"
    and b2: "mb s2 = mb s1\<lparr>bmi_repls := fold (brt.trans1 (inv_tract2 ?pol)) ?ks (bmi_repls (mb s1))\<rparr>"
    and s2: "rc2 = ret_last ?ret2 (bmi_repls (mb s1)) ?ks 0" "walk_ready s2" "mev s2 = mev s1"
      "brepls_ok (bmi_repls (mb s2))"
    by (rule walk_loop_tract_full [OF s1(1,4) inv_tract_ok(2), of REPL_WALKF_MODOTH ?ks
          "Some (mds_repl_inv_requeue (be_env be))" "inoh_fixed ?nr" ?pol ?ret2 "[]"])
      (use ks s1 b1 in \<open>auto simp: requeue_frame requeue_runs wrlocked_def\<close>)
  have st2: "repl_st (bmi_repls (mb s2)) k =
      (if k < ?nr then inv_state ?pol i k (repl_st ?r0 k) else repl_st ?r0 k)" if "k < 64" for k
    using that ks i old [OF that] brt.tget_fold_trans1 [OF s1(4) inv_tract_ok(2), of ?ks k ?pol]
    by (auto simp: b2 walk_ks_ok_def inv_tract_step(2) brt.tget_less)
  have rc2: "rc2 \<noteq> 0 \<longleftrightarrow> (\<exists>k < ?nr. k \<noteq> i \<and> repl_st ?r0 k = BREPLST_VALID)"
    using ks nr by (auto simp: s2(1) ret_last_zero_iff inv_ret2 brt.tget_less old)
  let ?s3 = "if rc2 \<noteq> 0 then s2\<lparr>mb := (mb s2)\<lparr>bes_gen := bes_gen (mb s2) + 1\<rparr>\<rparr> else s2"
  have "mds_repl_bmap_walk (Some inv_tract1) ?ret1 0 [i] None (s, ()) =
      Some (ret_val ?ret1 (repl_st ?r0 i), s1, ())"
    using w1 by (simp only: mds_repl_bmap_walk_def repl_walk_indexes_def) simp
  moreover have "mds_repl_bmap_walk (Some (inv_tract2 ?pol)) ?ret2 REPL_WALKF_MODOTH [i]
      (Some (mds_repl_inv_requeue (be_env be))) (s1, []) = Some (rc2, s2, qv)"
    using w2 s1(2) by (simp add: mds_repl_bmap_walk_def inoh_fixed_def)
  moreover have "bes_replpol (mb s1) = ?pol" using b1 by (simp add: wrlocked_def)
  ultimately have "mds_repl_inv_except be i True s = Some (ret_val ?ret1 (repl_st ?r0 i), ?s3)"
    by (simp add: mds_repl_inv_except_def Let_def)
  then show ?thesis
    using that [of ?s3] st2 rc2 s1 s2 b1 b2 inv_ret1 [OF brt.tget_less, of ?r0 i]
    by (auto simp: walk_ready_def wrlocked_def Let_def)
qed

end
