(* ===== verification/Bmap_Io.thy ===== *)
theory Bmap_Io
  imports Bmap_Md
begin

text \<open>
  What the bmap operations of \<open>Bmap_Md\<close> guarantee: which replicas are valid after a write,
  what a bmap read accepts, that a written bmap is read back, and what the journal records of
  checksum updates hold.
\<close>

subsection \<open>Lemmas on writing and reading\<close>

definition has_data :: "'m mst \<Rightarrow> bool" where
  "has_data s \<longleftrightarrow> (\<exists>k < fcmh_2_nrepls (mf s). repl_st (bmi_repls (mb s)) k \<in>
     {BREPLST_VALID, BREPLST_GARBAGE, BREPLST_GARBAGE_SCHED, BREPLST_TRUNCPNDG, BREPLST_TRUNCPNDG_SCHED})"

lemma valid_ret:
  "v < 8 \<Longrightarrow> ret_val (Some valid_retifset) v \<noteq> 0 \<longleftrightarrow>
     v \<in> {BREPLST_VALID, BREPLST_GARBAGE, BREPLST_GARBAGE_SCHED, BREPLST_TRUNCPNDG,
           BREPLST_TRUNCPNDG_SCHED}"
  using less_8_cases [of v] by (auto simp: ret_val_def valid_retifset_def brepls_init_list)

lemma walk_all_scircuit:
  "\<exists>rc. mds_repl_bmap_walk None (Some ret) REPL_WALKF_SCIRCUIT [] None (s, a) =
     Some (rc, if fcmh_2_nrepls (mf s) = 0 then s else s\<lparr>mb := rd_released (mb s)\<rparr>, a) \<and>
   (rc \<noteq> 0 \<longleftrightarrow> (\<exists>k < fcmh_2_nrepls (mf s). ret_val (Some ret) (repl_st (bmi_repls (mb s)) k) \<noteq> 0))"
  using walk_loop_query_scircuit [of "Some ret" "[0..<fcmh_2_nrepls (mf s)]" s a]
  by (auto simp: mds_repl_bmap_walk_def repl_walk_indexes_def find_None_iff find_Some_iff
      split: option.splits)

lemma ensure_valid_iff:
  "mds_bmap_ensure_valid s = (if has_data s then Some (s\<lparr>mb := rd_released (mb s)\<rparr>) else None)"
proof -
  obtain rc where w: "mds_repl_bmap_walk None (Some valid_retifset) REPL_WALKF_SCIRCUIT [] None (s, ()) =
      Some (rc, if fcmh_2_nrepls (mf s) = 0 then s else s\<lparr>mb := rd_released (mb s)\<rparr>, ())"
    and rc: "rc \<noteq> 0 \<longleftrightarrow> (\<exists>k < fcmh_2_nrepls (mf s).
        ret_val (Some valid_retifset) (repl_st (bmi_repls (mb s)) k) \<noteq> 0)"
    using walk_all_scircuit [of valid_retifset s "()"] by (elim exE conjE)
  have "rc \<noteq> 0 \<longleftrightarrow> has_data s"
    by (simp only: rc has_data_def valid_ret [OF brt.tget_less])
  moreover have "fcmh_2_nrepls (mf s) \<noteq> 0" if "has_data s" using that by (auto simp: has_data_def)
  ultimately show ?thesis
    by (cases "has_data s") (simp_all add: mds_bmap_ensure_valid_def w psc_assert_def del: One_nat_def)
qed

text \<open>
  The documented behaviour of PFL's lock: requiring the read lock leaves a thread with some
  lock, and a thread that holds no lock has no read lock.
\<close>

definition rw_ok :: "'m bmenv \<Rightarrow> bool" where
  "rw_ok be \<longleftrightarrow> rw_reqrdlock be RW_NONE = RW_RD \<and> rw_reqrdlock be RW_RD = RW_RD \<and>
     rw_reqrdlock be RW_WR \<noteq> RW_NONE \<and> rw_hasrdlock be RW_RD \<and> \<not> rw_hasrdlock be RW_NONE \<and>
     (\<forall>r. rw_ureqlock be RW_NONE r = RW_NONE)"

lemma rw_reqrdlock_held: "rw_ok be \<Longrightarrow> rw_reqrdlock be r \<noteq> RW_NONE"
  by (cases r) (auto simp: rw_ok_def)

lemma has_data_cong:
  "fcmh_2_nrepls (mf s') = fcmh_2_nrepls (mf s) \<Longrightarrow> bmi_repls (mb s') = bmi_repls (mb s) \<Longrightarrow>
   has_data s' = has_data s"
  by (simp add: has_data_def)

lemma mds_bmap_write_unfold:
  assumes "rw_ok be" "pwritev_bmap be (mst_mfh s) (bcm_bmapno (mb s)) (bmi_2_ondisk (mb s))
      (crc64_bod be (bmi_2_ondisk (mb s))) (logf \<noteq> Log_None) = (rc0, nb, logged, m)"
  shows "mds_bmap_write be logf s = (if has_data s then do {
      s1 \<leftarrow> (if logged then run_logf be logf else Some)
             (mst_set_mfh m (mst_set_rw (rw_reqrdlock be (bmi_rwlock (mb s))) s));
      Some (if rc0 = 0 \<and> nb \<noteq> BMAP_OD_SZ then SLERR_SHORTIO else rc0,
        if rw_hasrdlock be (bmi_rwlock (mb s1)) then mst_set_rw RW_NONE s1 else s1)
    } else None)"
proof -
  let ?s = "mst_set_rw (rw_reqrdlock be (bmi_rwlock (mb s))) s"
  have "rd_released (mb ?s) = mb ?s"
    using rw_reqrdlock_held [OF assms(1)] by (simp add: rd_released_def mst_set_rw_def)
  then have "mds_bmap_ensure_valid ?s = (if has_data s then Some ?s else None)"
    using has_data_cong [of ?s s] by (simp add: ensure_valid_iff mst_set_rw_def)
  moreover have "bmi_2_ondisk (mb ?s) = bmi_2_ondisk (mb s)"
    by (simp add: bmi_2_ondisk_def mst_set_rw_def)
  ultimately show ?thesis
    using assms(2) by (simp add: mds_bmap_write_def mst_set_rw_def Let_def)
qed

lemma mdslog_crc_loop_props:
  "concat (map sjbc_crc (mdslog_bmap_crc_loop j d crcs)) = crcs \<and>
   list_all (\<lambda>e. sjbc_crc e \<noteq> [] \<and> length (sjbc_crc e) \<le> SLJ_MDS_NCRCS)
     (mdslog_bmap_crc_loop j d crcs) \<and>
   map sjbc_extend (mdslog_bmap_crc_loop j d crcs) =
     (if crcs = [] then [] else d # replicate (length (mdslog_bmap_crc_loop j d crcs) - 1) 0)"
proof (induction j d crcs rule: mdslog_bmap_crc_loop.induct)
  case (1 j d crcs)
  show ?case
  proof (cases "crcs = []")
    case True
    then show ?thesis by (simp add: mdslog_bmap_crc_loop.simps)
  next
    case False
    let ?n = "min SLJ_MDS_NCRCS (length crcs)"
    let ?rest = "mdslog_bmap_crc_loop j 0 (drop ?n crcs)"
    have "map sjbc_extend ?rest = replicate (length ?rest) 0"
      using "1.IH" [OF False refl]
      by (cases "drop ?n crcs = []") (auto simp: mdslog_bmap_crc_loop.simps [of j 0 "[]"]
          simp flip: replicate_Suc dest!: arg_cong [of _ _ length])
    then show ?thesis
      using False "1.IH" [OF False refl] mdslog_bmap_crc_loop.simps [of j d crcs]
      by (simp add: Let_def)
  qed
qed

lemma ondisk_rd_released [simp]: "bmi_2_ondisk (rd_released b) = bmi_2_ondisk b"
  by (simp add: bmi_2_ondisk_def rd_released_def)

lemma ondisk_set_ondisk [simp]: "bmi_2_ondisk (bmi_set_ondisk d b) = d"
  by (simp add: bmi_2_ondisk_def bmi_set_ondisk_def)

lemma repl_st_zero: "k < SL_MAX_REPLICAS \<Longrightarrow> repl_st (replicate SL_REPLICA_NBYTES 0) k = 0"
proof -
  assume k: "k < SL_MAX_REPLICAS"
  show ?thesis
  proof (rule bit_eqI)
    fix n
    have "(k * 3 + n) div 8 < 24" if "n < 3" using that k by linarith
    then show "bit (repl_st (replicate SL_REPLICA_NBYTES 0) k) n = bit (0::nat) n"
      by (auto simp: repl_st_def get_bit tbl_bit_def SL_REPLICA_NBYTES_def)
  qed
qed

lemma has_data_nonzero:
  assumes "has_data s" "fcmh_2_nrepls (mf s) \<le> SL_MAX_REPLICAS"
  shows "bmi_2_ondisk (mb s) \<noteq> bod_zero"
proof
  assume "bmi_2_ondisk (mb s) = bod_zero"
  then have "bmi_repls (mb s) = replicate SL_REPLICA_NBYTES 0"
    by (simp add: bmi_2_ondisk_def bod_zero_def)
  with assms show False by (auto simp: has_data_def repl_st_zero)
qed

definition no_sched :: "'m mst \<Rightarrow> bool" where
  "no_sched s \<longleftrightarrow> (\<forall>k < fcmh_2_nrepls (mf s).
     repl_st (bmi_repls (mb s)) k \<noteq> BREPLST_REPL_SCHED \<and>
     repl_st (bmi_repls (mb s)) k \<noteq> BREPLST_GARBAGE_SCHED)"

lemma sched_ret:
  "v < 8 \<Longrightarrow> ret_val (Some ((brepls_init 0)[BREPLST_REPL_SCHED := 1, BREPLST_GARBAGE_SCHED := 1])) v \<noteq> 0
     \<longleftrightarrow> v = BREPLST_REPL_SCHED \<or> v = BREPLST_GARBAGE_SCHED"
  using less_8_cases [of v] by (auto simp: ret_val_def brepls_init_list)

lemma read_done_no_sched:
  assumes "no_sched s"
  shows "\<exists>s'. mds_bmap_read_done be rows s = Some (0, s') \<and>
     bmi_2_ondisk (mb s') = bmi_2_ondisk (mb s) \<and> mf s' = mf s \<and> mev s' = mev s"
proof -
  let ?ret = "(brepls_init 0)[BREPLST_REPL_SCHED := 1, BREPLST_GARBAGE_SCHED := 1]"
  obtain rc where w: "mds_repl_bmap_walk None (Some ?ret) REPL_WALKF_SCIRCUIT [] None (s, ()) =
      Some (rc, if fcmh_2_nrepls (mf s) = 0 then s else s\<lparr>mb := rd_released (mb s)\<rparr>, ())"
    and rc: "rc \<noteq> 0 \<longleftrightarrow> (\<exists>k < fcmh_2_nrepls (mf s). ret_val (Some ?ret) (repl_st (bmi_repls (mb s)) k) \<noteq> 0)"
    using walk_all_scircuit [of ?ret s "()"] by (elim exE conjE)
  have "rc = 0"
    using assms rc by (simp only: sched_ret [OF brt.tget_less] no_sched_def) blast
  then show ?thesis using w by (simp add: mds_bmap_read_done_def Let_def del: One_nat_def)
qed

text \<open>The law of the metafile: a complete write of a bmap slot is read back.\<close>

definition bmapio_ok :: "'m bmenv \<Rightarrow> bool" where
  "bmapio_ok be \<longleftrightarrow> (\<forall>m n d c l lg m'. pwritev_bmap be m n d c l = (0, BMAP_OD_SZ, lg, m') \<longrightarrow>
     preadv_bmap be m' n = (0, BMAP_OD_SZ, d, c))"

lemma repl_nblks_loaded:
  assumes "inoh_ok ih" "idx < ino_nrepls (inoh_ino ih)"
  obtains old where "fcmh_2_repl_nblks env ih idx = Some (old, ih)"
proof (cases "idx < SL_DEF_REPLICAS")
  case True
  then show ?thesis using that by (simp add: fcmh_2_repl_nblks_def)
next
  case False
  then obtain x where "inoh_extras ih = Some x"
    using assms by (auto simp: inoh_ok_def split: option.splits)
  then show ?thesis
    using that False assms ensure_loaded_ready [of ih env] by (simp add: fcmh_2_repl_nblks_def)
qed

lemma set_repl_nblks_loaded:
  assumes "inoh_ok ih" "idx < ino_nrepls (inoh_ino ih)"
  obtains ih' where "fcmh_set_repl_nblks env ih idx nblks = Some ih'" "inoh_ok ih'"
    "ino_nrepls (inoh_ino ih') = ino_nrepls (inoh_ino ih)"
proof (cases "idx < SL_DEF_REPLICAS")
  case True
  let ?ih = "ih\<lparr>inoh_ino := (inoh_ino ih)\<lparr>ino_repl_nblks := (ino_repl_nblks (inoh_ino ih))[idx := nblks]\<rparr>\<rparr>"
  have "inoh_ok ?ih" using assms(1) by (simp add: inoh_ok_def split: option.splits)
  then show ?thesis using True by (intro that [of ?ih]) (simp_all add: fcmh_set_repl_nblks_def)
next
  case False
  then obtain x where x: "inoh_extras ih = Some x"
    using assms by (auto simp: inoh_ok_def split: option.splits)
  let ?ih = "ih\<lparr>inoh_extras := Some (x\<lparr>inox_repl_nblks := (inox_repl_nblks x)[idx - SL_DEF_REPLICAS := nblks]\<rparr>)\<rparr>"
  have "inoh_ok ?ih" using assms(1) x by (simp add: inoh_ok_def)
  then show ?thesis
    using False x assms ensure_loaded_ready [of ih env]
    by (intro that [of ?ih]) (simp_all add: fcmh_set_repl_nblks_def)
qed

lemma mds_inox_write_same:
  "inoh_extras ih = Some x \<Longrightarrow>
   \<exists>rc ih'. mds_inox_write env logf ih = Some (rc, ih') \<and>
     inoh_ino ih' = inoh_ino ih \<and> inoh_extras ih' = inoh_extras ih"
  by (cases "pwritev_inox env (inoh_mfh ih) x (crc64_inox env x) logf")
    (simp add: mds_inox_write_def)

lemma crc_write_back:
  assumes "inoh_ok ih" "idx < ino_nrepls (inoh_ino ih)"
  obtains ih' where "(if idx \<ge> SL_DEF_REPLICAS then map_option snd (mds_inox_write env False ih)
        else Some (snd (mds_inode_write env False ih))) = Some ih'"
    "inoh_ok ih'" "ino_nrepls (inoh_ino ih') = ino_nrepls (inoh_ino ih)"
proof (cases "idx \<ge> SL_DEF_REPLICAS")
  case True
  then obtain x where "inoh_extras ih = Some x"
    using assms by (auto simp: inoh_ok_def split: option.splits)
  then obtain rc ih' where w: "mds_inox_write env False ih = Some (rc, ih')"
    and s: "inoh_ino ih' = inoh_ino ih" "inoh_extras ih' = inoh_extras ih"
    using mds_inox_write_same by blast
  show ?thesis using True w assms(1) rlist_cong [OF s] by (intro that [of ih']) (simp_all add: s)
next
  case False
  obtain rc ih' where w: "mds_inode_write env False ih = (rc, ih')" by fastforce
  note s = mds_inode_write_same [OF w]
  show ?thesis using False w assms(1) rlist_cong [OF s] by (intro that [of ih']) (simp_all add: s)
qed

lemma crc_nblks_frame:
  assumes "inoh_ok (fcmh_inoh (mf s))" "idx < fcmh_2_nrepls (mf s)"
  shows "\<exists>s'. mds_bmap_crc_nblks be idx nblks s = Some s' \<and> mb s' = mb s \<and> mev s' = mev s \<and>
    fcmh_busy (mf s') = fcmh_busy (mf s) \<and> inoh_ok (fcmh_inoh (mf s')) \<and>
    fcmh_2_nrepls (mf s') = fcmh_2_nrepls (mf s)"
proof -
  let ?ih = "fcmh_inoh (mf s)" and ?env = "be_env be"
  obtain old where old: "fcmh_2_repl_nblks ?env ?ih idx = Some (old, ?ih)"
    using repl_nblks_loaded [OF assms] .
  obtain ih where ih: "fcmh_set_repl_nblks ?env ?ih idx nblks = Some ih" "inoh_ok ih"
    "ino_nrepls (inoh_ino ih) = ino_nrepls (inoh_ino ?ih)"
    using set_repl_nblks_loaded [OF assms] .
  obtain ih' where ih': "(if idx \<ge> SL_DEF_REPLICAS then map_option snd (mds_inox_write ?env False ih)
        else Some (snd (mds_inode_write ?env False ih))) = Some ih'"
    "inoh_ok ih'" "ino_nrepls (inoh_ino ih') = ino_nrepls (inoh_ino ih)"
    using crc_write_back [OF ih(2), of idx ?env] assms(2) ih(3) by auto
  obtain rc nb fs where sa: "mdsio_setattr be (fcmh_fid (mf s)) (fcmh_nblks (mf s) + nblks - old) None = (rc, nb, fs)"
    by (cases "mdsio_setattr be (fcmh_fid (mf s)) (fcmh_nblks (mf s) + nblks - old) None")
  show ?thesis
    using assms(1) ih' ih(3)
    by (cases "nblks = old"; cases "rc = 0")
      (simp_all add: mds_bmap_crc_nblks_def Let_def old ih(1) sa)
qed

lemma ios_lookup_found:
  assumes "inoh_ok ih" "ios_index ios (rlist ih) = Some i"
  shows "mds_repl_ios_lookup env cf ih ios 0 = Some (int i, ih)"
  using assms by (simp add: mds_repl_ios_lookup_def mds_repl_ios_search_start)

lemma crcup_apply_repls: "crcup_apply cs b = Some b' \<Longrightarrow> bmi_repls b' = bmi_repls b"
  by (induction cs b rule: crcup_apply.induct) auto

lemma write_crc_events:
  assumes "mds_bmap_write be (Log_Crc iosid crcup) s = Some (rc, s')" "rw_ok be"
  shows "(\<exists>js. mev s' = mev s @ map EvJournalBmapCrc js) \<and> bmi_repls (mb s') = bmi_repls (mb s)"
proof -
  let ?d = "bmi_2_ondisk (mb s)"
  obtain rc0 nb lg m where pw: "pwritev_bmap be (mst_mfh s) (bcm_bmapno (mb s)) ?d
      (crc64_bod be ?d) (Log_Crc iosid crcup \<noteq> Log_None) = (rc0, nb, lg, m)"
    using prod_cases4 by blast
  let ?s1 = "mst_set_mfh m (mst_set_rw (rw_reqrdlock be (bmi_rwlock (mb s))) s)"
  note u = assms(1) [unfolded mds_bmap_write_unfold [OF assms(2) pw]]
  obtain s2 where l: "(if lg then run_logf be (Log_Crc iosid crcup) else Some) ?s1 = Some s2"
    using u by (cases "(if lg then run_logf be (Log_Crc iosid crcup) else Some) ?s1")
      (simp_all split: if_splits)
  have s': "s' = (if rw_hasrdlock be (bmi_rwlock (mb s2)) then mst_set_rw RW_NONE s2 else s2)"
    using u unfolding l by (simp split: if_splits)
  have "(\<exists>js. mev s2 = mev s @ map EvJournalBmapCrc js) \<and> bmi_repls (mb s2) = bmi_repls (mb s)"
  proof (cases lg)
    case True
    then have "mdslog_bmap_crc iosid crcup ?s1 = Some s2" using l by (simp add: run_logf_def)
    then show ?thesis
      by (auto simp: mdslog_bmap_crc_def mst_set_rw_def mst_set_mfh_def Let_def)
  next
    case False
    then have "s2 = ?s1" using l by simp
    then show ?thesis by (simp add: mst_set_rw_def mst_set_mfh_def exI [of _ "[]"])
  qed
  then show ?thesis using s' by (simp add: mst_set_rw_def)
qed

subsection \<open>A sample environment\<close>

text \<open>
  A metafile of bmap slots with reads and writes that succeed, for the examples: the sample
  inode environment keeps its extras block in the handle, so the slot function lives beside it.
\<close>

definition be_ex :: "(nat \<Rightarrow> bmap_ondisk \<times> u64) bmenv" where
  "be_ex = \<lparr>be_env = \<lparr>PFLERR_ALREADY = 2001, PFLERR_BADCRC = 2002, crc64_ino = (\<lambda>_. 1),
       crc64_inox = (\<lambda>_. 1), preadv_inox = (\<lambda>m. (5, 0, inox_zero, 1)),
       pwritev_ino = (\<lambda>m _ _ _. (0, 72, m)), pwritev_inox = (\<lambda>m _ _ _. (0, 752, m))\<rparr>,
     be_cf = cf_ex, MAXVALMASK = mask, zm_siteids = [0], current_vfsid = 0,
     crc64_bod = (\<lambda>_. 1),
     preadv_bmap = (\<lambda>m n. (0, 1192, fst (m n), snd (m n))),
     pwritev_bmap = (\<lambda>m n d c l. (0, 1192, l, m(n := (d, c)))),
     mdsio_setattr = (\<lambda>_ b _. (0, b, 100)),
     rw_reqrdlock = (\<lambda>r. if r = RW_NONE then RW_RD else r), rw_hasrdlock = (\<lambda>r. r = RW_RD),
     rw_ureqlock = (\<lambda>old r. if old = RW_NONE then RW_NONE else r),
     opstate_normal = True, opstate_replay = False, sl_sys_upnonce = 1\<rparr>"

definition ms_ex :: "u32 list \<Rightarrow> u8 list \<Rightarrow> (nat \<Rightarrow> bmap_ondisk \<times> u64) mst" where
  "ms_ex rs r = \<lparr>mb = bmap_ex r,
     mf = \<lparr>fcmh_fid = 7, fcmh_isdir = False, fcmh_isreg = True, fcmh_fsz = 100, fcmh_nblks = 0,
       fcmh_busy = False,
       fcmh_inoh = \<lparr>inoh_ino = \<lparr>ino_version = 2, ino_flags = 0, ino_bsz = 0, ino_nrepls = length rs,
           ino_replpol = 0, ino_repls = take 4 (rs @ replicate 4 0), ino_repl_nblks = [0, 0, 0, 0]\<rparr>,
         inoh_extras = None, inoh_ino_new = False, inoh_ino_notloaded = False,
         inoh_mfh = (\<lambda>_. (bod_zero, 0))\<rparr>\<rparr>,
     mev = []\<rparr>"

text \<open>Two replicas, both valid: the six low bits of the first byte.\<close>

definition both_valid :: "u8 list" where
  "both_valid = 27 # replicate 23 0"

lemma both_valid_st: "repl_st both_valid 0 = BREPLST_VALID" "repl_st both_valid 1 = BREPLST_VALID"
  by (simp_all add: repl_st_def both_valid_def SL_REPL_GET_BMAP_IOS_STAT_def SL_REPLICA_MASK_def)

lemma ms_ex_ready:
  "walk_ready (ms_ex [11, 12] both_valid)" "brepls_ok (bmi_repls (mb (ms_ex [11, 12] both_valid)))"
  "inoh_ok (fcmh_inoh (mf (ms_ex [11, 12] both_valid)))"
  "fcmh_2_nrepls (mf (ms_ex [11, 12] both_valid)) = 2"
  "bmi_repls (mb (ms_ex [11, 12] both_valid)) = both_valid"
  by (simp_all add: ms_ex_def bmap_ex_def walk_ready_def brepls_ok_def inoh_ok_def both_valid_def
      SL_REPLICA_NBYTES_def)

lemma be_ex_ok: "rw_ok be_ex" "bmapio_ok be_ex"
  by (simp_all add: rw_ok_def bmapio_ok_def be_ex_def)

lemma be_ex_pwritev: "pwritev_bmap be_ex m n d c l = (0, BMAP_OD_SZ, l, m(n := (d, c)))"
  by (simp add: be_ex_def)

definition crcup_ex :: srm_bmap_crcup where
  "crcup_ex = \<lparr>cu_fsize = 5, cu_nblks = 1, cu_utimgen = 0, cu_extend = 0,
     cu_crcs = [\<lparr>crcw_crc = 9, crcw_slot = 3\<rparr>]\<rparr>"

definition ms_crc_ex :: "(nat \<Rightarrow> bmap_ondisk \<times> u64) mst" where
  "ms_crc_ex = (ms_ex [11, 12] both_valid)\<lparr>mb := (bmap_ex both_valid)\<lparr>bcm_crc_up := True\<rparr>\<rparr>"

lemma crc_update_ex_runs:
  "case mds_bmap_crc_update be_ex 11 crcup_ex ms_crc_ex of None \<Rightarrow> False | Some _ \<Rightarrow> True"
  by code_simp

subsection \<open>Properties\<close>

text \<open>
  C2: after a write to replica \<open>i\<close> no other replica of the file counts as valid. The
  invalidation does not abort; the written replica becomes valid if it was invalid or garbage and
  otherwise keeps its state, every other valid replica becomes queued for replication or garbage
  by the bmap's policy, a scheduled replication goes back to queued, every other state is kept,
  and the bmap's generation grows exactly when a valid replica was lost. The returned code is 0
  exactly when the written replica was invalid or valid before.
\<close>

theorem mds_repl_inv_except_sole_valid:
  fixes s :: "'m mst"
  assumes "walk_ready s" "brepls_ok (bmi_repls (mb s))" "inoh_ok (fcmh_inoh (mf s))"
    and "i < fcmh_2_nrepls (mf s)"
  shows "\<exists>rc s'. mds_repl_inv_except be i True s = Some (rc, s') \<and>
    (\<forall>k < fcmh_2_nrepls (mf s). repl_st (bmi_repls (mb s')) k =
       inv_state (bes_replpol (mb s)) i k (repl_st (bmi_repls (mb s)) k)) \<and>
    (\<forall>k < fcmh_2_nrepls (mf s). k \<noteq> i \<longrightarrow> repl_st (bmi_repls (mb s')) k \<noteq> BREPLST_VALID) \<and>
    (rc = 0 \<longleftrightarrow> repl_st (bmi_repls (mb s)) i \<in> {BREPLST_INVALID, BREPLST_VALID}) \<and>
    (rc = 0 \<longrightarrow> repl_st (bmi_repls (mb s')) i = BREPLST_VALID) \<and>
    bes_gen (mb s') = bes_gen (mb s) +
      (if \<exists>k < fcmh_2_nrepls (mf s). k \<noteq> i \<and> repl_st (bmi_repls (mb s)) k = BREPLST_VALID then 1 else 0)"
proof (rule inv_except_defer [OF assms, of be])
  fix s' :: "'m mst"
  let ?old = "repl_st (bmi_repls (mb s))" and ?new = "repl_st (bmi_repls (mb s'))"
  assume r: "mds_repl_inv_except be i True s =
       Some (let v = ?old i in if v = BREPLST_INVALID \<or> v = BREPLST_VALID then 0 else int v, s')"
    and st: "\<And>k. k < SL_MAX_REPLICAS \<Longrightarrow> ?new k =
       (if k < fcmh_2_nrepls (mf s) then inv_state (bes_replpol (mb s)) i k (?old k) else ?old k)"
    and gen: "bes_gen (mb s') = bes_gen (mb s) +
       (if \<exists>k < fcmh_2_nrepls (mf s). k \<noteq> i \<and> ?old k = BREPLST_VALID then 1 else 0)"
  have nr: "fcmh_2_nrepls (mf s) \<le> 64" using assms(3) by (simp add: inoh_ok_def)
  have new: "?new k = inv_state (bes_replpol (mb s)) i k (?old k)" if "k < fcmh_2_nrepls (mf s)" for k
    using that st [of k] nr by simp
  let ?rc = "let v = ?old i in if v = BREPLST_INVALID \<or> v = BREPLST_VALID then 0 else int v"
  have "?rc = 0 \<longleftrightarrow> ?old i \<in> {BREPLST_INVALID, BREPLST_VALID}" by (simp add: Let_def)
  moreover have "?new i = BREPLST_VALID" if "?rc = 0"
    using that new [OF assms(4)] by (auto simp: Let_def inv_state_def split: if_splits)
  moreover have "?new k \<noteq> BREPLST_VALID" if "k < fcmh_2_nrepls (mf s)" "k \<noteq> i" for k
    using that new [of k] by (auto simp: inv_state_def)
  ultimately show ?thesis
    using r gen new by (intro exI [of _ ?rc] exI [of _ s'] conjI) blast+
qed

theorem mds_repl_inv_except_sole_valid_witness:
  "\<exists>rc s'. mds_repl_inv_except be_ex 1 True (ms_ex [11, 12] both_valid) = Some (rc, s') \<and>
     rc = 0 \<and> repl_st (bmi_repls (mb s')) 1 = BREPLST_VALID \<and>
     repl_st (bmi_repls (mb s')) 0 \<noteq> BREPLST_VALID"
  using mds_repl_inv_except_sole_valid [OF ms_ex_ready(1,2,3), of 1 be_ex] both_valid_st
  by (auto simp: ms_ex_ready(4,5))



text \<open>
  C25: an incomplete read of a bmap is accepted without a look at its checksum. Whenever the
  metafile delivers some, but not all, bytes of the slot and the residency table in them names a
  replica with data, the read returns 0 with those bytes as the bmap, whatever the checksum.
\<close>

theorem mds_bmap_read_short_accepted:
  assumes "preadv_bmap be (mst_mfh s) (bcm_bmapno (mb s)) = (0, nb, d, od_crc)"
    and "0 < nb" "nb < BMAP_OD_SZ"
    and "has_data (s\<lparr>mb := bmi_set_ondisk d (mb s)\<rparr>)" "no_sched (s\<lparr>mb := bmi_set_ondisk d (mb s)\<rparr>)"
  shows "\<exists>s'. mds_bmap_read be False noautoinst rows s = Some (0, s') \<and> bmi_2_ondisk (mb s') = d"
proof -
  let ?s1 = "s\<lparr>mb := bmi_set_ondisk d (mb s)\<rparr>"
  have "no_sched (?s1\<lparr>mb := rd_released (mb ?s1)\<rparr>)"
    using assms(5) by (simp add: no_sched_def)
  from read_done_no_sched [OF this, of be rows] show ?thesis
    using assms(1-4) by (auto simp: mds_bmap_read_def ensure_valid_iff)
qed

theorem mds_bmap_read_short_accepted_witness:
  "\<exists>s'. mds_bmap_read (be_ex\<lparr>preadv_bmap := \<lambda>m n. (0, 200, bod_zero\<lparr>bod_repls := both_valid\<rparr>, 99)\<rparr>)
       False True [] (ms_ex [11, 12] (replicate 24 0)) = Some (0, s') \<and>
     bmi_2_ondisk (mb s') = bod_zero\<lparr>bod_repls := both_valid\<rparr>"
proof -
  let ?d = "bod_zero\<lparr>bod_repls := both_valid\<rparr>"
  let ?s = "ms_ex [11, 12] (replicate 24 0)"
  let ?be = "be_ex\<lparr>preadv_bmap := \<lambda>m n. (0, 200, bod_zero\<lparr>bod_repls := both_valid\<rparr>, 99)\<rparr>"
  let ?s1 = "?s\<lparr>mb := bmi_set_ondisk ?d (mb ?s)\<rparr>"
  have s1: "bmi_repls (mb ?s1) = both_valid" "fcmh_2_nrepls (mf ?s1) = 2"
    by (simp_all add: bmi_set_ondisk_def ms_ex_def)
  have "has_data ?s1" using both_valid_st s1 by (auto simp: has_data_def intro!: exI [of _ 0])
  moreover have "no_sched ?s1"
    using both_valid_st s1 by (auto simp: no_sched_def less_2_cases_iff)
  moreover have "preadv_bmap ?be (mst_mfh ?s) (bcm_bmapno (mb ?s)) = (0, 200, ?d, 99)" by simp
  ultimately show ?thesis
    using mds_bmap_read_short_accepted [of ?be ?s 200 ?d 99 True "[]"] by simp
qed

text \<open>
  C26: the journal records of a checksum update hold exactly the checksums of the update, in
  order, in records of 1 to 24 entries, and only the first of them announces the extension of
  the file.
\<close>

theorem mdslog_bmap_crc_batches:
  assumes "mdslog_bmap_crc iosid crcup s = Some s'"
  shows "\<exists>js. mev s' = mev s @ map EvJournalBmapCrc js \<and>
    concat (map sjbc_crc js) = cu_crcs crcup \<and>
    list_all (\<lambda>j. 1 \<le> length (sjbc_crc j) \<and> length (sjbc_crc j) \<le> SLJ_MDS_NCRCS \<and>
       sjbc_iosid j = iosid \<and> sjbc_bmapno j = bcm_bmapno (mb s)) js \<and>
    map sjbc_extend js = (if js = [] then [] else cu_extend crcup # replicate (length js - 1) 0) \<and>
    \<not> bcm_crc_up (mb s')"
proof -
  let ?j = "\<lparr>sjbc_fid = fcmh_fid (mf s), sjbc_bmapno = bcm_bmapno (mb s), sjbc_iosid = iosid,
              sjbc_utimgen = cu_utimgen crcup, sjbc_fsize = cu_fsize crcup,
              sjbc_aggr_nblks = fcmh_nblks (mf s), sjbc_repl_nblks = cu_nblks crcup,
              sjbc_extend = 0, sjbc_crc = []\<rparr>"
  let ?js = "mdslog_bmap_crc_loop ?j (cu_extend crcup) (cu_crcs crcup)"
  have fld: "list_all (\<lambda>e. sjbc_iosid e = sjbc_iosid j \<and> sjbc_bmapno e = sjbc_bmapno j)
      (mdslog_bmap_crc_loop j d cs)" for j d cs
  proof (induction j d cs rule: mdslog_bmap_crc_loop.induct)
    case (1 j d crcs)
    then show ?case using mdslog_bmap_crc_loop.simps [of j d crcs] by (simp add: Let_def)
  qed
  have ev: "mev s' = mev s @ map EvJournalBmapCrc ?js \<and> \<not> bcm_crc_up (mb s')"
    using assms by (auto simp: mdslog_bmap_crc_def mst_set_rw_def Let_def)
  have nil: "?js = [] \<longleftrightarrow> cu_crcs crcup = []"
    by (subst mdslog_bmap_crc_loop.simps) (simp add: Let_def)
  note p = mdslog_crc_loop_props [of ?j "cu_extend crcup" "cu_crcs crcup"]
  have "list_all (\<lambda>e. 1 \<le> length (sjbc_crc e) \<and> length (sjbc_crc e) \<le> SLJ_MDS_NCRCS \<and>
       sjbc_iosid e = iosid \<and> sjbc_bmapno e = bcm_bmapno (mb s)) ?js"
    using p fld [of ?j "cu_extend crcup" "cu_crcs crcup"]
    by (simp add: list_all_iff Suc_le_eq)
  with p ev nil show ?thesis by (intro exI [of _ ?js]) simp
qed

theorem mdslog_bmap_crc_batches_witness:
  "\<exists>s' js. mdslog_bmap_crc 11 \<lparr>cu_fsize = 5, cu_nblks = 1, cu_utimgen = 0, cu_extend = 1,
       cu_crcs = replicate 30 \<lparr>crcw_crc = 9, crcw_slot = 3\<rparr>\<rparr>
       ((ms_ex [11] both_valid)\<lparr>mb := (bmap_ex both_valid)\<lparr>bcm_crc_up := True\<rparr>\<rparr>) = Some s' \<and>
     mev s' = map EvJournalBmapCrc js \<and>
     concat (map sjbc_crc js) = replicate 30 \<lparr>crcw_crc = 9, crcw_slot = 3\<rparr>"
proof -
  let ?u = "\<lparr>cu_fsize = 5, cu_nblks = 1, cu_utimgen = 0, cu_extend = 1,
       cu_crcs = replicate 30 \<lparr>crcw_crc = 9, crcw_slot = 3\<rparr>\<rparr>"
  let ?s = "(ms_ex [11] both_valid)\<lparr>mb := (bmap_ex both_valid)\<lparr>bcm_crc_up := True\<rparr>\<rparr>"
  obtain s' where "mdslog_bmap_crc 11 ?u ?s = Some s'"
    by (simp add: mdslog_bmap_crc_def mst_set_rw_def Let_def)
  with mdslog_bmap_crc_batches [OF this] show ?thesis by (auto simp: ms_ex_def)
qed

text \<open>
  C27: the invalidation of other replicas by a checksum update is not journalled. When the
  writing I/O server's replica was invalid or valid before, every record the update adds to
  the journal is a checksum record, none holds the residency table, although each other replica
  that was valid lost its data: it is left queued or garbage.
\<close>

theorem mds_bmap_crc_update_unlogged:
  fixes s :: "'m mst"
  assumes "mds_bmap_crc_update be iosid crcup s = Some (rc, s')" "rw_ok be"
    and "slfid_to_vfsid (MAXVALMASK be) (zm_siteids be) (current_vfsid be) (fcmh_fid (mf s)) = Inr (current_vfsid be)"
    and "walk_ready s" "brepls_ok (bmi_repls (mb s))" "inoh_ok (fcmh_inoh (mf s))"
    and "ios_index iosid (rlist (fcmh_inoh (mf s))) = Some i"
    and "repl_st (bmi_repls (mb s)) i \<in> {BREPLST_INVALID, BREPLST_VALID}"
  shows "(\<exists>js. mev s' = mev s @ map EvJournalBmapCrc js) \<and>
    (\<forall>k < fcmh_2_nrepls (mf s). k \<noteq> i \<longrightarrow> repl_st (bmi_repls (mb s)) k = BREPLST_VALID \<longrightarrow>
       repl_st (bmi_repls (mb s')) k \<in> {BREPLST_REPL_QUEUED, BREPLST_GARBAGE})"
proof -
  let ?s0 = "s\<lparr>mf := (mf s)\<lparr>fcmh_busy := True\<rparr>\<rparr>"
  have i: "i < fcmh_2_nrepls (mf s)"
    using assms(6) ios_index_SomeD [OF assms(7)] length_rlist by metis
  then obtain s1 where s1: "mds_bmap_crc_nblks be i (cu_nblks crcup) ?s0 = Some s1"
    and m1: "mb s1 = mb s" "mev s1 = mev s" "fcmh_busy (mf s1)" "inoh_ok (fcmh_inoh (mf s1))"
      "fcmh_2_nrepls (mf s1) = fcmh_2_nrepls (mf s)"
    using crc_nblks_frame [of ?s0 i be] assms(6) by auto
  have r1: "walk_ready s1" using assms(4) m1 by (simp add: walk_ready_def)
  obtain s2 where s2: "mds_repl_inv_except be i True s1 = Some (0, s2)"
    and st2: "\<And>k. k < SL_MAX_REPLICAS \<Longrightarrow> k < fcmh_2_nrepls (mf s) \<Longrightarrow> repl_st (bmi_repls (mb s2)) k =
       inv_state (bes_replpol (mb s)) i k (repl_st (bmi_repls (mb s)) k)"
    and e2: "mev s2 = mev s"
    by (rule inv_except_defer [of s1 i be]) (use r1 assms(5,8) m1 i in \<open>auto simp: Let_def\<close>)
  let ?s3 = "s2\<lparr>mb := (mb s2)\<lparr>bmi_rwlock := RW_NONE, bcm_busy := False\<rparr>,
                mf := (mf s2)\<lparr>fcmh_busy := False\<rparr>\<rparr>"
  from assms(1) obtain b where "crcup_apply (cu_crcs crcup) ((mb ?s3)\<lparr>bmi_rwlock := RW_WR\<rparr>) = Some b"
    and w: "mds_bmap_write be (Log_Crc iosid crcup) (?s3\<lparr>mb := b\<rparr>) = Some (rc, s')"
    by (auto simp: mds_bmap_crc_update_def assms(3) ios_lookup_found [OF assms(6,7)] s1 s2
        bind_eq_Some_conv)
  then have b: "bmi_repls b = bmi_repls (mb s2)" using crcup_apply_repls by fastforce
  have nr: "fcmh_2_nrepls (mf s) \<le> 64" using assms(6) by (simp add: inoh_ok_def)
  from write_crc_events [OF w assms(2)] show ?thesis
    using b e2 st2 nr by (auto simp: inv_state_def)
qed

theorem mds_bmap_crc_update_unlogged_witness:
  "\<exists>rc s' js. mds_bmap_crc_update be_ex 11 crcup_ex ms_crc_ex = Some (rc, s') \<and>
     mev s' = map EvJournalBmapCrc js \<and>
     repl_st (bmi_repls (mb s')) 1 \<in> {BREPLST_REPL_QUEUED, BREPLST_GARBAGE}"
proof -
  obtain rc s' where r: "mds_bmap_crc_update be_ex 11 crcup_ex ms_crc_ex = Some (rc, s')"
    using crc_update_ex_runs by (auto split: option.splits)
  have m: "mf ms_crc_ex = mf (ms_ex [11, 12] both_valid)" "mev ms_crc_ex = []"
    "bmi_repls (mb ms_crc_ex) = both_valid" "walk_ready ms_crc_ex"
    by (simp_all add: ms_crc_ex_def ms_ex_def bmap_ex_def walk_ready_def)
  have v: "slfid_to_vfsid (MAXVALMASK be_ex) (zm_siteids be_ex) (current_vfsid be_ex)
      (fcmh_fid (mf ms_crc_ex)) = Inr (current_vfsid be_ex)"
    by (simp add: be_ex_def slfid_to_vfsid_def)
  have "ios_index 11 (rlist (fcmh_inoh (mf ms_crc_ex))) = Some 0"
    by (simp add: m(1) ms_ex_def rlist_def)
  from mds_bmap_crc_update_unlogged [OF r be_ex_ok(1) v m(4) _ _ this]
  have "(\<exists>js. mev s' = map EvJournalBmapCrc js) \<and>
     repl_st (bmi_repls (mb s')) 1 \<in> {BREPLST_REPL_QUEUED, BREPLST_GARBAGE}"
    using both_valid_st ms_ex_ready(2,3,4,5) by (simp add: m)
  with r show ?thesis by blast
qed

end
