(* ===== verification/Repl_Req.thy ===== *)
theory Repl_Req
  imports Bmap_Io
begin

text \<open>
  Replication requests of clients (\<open>mds_repl_addrq\<close>, \<open>mds_repl_delrq\<close> of
  \<open>slashd/repl_mds.c\<close>), the update of the scheduler's table that follows a residency change
  (\<open>slm_repl_upd_write\<close>) and the cache of bmaps of a file they go through
  (\<open>share/bmap.c\<close>). A file state holds the file, its cached bmaps by number and the events
  sent so far. The server has no mode change operation, so the cache only creates, reads and
  releases bmaps; waiting for other threads is not represented. The statements on the SQL table
  are events of the file at hand; whether an I/O server supports partial reclaim is a
  parameter. In an update event the priority \<open>- 1\<close> stands for SQL's NULL, which keeps the
  row's value.
\<close>

subsection \<open>The bmaps of a file (\<open>share/bmap.c\<close>)\<close>

record 'm fstate =
  fs_f :: "'m fcmh"
  fs_bm :: "nat \<Rightarrow> mds_bmap option"
  fs_ev :: "mds_event list"

definition bmap_new :: "nat \<Rightarrow> mds_bmap" where
  "bmap_new n = \<lparr>bcm_bmapno = n, bcm_opcnt = 1, bcm_busy = False, bcm_replmodwr = False,
     bcm_crc_up = False, bmi_crcstates = replicate SLASH_CRCS_PER_BMAP 0,
     bmi_repls = replicate SL_REPLICA_NBYTES 0, bes_crcs = replicate SLASH_CRCS_PER_BMAP 0,
     bes_gen = 0, bes_replpol = 0, bmi_rwlock = RW_NONE,
     bmi_orepls = replicate SL_REPLICA_NBYTES 0, bmi_sys_prio = 0, bmi_usr_prio = 0\<rparr>"

definition bmap_lookup_cache :: "nat \<Rightarrow> bool \<Rightarrow> 'm fstate \<Rightarrow> (mds_bmap option \<times> bool)" where
  "bmap_lookup_cache n doalloc fs =
     (case fs_bm fs n of
        Some b \<Rightarrow> (Some (b\<lparr>bcm_opcnt := bcm_opcnt b + 1\<rparr>), False)
      | None \<Rightarrow> if doalloc then (Some (bmap_new n), True) else (None, False))"

text \<open>Putting a bmap back: one without references is freed.\<close>

definition bmap_put :: "'m mst \<Rightarrow> 'm fstate \<Rightarrow> 'm fstate" where
  "bmap_put s fs = fs\<lparr>fs_f := mf s, fs_ev := mev s,
     fs_bm := (fs_bm fs)(bcm_bmapno (mb s) :=
       (if bcm_opcnt (mb s) = 0 then None else Some (mb s)))\<rparr>"

definition bmap_take :: "mds_bmap \<Rightarrow> 'm fstate \<Rightarrow> 'm mst" where
  "bmap_take b fs = \<lparr>mb = b, mf = fs_f fs, mev = fs_ev fs\<rparr>"

text \<open>
  \<open>_bmap_get\<close>: the error, with the reference given back, or the bmap. The rows of the
  update scheduler's table, which reading a bmap may ask for, are a function of its number.
\<close>

definition bmap_getf ::
    "'m bmenv \<Rightarrow> (nat \<Rightarrow> (u32 \<times> u32) list) \<Rightarrow> nat \<Rightarrow> bool \<Rightarrow> bool \<Rightarrow> bool \<Rightarrow> bool \<Rightarrow> 'm fstate \<Rightarrow>
     ((int + 'm mst) \<times> 'm fstate) option" where
  "bmap_getf be rows n create noretrieve noautoinst nodiskread fs =
     (case bmap_lookup_cache n create fs of
        (None, _) \<Rightarrow> Some (Inl ENOENT, fs)
      | (Some b, new) \<Rightarrow>
          if new \<and> \<not> noretrieve then do {
            (rc, s) \<leftarrow> mds_bmap_read be nodiskread noautoinst (rows n) (bmap_take b fs);
            if rc \<noteq> 0 then do {
              s \<leftarrow> bmap_op_done s;
              Some (Inl rc, bmap_put s fs)
            }
            else Some (Inr s, fs)
          }
          else Some (Inr (bmap_take b fs), fs))"

definition bmap_get ::
    "'m bmenv \<Rightarrow> (nat \<Rightarrow> (u32 \<times> u32) list) \<Rightarrow> nat \<Rightarrow> 'm fstate \<Rightarrow> ((int + 'm mst) \<times> 'm fstate) option" where
  "bmap_get be rows n fs = bmap_getf be rows n True False False False fs"

definition fcmh_nvalidbmaps :: "'m fcmh \<Rightarrow> nat" where
  "fcmh_nvalidbmaps f = (fcmh_fsz f + SLASH_BMAP_SIZE - 1) div SLASH_BMAP_SIZE"

definition mds_bmap_exists :: "'m fcmh \<Rightarrow> nat \<Rightarrow> bool" where
  "mds_bmap_exists f n = (if n = 0 then True else n < fcmh_nvalidbmaps f)"

definition bmapdesc_access_check :: "u32 \<Rightarrow> bool \<Rightarrow> u32 \<Rightarrow> int" where
  "bmapdesc_access_check sbd_ios wr ios_id = (if wr \<and> sbd_ios \<noteq> ios_id then EBADF else 0)"

subsection \<open>The scheduler's table after a residency change (\<open>slm_repl_upd_write\<close>)\<close>

datatype upd_class = Upd_None | Upd_Add | Upd_Del | Upd_Chg upsch_stat

definition upd_classify :: "nat \<Rightarrow> nat \<Rightarrow> bool \<Rightarrow> int \<Rightarrow> int \<Rightarrow> upd_class" where
  "upd_classify vold vnew preclaim_notsup sprio uprio =
     (if vold = vnew then Upd_None
      else if (vold \<noteq> BREPLST_REPL_SCHED \<and> vnew = BREPLST_REPL_QUEUED) \<or>
              (vnew = BREPLST_GARBAGE \<and> \<not> preclaim_notsup) then Upd_Add
      else if vold \<in> {BREPLST_REPL_QUEUED, BREPLST_REPL_SCHED, BREPLST_TRUNCPNDG_SCHED,
                      BREPLST_TRUNCPNDG, BREPLST_GARBAGE_SCHED, BREPLST_VALID} \<and>
              vnew \<in> {BREPLST_GARBAGE, BREPLST_VALID, BREPLST_INVALID} then Upd_Del
      else if vold = BREPLST_REPL_SCHED \<or> vold = BREPLST_TRUNCPNDG_SCHED then Upd_Chg St_Q
      else if (vold \<noteq> BREPLST_REPL_QUEUED \<and> vnew = BREPLST_REPL_QUEUED) \<or>
              (vold \<noteq> BREPLST_TRUNCPNDG \<and> vnew = BREPLST_TRUNCPNDG) then Upd_Chg St_S
      else if sprio \<noteq> - 1 \<or> uprio \<noteq> - 1 then Upd_Chg St_NULL
      else Upd_None)"

definition preclaim_notsup :: "sl_config \<Rightarrow> (u32 \<Rightarrow> bool) \<Rightarrow> u32 \<Rightarrow> bool" where
  "preclaim_notsup cf si_notsup resid =
     (case libsl_id2res cf resid of None \<Rightarrow> True | Some r \<Rightarrow> si_notsup (res_id r))"

fun upd_collect ::
    "'m bmenv \<Rightarrow> (u32 \<Rightarrow> bool) \<Rightarrow> int \<Rightarrow> int \<Rightarrow> nat list \<Rightarrow> 'm mst \<Rightarrow>
     ((u32 \<times> upd_class) list \<times> 'm mst) option" where
  "upd_collect be si_notsup sprio uprio [] s = Some ([], s)"
| "upd_collect be si_notsup sprio uprio (n # ns) s = do {
     (resid, ih) \<leftarrow> fcmh_2_repl (be_env be) (fcmh_inoh (mf s)) n;
     let s = s\<lparr>mf := (mf s)\<lparr>fcmh_inoh := ih\<rparr>\<rparr>;
     let vold = SL_REPL_GET_BMAP_IOS_STAT (bmi_orepls (mb s)) (n * SL_BITS_PER_REPLICA);
     let vnew = SL_REPL_GET_BMAP_IOS_STAT (bmi_repls (mb s)) (n * SL_BITS_PER_REPLICA);
     let c = upd_classify vold vnew (preclaim_notsup (be_cf be) si_notsup resid) sprio uprio;
     (cs, s) \<leftarrow> upd_collect be si_notsup sprio uprio ns s;
     Some ((resid, c) # cs, s)
   }"

text \<open>\<open>slm_upsch_insert\<close> ignores a resource that is not configured. A new row is in status Q.\<close>

definition slm_upsch_insert :: "sl_config \<Rightarrow> nat \<Rightarrow> u32 \<Rightarrow> int \<Rightarrow> int \<Rightarrow> mds_event list" where
  "slm_upsch_insert cf bno resid sprio uprio =
     (case libsl_id2res cf resid of None \<Rightarrow> [] | Some r \<Rightarrow> [EvUpschInsert bno resid sprio uprio, EvUpschPagein (res_id r)])"

definition upd_events :: "sl_config \<Rightarrow> nat \<Rightarrow> int \<Rightarrow> int \<Rightarrow> (u32 \<times> upd_class) list \<Rightarrow> mds_event list" where
  "upd_events cf bno sprio uprio cs =
     concat (map (\<lambda>(r, c). if c = Upd_Add then slm_upsch_insert cf bno r sprio uprio else []) cs) @
     concat (map (\<lambda>(r, c). if c = Upd_Del then [EvUpschDelete bno r] else []) cs) @
     concat (map (\<lambda>(r, c). case c of Upd_Chg st \<Rightarrow> [EvUpschUpdate bno r st sprio uprio] | _ \<Rightarrow> []) cs)"

definition slm_repl_upd_write :: "'m bmenv \<Rightarrow> (u32 \<Rightarrow> bool) \<Rightarrow> bool \<Rightarrow> 'm mst \<Rightarrow> 'm mst option" where
  "slm_repl_upd_write be si_notsup rel s = do {
     let sprio = bmi_sys_prio (mb s);
     let uprio = bmi_usr_prio (mb s);
     let s = s\<lparr>mf := (mf s)\<lparr>fcmh_busy := True\<rparr>, mb := (mb s)\<lparr>bcm_busy := True\<rparr>\<rparr>;
     let lk = bmi_rwlock (mb s);
     let s = mst_set_rw (rw_reqrdlock be lk) s;
     (cs, s) \<leftarrow> upd_collect be si_notsup sprio uprio [0..<fcmh_2_nrepls (mf s)] s;
     let s = s\<lparr>mev := mev s @ upd_events (be_cf be) (bcm_bmapno (mb s)) sprio uprio cs,
               mb := (mb s)\<lparr>bmi_sys_prio := - 1, bmi_usr_prio := - 1\<rparr>\<rparr>;
     if rel
     then bmap_op_done (s\<lparr>mf := (mf s)\<lparr>fcmh_busy := False\<rparr>,
            mb := (mb s)\<lparr>bmi_rwlock := rw_ureqlock be lk (bmi_rwlock (mb s)), bcm_replmodwr := False,
                         bcm_busy := False\<rparr>\<rparr>)
     else Some s
   }"

subsection \<open>Adding replicas (\<open>mds_repl_addrq\<close>)\<close>

abbreviation (input) F_LOG :: int where "F_LOG \<equiv> 1"
abbreviation (input) F_REPORT :: int where "F_REPORT \<equiv> 2"
abbreviation (input) F_ALREADY :: int where "F_ALREADY \<equiv> 4"

definition addrq_tract :: "int list" where
  "addrq_tract = (brepls_init (- 1))[BREPLST_INVALID := int BREPLST_REPL_QUEUED,
     BREPLST_REPL_SCHED := int BREPLST_REPL_QUEUED, BREPLST_GARBAGE := int BREPLST_REPL_QUEUED,
     BREPLST_GARBAGE_SCHED := int BREPLST_REPL_QUEUED]"

definition addrq_retifzero :: "int list" where
  "addrq_retifzero = (brepls_init 0)[BREPLST_VALID := 1]"

definition addrq_all_retifset :: "int list" where
  "addrq_all_retifset = (brepls_init 0)[BREPLST_INVALID := F_LOG OR F_REPORT,
     BREPLST_REPL_SCHED := F_LOG, BREPLST_VALID := F_REPORT, BREPLST_GARBAGE := F_LOG OR F_REPORT,
     BREPLST_GARBAGE_SCHED := F_LOG OR F_REPORT]"

definition addrq_retifset :: "int list" where
  "addrq_retifset = (brepls_init 0)[BREPLST_INVALID := F_LOG, BREPLST_REPL_SCHED := F_LOG,
     BREPLST_REPL_QUEUED := F_ALREADY, BREPLST_VALID := F_ALREADY, BREPLST_GARBAGE := F_LOG,
     BREPLST_GARBAGE_SCHED := F_LOG]"

definition set_prios :: "int \<Rightarrow> int \<Rightarrow> 'm mst \<Rightarrow> 'm mst" where
  "set_prios sys_prio usr_prio s =
     s\<lparr>mb := (mb s)\<lparr>bmi_sys_prio := sys_prio, bmi_usr_prio := usr_prio\<rparr>\<rparr>"

text \<open>The branch for one bmap, from the query for valid replicas to the release.\<close>

definition mds_repl_addrq_bmap ::
    "'m bmenv \<Rightarrow> (u32 \<Rightarrow> bool) \<Rightarrow> nat list \<Rightarrow> int \<Rightarrow> int \<Rightarrow> 'm mst \<Rightarrow> (int \<times> 'm mst) option" where
  "mds_repl_addrq_bmap be si_notsup iosidx sys_prio usr_prio s = do {
     (v, s, _) \<leftarrow> mds_repl_bmap_walk None (Some addrq_retifzero) REPL_WALKF_SCIRCUIT [] None (s, ());
     if v = 0 then do { s \<leftarrow> bmap_op_done s; Some (- SLERR_BMAP_ZERO, s) }
     else do {
       (rc, s, _) \<leftarrow> mds_repl_bmap_walk (Some addrq_tract) (Some addrq_retifset) 0 iosidx None (s, ());
       let s = set_prios sys_prio usr_prio s;
       (rc, s) \<leftarrow> (if rc AND F_LOG \<noteq> 0 then do {
                    (_, s) \<leftarrow> mds_bmap_write be Log_Repls s;
                    Some (0, s)
                  } else do {
                    s \<leftarrow> (if sys_prio \<noteq> - 1 \<or> usr_prio \<noteq> - 1
                         then slm_repl_upd_write be si_notsup False s else Some s);
                    Some (if rc AND F_ALREADY \<noteq> 0 then - PFLERR_ALREADY (be_env be)
                          else - SLERR_REPL_NOT_ACT, s)
                  });
       s \<leftarrow> slm_repl_bmap_rel s;
       Some (rc, s)
     }
   }"

text \<open>The body of the loop over all bmaps, for a bmap that was obtained.\<close>

definition addrq_inact :: "int list" where
  "addrq_inact = (brepls_init 1)[BREPLST_VALID := 0]"

definition mds_repl_addrq_each ::
    "'m bmenv \<Rightarrow> (u32 \<Rightarrow> bool) \<Rightarrow> nat list \<Rightarrow> int \<Rightarrow> int \<Rightarrow> bool \<times> bool \<Rightarrow> 'm mst \<Rightarrow>
     ((bool \<times> bool) \<times> 'm mst) option" where
  "mds_repl_addrq_each be si_notsup iosidx sys_prio usr_prio = (\<lambda>(some_act, all_act) s. do {
     (v, s, _) \<leftarrow> mds_repl_bmap_walk None (Some addrq_retifzero) REPL_WALKF_SCIRCUIT [] None (s, ());
     if v = 0 then do { s \<leftarrow> bmap_op_done s; Some ((some_act, all_act), s) }
     else do {
       (i, s, _) \<leftarrow> mds_repl_bmap_walk (Some addrq_tract) (Some addrq_all_retifset) 0 iosidx None (s, ());
       let some_act = (some_act \<or> i AND F_REPORT \<noteq> 0);
       (all_act, s) \<leftarrow> (if all_act then do {
            (r, s, _) \<leftarrow> mds_repl_bmap_walk None (Some addrq_inact) REPL_WALKF_SCIRCUIT iosidx None (s, ());
            Some (r = 0, s)
          } else Some (False, s));
       let s = set_prios sys_prio usr_prio s;
       s \<leftarrow> (if i AND F_LOG \<noteq> 0 then map_option snd (mds_bmap_write be Log_Repls s)
            else if sys_prio \<noteq> - 1 \<or> usr_prio \<noteq> - 1 then slm_repl_upd_write be si_notsup False s
            else Some s);
       s \<leftarrow> slm_repl_bmap_rel s;
       Some ((some_act, all_act), s)
     }
   })"

text \<open>
  A loop over bmaps \<open>n, n + 1, ...\<close> that skips those that cannot be obtained. The code
  evaluates its bound before each iteration; no body changes the length of the file, so the
  model counts the iterations that are left.
\<close>

fun for_bmaps ::
    "'m bmenv \<Rightarrow> (nat \<Rightarrow> (u32 \<times> u32) list) \<Rightarrow> ('a \<Rightarrow> 'm mst \<Rightarrow> ('a \<times> 'm mst) option) \<Rightarrow>
     nat \<Rightarrow> nat \<Rightarrow> 'a \<Rightarrow> 'm fstate \<Rightarrow> ('a \<times> 'm fstate) option" where
  "for_bmaps be rows body 0 n a fs = Some (a, fs)"
| "for_bmaps be rows body (Suc left) n a fs = do {
     (r, fs) \<leftarrow> bmap_get be rows n fs;
     (a, fs) \<leftarrow> (case r of Inl _ \<Rightarrow> Some (a, fs)
                | Inr s \<Rightarrow> do { (a, s) \<leftarrow> body a s; Some (a, bmap_put s fs) });
     for_bmaps be rows body left (n + 1) a fs
   }"

abbreviation (input) BMAPNO_ALL :: nat where "BMAPNO_ALL \<equiv> 4294967295"

definition with_bmap ::
    "'m bmenv \<Rightarrow> (nat \<Rightarrow> (u32 \<times> u32) list) \<Rightarrow> nat \<Rightarrow> ('m mst \<Rightarrow> (int \<times> 'm mst) option) \<Rightarrow> 'm fstate \<Rightarrow>
     (int \<times> 'm fstate) option" where
  "with_bmap be rows n body fs = do {
     (r, fs) \<leftarrow> bmap_get be rows n fs;
     case r of Inl rc \<Rightarrow> Some (- rc, fs)
     | Inr s \<Rightarrow> do { (rc, s) \<leftarrow> body s; Some (rc, bmap_put s fs) }
   }"

definition fs_set_inoh :: "'m slm_inoh \<Rightarrow> 'm fstate \<Rightarrow> 'm fstate" where
  "fs_set_inoh ih fs = fs\<lparr>fs_f := (fs_f fs)\<lparr>fcmh_inoh := ih\<rparr>\<rparr>"

text \<open>The request, for a file that was found.\<close>

definition mds_repl_addrq ::
    "'m bmenv \<Rightarrow> (u32 \<Rightarrow> bool) \<Rightarrow> (nat \<Rightarrow> (u32 \<times> u32) list) \<Rightarrow> nat \<Rightarrow> u32 list \<Rightarrow> int \<Rightarrow> int \<Rightarrow>
     'm fstate \<Rightarrow> (int \<times> 'm fstate) option" where
  "mds_repl_addrq be si_notsup rows bmapno iosv sys_prio usr_prio fs =
     (if iosv = [] \<or> length iosv > SL_MAX_REPLICAS then Some (- EINVAL, fs)
      else if \<not> fcmh_isdir (fs_f fs) \<and> \<not> fcmh_isreg (fs_f fs) then Some (- EOPNOTSUPP, fs)
      else do {
        (rc, iosidx, ih) \<leftarrow> mds_repl_iosv_lookup (be_env be) (be_cf be) (fcmh_inoh (fs_f fs)) iosv
                              IOSV_LOOKUPF_ADD;
        let fs = fs_set_inoh ih fs;
        if rc \<noteq> 0 then Some (- rc, fs)
        else if fcmh_isdir (fs_f fs) then Some (0, fs)
        else do {
          (rc, fs) \<leftarrow>
            (if bmapno = BMAPNO_ALL then do {
               let nb = fcmh_nvalidbmaps (fs_f fs);
               ((some_act, all_act), fs) \<leftarrow> for_bmaps be rows
                  (mds_repl_addrq_each be si_notsup iosidx sys_prio usr_prio) nb 0 (False, True) fs;
               Some (if nb > 0 \<and> \<not> some_act then - PFLERR_ALREADY (be_env be)
                     else if nb > 0 \<and> all_act then - SLERR_REPL_ALREADY_ACT else 0, fs)
             }
             else if mds_bmap_exists (fs_f fs) bmapno
             then with_bmap be rows bmapno
                    (mds_repl_addrq_bmap be si_notsup iosidx sys_prio usr_prio) fs
             else Some (- SLERR_BMAP_INVALID, fs));
          Some (if rc = - SLERR_BMAP_ZERO then 0 else rc, fs)
        }
      })"

subsection \<open>Removing replicas (\<open>mds_repl_delrq\<close>)\<close>

definition slm_repl_countvalid_cb :: "nat list \<Rightarrow> ('m, nat) walkcb" where
  "slm_repl_countvalid_cb idx iosidx val = (\<lambda>(s, n).
     if val \<noteq> BREPLST_VALID then Some (s, n)
     else if list_ex (\<lambda>j. iosidx = j) idx then Some (s, n)
     else Some (s, n + 1))"

definition delrq_tract :: "int list" where
  "delrq_tract = (brepls_init (- 1))[BREPLST_REPL_QUEUED := int BREPLST_GARBAGE,
     BREPLST_REPL_SCHED := int BREPLST_GARBAGE, BREPLST_VALID := int BREPLST_GARBAGE]"

definition delrq_all_retifset :: "int list" where
  "delrq_all_retifset = (brepls_init 0)[BREPLST_VALID := 1, BREPLST_REPL_QUEUED := 1,
     BREPLST_REPL_SCHED := 1]"

definition delrq_retifset :: "int list" where
  "delrq_retifset = (brepls_init 0)[BREPLST_GARBAGE := F_REPORT, BREPLST_GARBAGE_SCHED := F_REPORT,
     BREPLST_REPL_QUEUED := F_LOG, BREPLST_REPL_SCHED := F_LOG, BREPLST_VALID := F_LOG]"

definition mds_repl_delrq_bmap :: "'m bmenv \<Rightarrow> nat list \<Rightarrow> 'm mst \<Rightarrow> (int \<times> 'm mst) option" where
  "mds_repl_delrq_bmap be iosidx s = do {
     (_, s, n) \<leftarrow> mds_repl_bmap_walk (Some (brepls_init (- 1))) None 0 []
                    (Some (slm_repl_countvalid_cb iosidx)) (s, 0);
     (rc, s) \<leftarrow> (if n > 0 then do {
          (rc, s, _) \<leftarrow> mds_repl_bmap_walk (Some delrq_tract) (Some delrq_retifset) 0 iosidx None (s, ());
          if rc AND F_LOG \<noteq> 0 then do { (_, s) \<leftarrow> mds_bmap_write be Log_Repls s; Some (0, s) }
          else Some (if rc AND F_REPORT \<noteq> 0 then - EINVAL else - SLERR_REPL_NOT_ACT, s)
        } else Some (- SLERR_LASTREPL, s));
     s \<leftarrow> slm_repl_bmap_rel s;
     Some (rc, s)
   }"

text \<open>The loop over all bmaps keeps the reply and the number of bmaps with no replica left.\<close>

definition mds_repl_delrq_each ::
    "'m bmenv \<Rightarrow> nat list \<Rightarrow> int \<times> nat \<Rightarrow> 'm mst \<Rightarrow> ((int \<times> nat) \<times> 'm mst) option" where
  "mds_repl_delrq_each be iosidx = (\<lambda>(rc, all_invalid) s. do {
     (_, s, n) \<leftarrow> mds_repl_bmap_walk (Some (brepls_init (- 1))) None 0 []
                    (Some (slm_repl_countvalid_cb iosidx)) (s, 0);
     ((rc, all_invalid), s) \<leftarrow> (if n > 0 then do {
          (r, s, _) \<leftarrow> mds_repl_bmap_walk (Some delrq_tract) (Some delrq_all_retifset) 0 iosidx None (s, ());
          if r \<noteq> 0 then do { (_, s) \<leftarrow> mds_bmap_write be Log_Repls s; Some ((0, all_invalid), s) }
          else Some ((rc, all_invalid), s)
        } else Some ((rc, all_invalid + 1), s));
     s \<leftarrow> slm_repl_bmap_rel s;
     Some ((rc, all_invalid), s)
   })"

definition mds_repl_delrq ::
    "'m bmenv \<Rightarrow> (nat \<Rightarrow> (u32 \<times> u32) list) \<Rightarrow> nat \<Rightarrow> u32 list \<Rightarrow> 'm fstate \<Rightarrow> (int \<times> 'm fstate) option" where
  "mds_repl_delrq be rows bmapno iosv fs =
     (if iosv = [] \<or> length iosv > SL_MAX_REPLICAS then Some (- EINVAL, fs)
      else do {
        (rc, iosidx, ih) \<leftarrow> mds_repl_iosv_lookup (be_env be) (be_cf be) (fcmh_inoh (fs_f fs)) iosv
                              (if fcmh_isdir (fs_f fs) then IOSV_LOOKUPF_DEL else 0);
        let fs = fs_set_inoh ih fs;
        if rc \<noteq> 0 then Some (- rc, fs)
        else if fcmh_isdir (fs_f fs) then Some (0, fs)
        else if bmapno = BMAPNO_ALL then do {
          let nb = fcmh_nvalidbmaps (fs_f fs);
          ((rc, all_invalid), fs) \<leftarrow> for_bmaps be rows (mds_repl_delrq_each be iosidx) nb 0
                                       (- SLERR_REPL_NOT_ACT, 0) fs;
          Some (if all_invalid = nb then - SLERR_LASTREPL else rc, fs)
        }
        else if mds_bmap_exists (fs_f fs) bmapno
        then with_bmap be rows bmapno (mds_repl_delrq_bmap be iosidx) fs
        else Some (- SLERR_BMAP_INVALID, fs)
      })"

subsection \<open>Lemmas\<close>

lemma noop_tract: "v < 8 \<Longrightarrow> brepls_init (- 1) ! v = - 1"
  using less_8_cases [of v] by (auto simp: brepls_init_list)

text \<open>Counting the valid replicas that are not to be removed.\<close>

lemma countvalid_run:
  "run_cb (Some (slm_repl_countvalid_cb idx)) k v (s, n) =
     Some (s, if v = BREPLST_VALID \<and> k \<notin> set idx then n + 1 else n)"
  by (auto simp: run_cb_def slm_repl_countvalid_cb_def list_ex_iff)

definition busy_wr :: "'m mst \<Rightarrow> 'm mst" where
  "busy_wr s = s\<lparr>mb := wrlocked (mb s), mf := (mf s)\<lparr>fcmh_busy := True\<rparr>\<rparr>"

lemma busy_wr_simps [simp]:
  "mb (busy_wr s) = wrlocked (mb s)" "mev (busy_wr s) = mev s" "fcmh_busy (mf (busy_wr s))"
  "fcmh_inoh (mf (busy_wr s)) = fcmh_inoh (mf s)" "busy_wr (busy_wr s) = busy_wr s"
  by (simp_all add: busy_wr_def)

lemma wrlocked_opcnt [simp]: "bcm_opcnt (wrlocked b) = bcm_opcnt b"
  by (simp add: wrlocked_def)

lemma busy_wr_ready: "walk_ready s \<Longrightarrow> walk_ready (busy_wr s)"
  by (auto simp: walk_ready_def busy_wr_def wrlocked_def)

lemma countvalid_loop:
  assumes "walk_ready s"
  shows "repl_walk_loop (Some (brepls_init (- 1))) None 0 (Some (slm_repl_countvalid_cb idx)) ks 0 (s, n) =
    Some (0, if ks = [] then s else busy_wr s,
      n + length (filter (\<lambda>k. repl_st (bmi_repls (mb s)) k = BREPLST_VALID \<and> k \<notin> set idx) ks))"
  using assms
proof (induction ks arbitrary: s n)
  case (Cons k ks)
  have t: "brepls_init (- 1) ! repl_st r k = - 1" for r k
    by (rule noop_tract) (rule brt.tget_less)
  have "mds_repl_bmap_apply (Some (brepls_init (- 1))) None 0 (k * SL_BITS_PER_REPLICA) True
      (Some (slm_repl_countvalid_cb idx)) (s, n) =
    Some (0, False, busy_wr s,
      if repl_st (bmi_repls (mb s)) k = BREPLST_VALID \<and> k \<notin> set idx then n + 1 else n)"
    using Cons.prems
    by (simp add: apply_tract_unfold countvalid_run t ret_val_def busy_wr_def Let_def)
  then show ?case
    using Cons.IH [OF busy_wr_ready [OF Cons.prems]] by (simp add: Let_def)
qed simp

lemma countvalid_walk:
  assumes "walk_ready s"
  shows "mds_repl_bmap_walk (Some (brepls_init (- 1))) None 0 [] (Some (slm_repl_countvalid_cb idx)) (s, 0) =
    Some (0, if fcmh_2_nrepls (mf s) = 0 then s else busy_wr s,
      card {k. k < fcmh_2_nrepls (mf s) \<and> repl_st (bmi_repls (mb s)) k = BREPLST_VALID \<and> k \<notin> set idx})"
proof -
  have "length (filter P [0..<n]) = card {k. k < n \<and> P k}" for P n
    using distinct_length_filter [of "[0..<n]" P] by (simp add: Collect_conj_eq Int_commute atLeast0LessThan lessThan_def)
  then show ?thesis
    using assms by (simp add: mds_repl_bmap_walk_def repl_walk_indexes_def countvalid_loop)
qed

text \<open>Writing the bmap with its journal record, and releasing it.\<close>

definition rel_ok :: "'m mst \<Rightarrow> bool" where
  "rel_ok s \<longleftrightarrow> bcm_opcnt (mb s) > 0 \<and>
     (bmi_rwlock (mb s) = RW_WR \<and> \<not> bcm_replmodwr (mb s) \<longrightarrow> bcm_busy (mb s) \<and> fcmh_busy (mf s))"

lemma rel_defined:
  assumes "rel_ok s"
  shows "\<exists>s'. slm_repl_bmap_rel s = Some s' \<and> bmi_repls (mb s') = bmi_repls (mb s) \<and>
    mev s' = mev s \<and> bcm_opcnt (mb s') = bcm_opcnt (mb s) - 1"
  using assms by (auto simp: rel_ok_def slm_repl_bmap_rel_def bmap_op_done_def)

lemma write_repls_defined:
  assumes "rw_ok be" "opstate_normal be" "has_data s" "bcm_busy (mb s)" "fcmh_busy (mf s)"
    "bcm_opcnt (mb s) > 0"
  shows "\<exists>rc s'. mds_bmap_write be Log_Repls s = Some (rc, s') \<and> bmi_repls (mb s') = bmi_repls (mb s) \<and>
    rel_ok s'"
proof -
  let ?d = "bmi_2_ondisk (mb s)"
  obtain rc0 nb lg m where pw: "pwritev_bmap be (mst_mfh s) (bcm_bmapno (mb s)) ?d
      (crc64_bod be ?d) (Log_Repls \<noteq> Log_None) = (rc0, nb, lg, m)"
    using prod_cases4 by blast
  let ?s1 = "mst_set_mfh m (mst_set_rw (rw_reqrdlock be (bmi_rwlock (mb s))) s)"
  obtain s2 where s2: "(if lg then run_logf be Log_Repls else Some) ?s1 = Some s2"
      "bmi_repls (mb s2) = bmi_repls (mb s)" "rel_ok s2"
    using assms
    by (cases lg) (simp_all add: run_logf_def mdslog_bmap_repls_def mdslogfill_bmap_repls_def
        mst_set_mfh_def mst_set_rw_def rel_ok_def)
  let ?s3 = "if rw_hasrdlock be (bmi_rwlock (mb s2)) then mst_set_rw RW_NONE s2 else s2"
  have "mds_bmap_write be Log_Repls s =
      Some (if rc0 = 0 \<and> nb \<noteq> BMAP_OD_SZ then SLERR_SHORTIO else rc0, ?s3)"
    by (simp add: mds_bmap_write_unfold [OF assms(1) pw] assms(3) s2(1))
  moreover have "bmi_repls (mb ?s3) = bmi_repls (mb s)" "rel_ok ?s3"
    using s2(2,3) by (simp_all add: mst_set_rw_def rel_ok_def)
  ultimately show ?thesis by (intro exI conjI)
qed

text \<open>Translating listed replicas, or all.\<close>

lemma index_walk:
  fixes s :: "'m mst"
  assumes "walk_ready s" "brepls_ok (bmi_repls (mb s))" "tract_ok tr" "walk_ks_ok ks" "ks \<noteq> []"
    and ix: "repl_walk_indexes (fcmh_2_nrepls (mf s)) 0 iosidx = ks"
  obtains s' where
    "mds_repl_bmap_walk (Some tr) ret 0 iosidx None (s, ()) =
       Some (ret_last ret (bmi_repls (mb s)) ks 0, s', ())"
    "\<exists>r. mb s' = wrlocked (mb s)\<lparr>bmi_repls := r\<rparr>"
    "\<And>k. k < SL_MAX_REPLICAS \<Longrightarrow> repl_st (bmi_repls (mb s')) k =
       (if k \<in> set ks then tract_step tr (repl_st (bmi_repls (mb s)) k)
        else repl_st (bmi_repls (mb s)) k)"
    "walk_ready s'" "brepls_ok (bmi_repls (mb s'))"
    "fcmh_inoh (mf s') = fcmh_inoh (mf s)" "mev s' = mev s"
proof -
  let ?I = "\<lambda>f. fcmh_inoh f = fcmh_inoh (mf s)"
  obtain rc s' where w: "repl_walk_loop (Some tr) ret 0 None ks 0 (s, ()) = Some (rc, s', ())"
    and m: "mb s' = wrlocked (mb s)\<lparr>bmi_repls := fold (brt.trans1 tr) ks (bmi_repls (mb s))\<rparr>"
    and r: "rc = ret_last ret (bmi_repls (mb s)) ks 0"
      "walk_ready s'" "?I (mf s')" "mev s' = mev s" "brepls_ok (bmi_repls (mb s'))"
  proof (rule walk_loop_tract_full [OF assms(1-3), of 0 ks None ?I ret "()"])
    show "cb_runs None ?I ks" by (rule cb_runs_None_inv) simp
  qed (use assms(4,5) in auto)
  show ?thesis
  proof (rule that [of s'])
    show "mds_repl_bmap_walk (Some tr) ret 0 iosidx None (s, ()) =
       Some (ret_last ret (bmi_repls (mb s)) ks 0, s', ())"
      using w r(1) ix by (simp add: mds_repl_bmap_walk_def)
    show "repl_st (bmi_repls (mb s')) k = (if k \<in> set ks
        then tract_step tr (repl_st (bmi_repls (mb s)) k) else repl_st (bmi_repls (mb s)) k)"
      if "k < SL_MAX_REPLICAS" for k
      using that m brt.tget_fold_trans1 [OF assms(2,3)] assms(4) by (simp add: walk_ks_ok_def)
  qed (use m r in \<open>simp_all add: exI [of _ "fold (brt.trans1 tr) ks (bmi_repls (mb s))"]\<close>)
qed

lemma listed_walk:
  fixes s :: "'m mst"
  assumes "walk_ready s" "brepls_ok (bmi_repls (mb s))" "tract_ok tr" "walk_ks_ok iosidx" "iosidx \<noteq> []"
  obtains s' where
    "mds_repl_bmap_walk (Some tr) ret 0 iosidx None (s, ()) =
       Some (ret_last ret (bmi_repls (mb s)) iosidx 0, s', ())"
    "\<And>k. k < SL_MAX_REPLICAS \<Longrightarrow> repl_st (bmi_repls (mb s')) k =
       (if k \<in> set iosidx then tract_step tr (repl_st (bmi_repls (mb s)) k)
        else repl_st (bmi_repls (mb s)) k)"
    "walk_ready s'" "bmi_rwlock (mb s') = RW_WR"
    "fcmh_inoh (mf s') = fcmh_inoh (mf s)" "bcm_opcnt (mb s') = bcm_opcnt (mb s)"
proof (rule index_walk [OF assms, of iosidx ret], goal_cases)
  case (2 s')
  then have "bmi_rwlock (mb s') = RW_WR \<and> bcm_opcnt (mb s') = bcm_opcnt (mb s)"
    by auto
  with 2 show ?case by (intro that [of s']) simp_all
qed (simp add: repl_walk_indexes_def assms(5))

lemma ready_busy:
  "walk_ready s \<Longrightarrow> bmi_rwlock (mb s) = RW_WR \<Longrightarrow> bcm_busy (mb s) \<and> fcmh_busy (mf s)"
  by (simp add: walk_ready_def)

lemma ready_rel_ok: "walk_ready s \<Longrightarrow> bcm_opcnt (mb s) > 0 \<Longrightarrow> rel_ok s"
  by (simp add: walk_ready_def rel_ok_def)

lemma valid_has_data:
  "k < fcmh_2_nrepls (mf s) \<Longrightarrow> repl_st (bmi_repls (mb s)) k = BREPLST_VALID \<Longrightarrow> has_data s"
  by (auto simp: has_data_def)

lemma delrq_tract_step:
  "v < 8 \<Longrightarrow> tract_step delrq_tract v =
     (if v \<in> {BREPLST_REPL_QUEUED, BREPLST_REPL_SCHED, BREPLST_VALID} then BREPLST_GARBAGE else v)"
  using less_8_cases [of v] by (auto simp: tract_step_def delrq_tract_def brepls_init_list)

lemma addrq_tract_step:
  "v < 8 \<Longrightarrow> tract_step addrq_tract v =
     (if v \<in> {BREPLST_INVALID, BREPLST_REPL_SCHED, BREPLST_GARBAGE, BREPLST_GARBAGE_SCHED}
      then BREPLST_REPL_QUEUED else v)"
  using less_8_cases [of v] by (auto simp: tract_step_def addrq_tract_def brepls_init_list)

lemma delrq_ret:
  "v < 8 \<Longrightarrow> ret_val (Some delrq_retifset) v =
     (if v \<in> {BREPLST_REPL_QUEUED, BREPLST_REPL_SCHED, BREPLST_VALID} then F_LOG
      else if v \<in> {BREPLST_GARBAGE, BREPLST_GARBAGE_SCHED} then F_REPORT else 0)"
  using less_8_cases [of v] by (auto simp: ret_val_def delrq_retifset_def brepls_init_list)

lemma addrq_ret:
  "v < 8 \<Longrightarrow> ret_val (Some addrq_retifset) v =
     (if v \<in> {BREPLST_INVALID, BREPLST_REPL_SCHED, BREPLST_GARBAGE, BREPLST_GARBAGE_SCHED} then F_LOG
      else if v \<in> {BREPLST_REPL_QUEUED, BREPLST_VALID} then F_ALREADY else 0)"
  using less_8_cases [of v] by (auto simp: ret_val_def addrq_retifset_def brepls_init_list)

lemma request_tracts_ok: "tract_ok delrq_tract" "tract_ok addrq_tract"
  by (simp_all add: delrq_tract_def addrq_tract_def)

text \<open>Writing and releasing after a translation that left a valid replica.\<close>

lemma write_release:
  assumes "rw_ok be" "opstate_normal be" "walk_ready s" "bmi_rwlock (mb s) = RW_WR"
    and "bcm_opcnt (mb s) > 0" "has_data s"
  shows "\<exists>rc s1 s2. mds_bmap_write be Log_Repls s = Some (rc, s1) \<and> slm_repl_bmap_rel s1 = Some s2 \<and>
    bmi_repls (mb s2) = bmi_repls (mb s)"
proof -
  obtain rc s1 where w: "mds_bmap_write be Log_Repls s = Some (rc, s1)"
    "bmi_repls (mb s1) = bmi_repls (mb s)" "rel_ok s1"
    using write_repls_defined [OF assms(1,2,6)] ready_busy [OF assms(3,4)] assms(5) by blast
  from rel_defined [OF w(3)] w show ?thesis by auto
qed

lemma delrq_bmap_keep:
  fixes s :: "'m mst"
  assumes "rw_ok be" "opstate_normal be" "walk_ready s" "brepls_ok (bmi_repls (mb s))"
    and "fcmh_2_nrepls (mf s) \<le> SL_MAX_REPLICAS" "bcm_opcnt (mb s) > 0"
    and "walk_ks_ok iosidx" "iosidx \<noteq> []"
    and k: "k0 < fcmh_2_nrepls (mf s)" "k0 \<notin> set iosidx" "repl_st (bmi_repls (mb s)) k0 = BREPLST_VALID"
  shows "\<exists>s'. mds_repl_delrq_bmap be iosidx s =
      Some (let rc = ret_last (Some delrq_retifset) (bmi_repls (mb s)) iosidx 0
            in if rc AND F_LOG \<noteq> 0 then 0 else if rc AND F_REPORT \<noteq> 0 then - EINVAL
               else - SLERR_REPL_NOT_ACT, s') \<and>
    (\<forall>k < SL_MAX_REPLICAS. repl_st (bmi_repls (mb s')) k =
       (if k \<in> set iosidx \<and> repl_st (bmi_repls (mb s)) k \<in>
             {BREPLST_REPL_QUEUED, BREPLST_REPL_SCHED, BREPLST_VALID}
        then BREPLST_GARBAGE else repl_st (bmi_repls (mb s)) k))"
proof -
  let ?C = "{k. k < fcmh_2_nrepls (mf s) \<and> repl_st (bmi_repls (mb s)) k = BREPLST_VALID \<and> k \<notin> set iosidx}"
  let ?rc = "ret_last (Some delrq_retifset) (bmi_repls (mb s)) iosidx 0"
  have C: "card ?C > 0" using k by (auto simp: card_gt_0_iff)
  have nr: "fcmh_2_nrepls (mf s) \<noteq> 0" using k(1) by simp
  obtain s1 where w: "mds_repl_bmap_walk (Some delrq_tract) (Some delrq_retifset) 0 iosidx None
        (busy_wr s, ()) = Some (?rc, s1, ())"
    and st: "\<And>k. k < SL_MAX_REPLICAS \<Longrightarrow> repl_st (bmi_repls (mb s1)) k =
       (if k \<in> set iosidx then tract_step delrq_tract (repl_st (bmi_repls (mb s)) k)
        else repl_st (bmi_repls (mb s)) k)"
    and r: "walk_ready s1" "bmi_rwlock (mb s1) = RW_WR" "fcmh_inoh (mf s1) = fcmh_inoh (mf s)"
      "bcm_opcnt (mb s1) > 0"
  proof (rule listed_walk [OF busy_wr_ready [OF assms(3)] _ request_tracts_ok(1) assms(7,8),
        of "Some delrq_retifset"], goal_cases)
    case (2 s1)
    then show ?case using assms(6) by (intro that [of s1]) simp_all
  qed (simp add: assms(4))
  have "has_data s1"
    using valid_has_data [of k0 s1] k st [of k0] r(3) assms(5) by simp
  then obtain rc' s2 s3 where wr: "mds_bmap_write be Log_Repls s1 = Some (rc', s2)"
      "slm_repl_bmap_rel s2 = Some s3" "bmi_repls (mb s3) = bmi_repls (mb s1)"
    using write_release [OF assms(1,2) r(1,2,4)] by blast
  obtain s4 where rl: "slm_repl_bmap_rel s1 = Some s4" "bmi_repls (mb s4) = bmi_repls (mb s1)"
    using rel_defined [OF ready_rel_ok [OF r(1,4)]] by blast
  let ?s' = "if ?rc AND F_LOG \<noteq> 0 then s3 else s4"
  have "mds_repl_delrq_bmap be iosidx s = Some (if ?rc AND F_LOG \<noteq> 0 then 0
      else if ?rc AND F_REPORT \<noteq> 0 then - EINVAL else - SLERR_REPL_NOT_ACT, ?s')"
    using C nr w wr(1,2) rl(1) by (simp add: mds_repl_delrq_bmap_def countvalid_walk [OF assms(3)])
  moreover have "bmi_repls (mb ?s') = bmi_repls (mb s1)" using wr(3) rl(2) by simp
  ultimately show ?thesis
    using st by (intro exI [of _ ?s']) (simp add: Let_def delrq_tract_step brt.tget_less)
qed

lemma delrq_bmap_last:
  assumes "walk_ready s" "bcm_opcnt (mb s) > 0"
    and "\<forall>k < fcmh_2_nrepls (mf s). k \<notin> set iosidx \<longrightarrow> repl_st (bmi_repls (mb s)) k \<noteq> BREPLST_VALID"
  shows "\<exists>s'. mds_repl_delrq_bmap be iosidx s = Some (- SLERR_LASTREPL, s') \<and>
    bmi_repls (mb s') = bmi_repls (mb s) \<and> mev s' = mev s"
proof -
  let ?s1 = "if fcmh_2_nrepls (mf s) = 0 then s else busy_wr s"
  have e: "{k. k < fcmh_2_nrepls (mf s) \<and> repl_st (bmi_repls (mb s)) k = BREPLST_VALID \<and> k \<notin> set iosidx} = {}"
    using assms(3) by auto
  have "rel_ok ?s1"
    using assms(1,2) busy_wr_ready [OF assms(1)] by (simp add: ready_rel_ok)
  from rel_defined [OF this] obtain s' where "slm_repl_bmap_rel ?s1 = Some s'"
    "bmi_repls (mb s') = bmi_repls (mb ?s1)" "mev s' = mev ?s1" by blast
  then show ?thesis
    by (simp add: mds_repl_delrq_bmap_def countvalid_walk [OF assms(1)] e split: if_splits)
qed

text \<open>Adding replicas to a bmap with a valid one, and to one without.\<close>

lemma zero_walk:
  "\<exists>v. mds_repl_bmap_walk None (Some addrq_retifzero) REPL_WALKF_SCIRCUIT [] None (s, ()) =
     Some (v, if fcmh_2_nrepls (mf s) = 0 then s else s\<lparr>mb := rd_released (mb s)\<rparr>, ()) \<and>
   (v \<noteq> 0 \<longleftrightarrow> (\<exists>k < fcmh_2_nrepls (mf s). repl_st (bmi_repls (mb s)) k = BREPLST_VALID))"
proof -
  have "ret_val (Some addrq_retifzero) (repl_st r k) \<noteq> 0 \<longleftrightarrow> repl_st r k = BREPLST_VALID" for r k
    using less_8_cases [OF brt.tget_less [of r k]]
    by (auto simp: ret_val_def addrq_retifzero_def brepls_init_list)
  then show ?thesis
    using walk_all_scircuit [of addrq_retifzero s "()"] by simp
qed

lemma rd_released_ready: "walk_ready s \<Longrightarrow> walk_ready (s\<lparr>mb := rd_released (mb s)\<rparr>)"
  by (auto simp: walk_ready_def rd_released_def)

lemma rd_released_opcnt [simp]: "bcm_opcnt (rd_released b) = bcm_opcnt b"
  by (simp add: rd_released_def)

lemma set_prios_simps [simp]:
  "bmi_repls (mb (set_prios p q s)) = bmi_repls (mb s)" "mf (set_prios p q s) = mf s"
  "bmi_rwlock (mb (set_prios p q s)) = bmi_rwlock (mb s)" "walk_ready (set_prios p q s) = walk_ready s"
  "bcm_opcnt (mb (set_prios p q s)) = bcm_opcnt (mb s)" "bmi_orepls (mb (set_prios p q s)) = bmi_orepls (mb s)"
  by (simp_all add: set_prios_def walk_ready_def)

lemma upd_collect_loaded:
  assumes "inoh_ok (fcmh_inoh (mf s))" "\<forall>n \<in> set ns. n < fcmh_2_nrepls (mf s)"
  shows "upd_collect be si sp up ns s = Some (map (\<lambda>n. let r = rlist (fcmh_inoh (mf s)) ! n in
      (r, upd_classify (repl_st (bmi_orepls (mb s)) n) (repl_st (bmi_repls (mb s)) n)
            (preclaim_notsup (be_cf be) si r) sp up)) ns, s)"
  using assms by (induction ns) (simp_all add: fcmh_2_repl_loaded Let_def repl_st_def)

definition upd_classes :: "'m bmenv \<Rightarrow> (u32 \<Rightarrow> bool) \<Rightarrow> 'm mst \<Rightarrow> (u32 \<times> upd_class) list" where
  "upd_classes be si s = map (\<lambda>n. let r = rlist (fcmh_inoh (mf s)) ! n in
     (r, upd_classify (repl_st (bmi_orepls (mb s)) n) (repl_st (bmi_repls (mb s)) n)
           (preclaim_notsup (be_cf be) si r) (bmi_sys_prio (mb s)) (bmi_usr_prio (mb s))))
     [0..<fcmh_2_nrepls (mf s)]"

lemma upd_write_loaded:
  assumes "inoh_ok (fcmh_inoh (mf s))" "rel \<longrightarrow> bcm_opcnt (mb s) > 0"
  obtains s' where "slm_repl_upd_write be si rel s = Some s'"
    "mev s' = mev s @ upd_events (be_cf be) (bcm_bmapno (mb s)) (bmi_sys_prio (mb s))
                        (bmi_usr_prio (mb s)) (upd_classes be si s)"
    "bmi_repls (mb s') = bmi_repls (mb s)" "fcmh_inoh (mf s') = fcmh_inoh (mf s)"
    "bmi_2_ondisk (mb s') = bmi_2_ondisk (mb s)" "bcm_bmapno (mb s') = bcm_bmapno (mb s)"
    "bcm_opcnt (mb s') = bcm_opcnt (mb s) - (if rel then 1 else 0)"
    "bmi_sys_prio (mb s') = - 1" "bmi_usr_prio (mb s') = - 1"
    "rel \<longrightarrow> \<not> bcm_replmodwr (mb s') \<and> \<not> bcm_busy (mb s') \<and> \<not> fcmh_busy (mf s')"
    "\<not> rel \<longrightarrow> bcm_busy (mb s') \<and> fcmh_busy (mf s') \<and> bcm_opcnt (mb s') = bcm_opcnt (mb s)"
proof -
  let ?s1 = "mst_set_rw (rw_reqrdlock be (bmi_rwlock (mb s)))
     (s\<lparr>mf := (mf s)\<lparr>fcmh_busy := True\<rparr>, mb := (mb s)\<lparr>bcm_busy := True\<rparr>\<rparr>)"
  have "upd_collect be si (bmi_sys_prio (mb s)) (bmi_usr_prio (mb s)) [0..<fcmh_2_nrepls (mf s)] ?s1 =
      Some (upd_classes be si s, ?s1)"
    using assms(1) by (subst upd_collect_loaded) (simp_all add: upd_classes_def mst_set_rw_def)
  then have u: "slm_repl_upd_write be si rel s = (let s2 =
      ?s1\<lparr>mev := mev s @ upd_events (be_cf be) (bcm_bmapno (mb s)) (bmi_sys_prio (mb s))
                        (bmi_usr_prio (mb s)) (upd_classes be si s),
          mb := (mb ?s1)\<lparr>bmi_sys_prio := - 1, bmi_usr_prio := - 1\<rparr>\<rparr> in
      if rel
      then bmap_op_done (s2\<lparr>mf := (mf s2)\<lparr>fcmh_busy := False\<rparr>,
            mb := (mb s2)\<lparr>bmi_rwlock := rw_ureqlock be (bmi_rwlock (mb s)) (bmi_rwlock (mb s2)),
                          bcm_replmodwr := False, bcm_busy := False\<rparr>\<rparr>)
      else Some s2)"
    by (simp add: slm_repl_upd_write_def mst_set_rw_def Let_def)
  obtain s' where e: "slm_repl_upd_write be si rel s = Some s'"
    using assms(2) u by (cases rel) (simp_all add: Let_def bmap_op_done_def mst_set_rw_def)
  note e' = e [unfolded u]
  show ?thesis
    by (rule that [OF e]; use assms(2) e' in \<open>cases rel; clarsimp simp: Let_def bmap_op_done_def
        mst_set_rw_def bmi_2_ondisk_def\<close>)
qed

subsection \<open>What the statements do to the table\<close>

text \<open>
  The rows of one file and bmap by resource: status and priorities. The table has a uniqueness
  constraint, so inserting a row that exists fails and keeps it.
\<close>

type_synonym upsch_rows = "u32 \<Rightarrow> (upsch_stat \<times> int \<times> int) option"

fun upsch_exec :: "nat \<Rightarrow> mds_event \<Rightarrow> upsch_rows \<Rightarrow> upsch_rows" where
  "upsch_exec bno (EvUpschInsert b r sp up) rows =
     (if b = bno \<and> rows r = None then rows(r \<mapsto> (St_Q, sp, up)) else rows)"
| "upsch_exec bno (EvUpschDelete b r) rows = (if b = bno then rows(r := None) else rows)"
| "upsch_exec bno (EvUpschUpdate b r st sp up) rows =
     (if b = bno
      then rows(r := map_option (\<lambda>(st0, sp0, up0). (if st = St_NULL then st0 else st,
             if sp = - 1 then sp0 else sp, if up = - 1 then up0 else up)) (rows r))
      else rows)"
| "upsch_exec bno _ rows = rows"

lemma fold_inserts:
  "fold (upsch_exec bno)
     (concat (map (\<lambda>(r, c). if c = Upd_Add then slm_upsch_insert cf bno r sp up else []) cs)) rows r =
   (if (r, Upd_Add) \<in> set cs \<and> libsl_id2res cf r \<noteq> None \<and> rows r = None
    then Some (St_Q, sp, up) else rows r)"
proof (induction cs arbitrary: rows)
  case (Cons x cs)
  then show ?case
    by (cases x; cases "snd x = Upd_Add"; cases "libsl_id2res cf (fst x)")
      (auto simp: slm_upsch_insert_def)
qed simp

lemma fold_deletes:
  "fold (upsch_exec bno)
     (concat (map (\<lambda>(r, c). if c = Upd_Del then [EvUpschDelete bno r] else []) cs)) rows r =
   (if (r, Upd_Del) \<in> set cs then None else rows r)"
proof (induction cs arbitrary: rows)
  case (Cons x cs)
  then show ?case by (cases x; cases "snd x = Upd_Del") auto
qed simp

lemma fold_updates:
  "(fold (upsch_exec bno) (concat (map (\<lambda>(r, c). case c of
      Upd_Chg st \<Rightarrow> [EvUpschUpdate bno r st sp up] | _ \<Rightarrow> []) cs)) rows r = None) = (rows r = None)"
proof (induction cs arbitrary: rows)
  case (Cons x cs)
  then show ?case by (cases x; cases "snd x") auto
qed simp

lemma fold_upd_events:
  "(fold (upsch_exec bno) (upd_events cf bno sp up cs) rows r = None) =
   ((r, Upd_Del) \<in> set cs \<or> rows r = None \<and> \<not> ((r, Upd_Add) \<in> set cs \<and> libsl_id2res cf r \<noteq> None))"
  unfolding upd_events_def fold_append comp_apply fold_updates fold_deletes fold_inserts by auto

lemma prio_update:
  assumes "walk_ready s" "bcm_opcnt (mb s) > 0" "inoh_ok (fcmh_inoh (mf s))"
  shows "\<exists>s1 s2. (if p then slm_repl_upd_write be si False s else Some s) = Some s1 \<and>
    slm_repl_bmap_rel s1 = Some s2 \<and> bmi_repls (mb s2) = bmi_repls (mb s)"
proof (cases p)
  case True
  obtain s1 where u: "slm_repl_upd_write be si False s = Some s1" "rel_ok s1"
      "bmi_repls (mb s1) = bmi_repls (mb s)"
    by (rule upd_write_loaded [of s False be si]) (use assms in \<open>auto simp: rel_ok_def\<close>)
  from rel_defined [OF u(2)] u(1,3) True show ?thesis by auto
next
  case False
  then show ?thesis using rel_defined [OF ready_rel_ok [OF assms(1,2)]] by auto
qed

lemma addrq_bmap_queue:
  fixes s :: "'m mst"
  assumes "rw_ok be" "opstate_normal be" "walk_ready s" "brepls_ok (bmi_repls (mb s))"
    and "inoh_ok (fcmh_inoh (mf s))" "bcm_opcnt (mb s) > 0"
    and "walk_ks_ok iosidx" "iosidx \<noteq> []"
    and k: "k0 < fcmh_2_nrepls (mf s)" "repl_st (bmi_repls (mb s)) k0 = BREPLST_VALID"
  shows "\<exists>s'. mds_repl_addrq_bmap be si iosidx sp up s =
      Some (let rc = ret_last (Some addrq_retifset) (bmi_repls (mb s)) iosidx 0
            in if rc AND F_LOG \<noteq> 0 then 0 else if rc AND F_ALREADY \<noteq> 0 then - PFLERR_ALREADY (be_env be)
               else - SLERR_REPL_NOT_ACT, s') \<and>
    (\<forall>k < SL_MAX_REPLICAS. repl_st (bmi_repls (mb s')) k =
       (if k \<in> set iosidx \<and> repl_st (bmi_repls (mb s)) k \<in>
             {BREPLST_INVALID, BREPLST_REPL_SCHED, BREPLST_GARBAGE, BREPLST_GARBAGE_SCHED}
        then BREPLST_REPL_QUEUED else repl_st (bmi_repls (mb s)) k))"
proof -
  let ?s0 = "s\<lparr>mb := rd_released (mb s)\<rparr>"
  let ?rc = "ret_last (Some addrq_retifset) (bmi_repls (mb s)) iosidx 0"
  obtain v where z: "mds_repl_bmap_walk None (Some addrq_retifzero) REPL_WALKF_SCIRCUIT [] None (s, ()) =
      Some (v, ?s0, ())" "v \<noteq> 0"
    using zero_walk [of s] k by auto
  obtain s1 where w: "mds_repl_bmap_walk (Some addrq_tract) (Some addrq_retifset) 0 iosidx None
        (?s0, ()) = Some (?rc, s1, ())"
    and st: "\<And>k. k < SL_MAX_REPLICAS \<Longrightarrow> repl_st (bmi_repls (mb s1)) k =
       (if k \<in> set iosidx then tract_step addrq_tract (repl_st (bmi_repls (mb s)) k)
        else repl_st (bmi_repls (mb s)) k)"
    and r: "walk_ready s1" "bmi_rwlock (mb s1) = RW_WR" "fcmh_inoh (mf s1) = fcmh_inoh (mf s)"
      "bcm_opcnt (mb s1) > 0"
  proof (rule listed_walk [OF rd_released_ready [OF assms(3)] _ request_tracts_ok(2) assms(7,8),
        of "Some addrq_retifset"], goal_cases)
    case (2 s1)
    then show ?case using assms(6) by (intro that [of s1]) simp_all
  qed (simp add: assms(4))
  let ?s2 = "set_prios sp up s1"
  have k64: "k0 < SL_MAX_REPLICAS" using k(1) assms(5) by (simp add: inoh_ok_def)
  have "has_data ?s2"
    using valid_has_data [of k0 ?s2] k st [OF k64] r(3) by (simp add: addrq_tract_step)
  then obtain rc' s3 s4 where wr: "mds_bmap_write be Log_Repls ?s2 = Some (rc', s3)"
      "slm_repl_bmap_rel s3 = Some s4" "bmi_repls (mb s4) = bmi_repls (mb s1)"
    using write_release [OF assms(1,2), of ?s2] r by auto
  obtain s5 s6 where up: "(if sp \<noteq> - 1 \<or> up \<noteq> - 1 then slm_repl_upd_write be si False ?s2
        else Some ?s2) = Some s5" and rl: "slm_repl_bmap_rel s5 = Some s6"
      "bmi_repls (mb s6) = bmi_repls (mb s1)"
    using prio_update [of ?s2 "sp \<noteq> - 1 \<or> up \<noteq> - 1" be si] r assms(5) by auto
  let ?s' = "if ?rc AND F_LOG \<noteq> 0 then s4 else s6"
  have "mds_repl_addrq_bmap be si iosidx sp up s = Some (if ?rc AND F_LOG \<noteq> 0 then 0
      else if ?rc AND F_ALREADY \<noteq> 0 then - PFLERR_ALREADY (be_env be) else - SLERR_REPL_NOT_ACT, ?s')"
    using z w wr(1,2) up rl(1) by (simp add: mds_repl_addrq_bmap_def del: if_split)
  moreover have "bmi_repls (mb ?s') = bmi_repls (mb s1)" using wr(3) rl(2) by simp
  ultimately show ?thesis
    using st by (intro exI [of _ ?s']) (simp add: Let_def addrq_tract_step brt.tget_less)
qed

lemma addrq_bmap_zero:
  assumes "bcm_opcnt (mb s) > 0"
    and "\<forall>k < fcmh_2_nrepls (mf s). repl_st (bmi_repls (mb s)) k \<noteq> BREPLST_VALID"
  shows "\<exists>s'. mds_repl_addrq_bmap be si iosidx sp up s = Some (- SLERR_BMAP_ZERO, s') \<and>
    bmi_repls (mb s') = bmi_repls (mb s) \<and> mev s' = mev s"
  using zero_walk [of s] assms
  by (cases "fcmh_2_nrepls (mf s) = 0") (auto simp: mds_repl_addrq_bmap_def bmap_op_done_def)

lemma and_flags: "(1::int) AND 1 = 1" "(2::int) AND 1 = 0" "(2::int) AND 2 = 2" "(4::int) AND 1 = 0"
  "(4::int) AND 4 = 4"
  by simp_all

subsection \<open>Properties\<close>

text \<open>
  C3: a request to remove replicas of a bmap never removes the last valid one. When no valid
  replica exists outside the listed ones the request fails with \<open>SLERR_LASTREPL\<close> and
  neither the table nor the journal changes. Otherwise exactly the listed replicas that are
  valid or on their way become garbage and nothing else changes; for one listed replica the
  reply is success, \<open>EINVAL\<close> when it is garbage already, and "not active" otherwise. In
  either case a bmap that had a valid replica still has one.
\<close>

theorem mds_repl_delrq_keeps_replica:
  fixes s :: "'m mst"
  assumes "rw_ok be" "opstate_normal be" "walk_ready s" "brepls_ok (bmi_repls (mb s))"
    and "fcmh_2_nrepls (mf s) \<le> SL_MAX_REPLICAS" "bcm_opcnt (mb s) > 0"
    and "walk_ks_ok iosidx" "iosidx \<noteq> []"
  shows "\<exists>rc s'. mds_repl_delrq_bmap be iosidx s = Some (rc, s') \<and>
    (if \<exists>k < fcmh_2_nrepls (mf s). k \<notin> set iosidx \<and> repl_st (bmi_repls (mb s)) k = BREPLST_VALID
     then (\<forall>k < SL_MAX_REPLICAS. repl_st (bmi_repls (mb s')) k =
            (if k \<in> set iosidx \<and> repl_st (bmi_repls (mb s)) k \<in>
                  {BREPLST_REPL_QUEUED, BREPLST_REPL_SCHED, BREPLST_VALID}
             then BREPLST_GARBAGE else repl_st (bmi_repls (mb s)) k)) \<and>
          (\<forall>i. iosidx = [i] \<longrightarrow> rc =
            (let v = repl_st (bmi_repls (mb s)) i in
             if v \<in> {BREPLST_REPL_QUEUED, BREPLST_REPL_SCHED, BREPLST_VALID} then 0
             else if v \<in> {BREPLST_GARBAGE, BREPLST_GARBAGE_SCHED} then - EINVAL else - SLERR_REPL_NOT_ACT))
     else rc = - SLERR_LASTREPL \<and> bmi_repls (mb s') = bmi_repls (mb s) \<and> mev s' = mev s) \<and>
    ((\<exists>k < fcmh_2_nrepls (mf s). repl_st (bmi_repls (mb s)) k = BREPLST_VALID) \<longrightarrow>
     (\<exists>k < fcmh_2_nrepls (mf s). repl_st (bmi_repls (mb s')) k = BREPLST_VALID))"
proof (cases "\<exists>k < fcmh_2_nrepls (mf s). k \<notin> set iosidx \<and> repl_st (bmi_repls (mb s)) k = BREPLST_VALID")
  case True
  then obtain k0 where k0: "k0 < fcmh_2_nrepls (mf s)" "k0 \<notin> set iosidx"
    "repl_st (bmi_repls (mb s)) k0 = BREPLST_VALID" by blast
  obtain rc s' where d: "mds_repl_delrq_bmap be iosidx s = Some (rc, s')"
    and rc: "rc = (let rc = ret_last (Some delrq_retifset) (bmi_repls (mb s)) iosidx 0
            in if rc AND F_LOG \<noteq> 0 then 0 else if rc AND F_REPORT \<noteq> 0 then - EINVAL
               else - SLERR_REPL_NOT_ACT)"
    and st: "\<forall>k < SL_MAX_REPLICAS. repl_st (bmi_repls (mb s')) k =
       (if k \<in> set iosidx \<and> repl_st (bmi_repls (mb s)) k \<in>
             {BREPLST_REPL_QUEUED, BREPLST_REPL_SCHED, BREPLST_VALID}
        then BREPLST_GARBAGE else repl_st (bmi_repls (mb s)) k)"
    using delrq_bmap_keep [OF assms k0] by metis
  have one: "rc = (let v = repl_st (bmi_repls (mb s)) i in
             if v \<in> {BREPLST_REPL_QUEUED, BREPLST_REPL_SCHED, BREPLST_VALID} then 0
             else if v \<in> {BREPLST_GARBAGE, BREPLST_GARBAGE_SCHED} then - EINVAL else - SLERR_REPL_NOT_ACT)"
    if "iosidx = [i]" for i
    using rc that by (auto simp: delrq_ret brt.tget_less Let_def and_flags)
  have "repl_st (bmi_repls (mb s')) k0 = BREPLST_VALID" using st k0 assms(5) by simp
  with k0(1) have "\<exists>k < fcmh_2_nrepls (mf s). repl_st (bmi_repls (mb s')) k = BREPLST_VALID" by blast
  with d st one True show ?thesis by auto
next
  case False
  then have "\<forall>k < fcmh_2_nrepls (mf s). k \<notin> set iosidx \<longrightarrow> repl_st (bmi_repls (mb s)) k \<noteq> BREPLST_VALID"
    by blast
  from delrq_bmap_last [OF assms(3,6) this, of be] obtain s' where
    "mds_repl_delrq_bmap be iosidx s = Some (- SLERR_LASTREPL, s')"
    "bmi_repls (mb s') = bmi_repls (mb s)" "mev s' = mev s" by blast
  then show ?thesis using False by (simp only: if_False option.inject prod.inject) auto
qed

theorem mds_repl_delrq_keeps_replica_witness:
  "\<exists>rc s'. mds_repl_delrq_bmap be_ex [1] (ms_ex [11, 12] both_valid) = Some (rc, s') \<and> rc = 0 \<and>
     repl_st (bmi_repls (mb s')) 0 = BREPLST_VALID \<and> repl_st (bmi_repls (mb s')) 1 = BREPLST_GARBAGE"
proof -
  let ?s = "ms_ex [11, 12] both_valid"
  have o: "opstate_normal be_ex" by (simp add: be_ex_def)
  have c: "bcm_opcnt (mb ?s) > 0" by (simp add: ms_ex_def bmap_ex_def)
  have n: "fcmh_2_nrepls (mf ?s) \<le> SL_MAX_REPLICAS" by (simp add: ms_ex_ready)
  have "\<exists>k < fcmh_2_nrepls (mf ?s). k \<notin> set [1] \<and> repl_st (bmi_repls (mb ?s)) k = BREPLST_VALID"
    by (intro exI [of _ 0]) (simp add: ms_ex_ready both_valid_st)
  then show ?thesis
    using mds_repl_delrq_keeps_replica [OF be_ex_ok(1) o ms_ex_ready(1,2) n c, of "[1]"]
    by (auto simp: walk_ks_ok_def ms_ex_ready(5) both_valid_st [unfolded One_nat_def] Let_def)
qed



abbreviation mst_ios :: "'m mst \<Rightarrow> nat \<Rightarrow> u32" where
  "mst_ios s k \<equiv> rlist (fcmh_inoh (mf s)) ! k"

abbreviation old_st :: "'m mst \<Rightarrow> nat \<Rightarrow> nat" where
  "old_st s k \<equiv> repl_st (bmi_orepls (mb s)) k"

abbreviation new_st :: "'m mst \<Rightarrow> nat \<Rightarrow> nat" where
  "new_st s k \<equiv> repl_st (bmi_repls (mb s)) k"

definition needs_row :: "bool \<Rightarrow> nat \<Rightarrow> bool" where
  "needs_row notsup v \<longleftrightarrow> v \<in> {BREPLST_REPL_QUEUED, BREPLST_REPL_SCHED} \<or>
     v \<in> {BREPLST_GARBAGE, BREPLST_GARBAGE_SCHED} \<and> \<not> notsup"

definition upd_starts_ok :: "nat \<Rightarrow> nat \<Rightarrow> bool" where
  "upd_starts_ok vold vnew \<longleftrightarrow>
     (vnew = BREPLST_REPL_SCHED \<longrightarrow> vold \<in> {BREPLST_REPL_QUEUED, BREPLST_REPL_SCHED}) \<and>
     (vnew = BREPLST_GARBAGE_SCHED \<longrightarrow> vold \<in> {BREPLST_GARBAGE, BREPLST_GARBAGE_SCHED})"

lemma upd_classify_row:
  assumes "upd_starts_ok v w" "needs_row ns w" "v < 8"
  shows "upd_classify v w ns sp up \<noteq> Upd_Del \<and> (needs_row ns v \<or> upd_classify v w ns sp up = Upd_Add)"
proof -
  have "w = 1 \<or> w = 2 \<or> w = 6 \<and> \<not> ns \<or> w = 7 \<and> \<not> ns" using assms(2) by (auto simp: needs_row_def)
  then show ?thesis
    using assms(1) less_8_cases [OF assms(3)]
    by (elim disjE conjE) (simp_all add: upd_classify_def needs_row_def upd_starts_ok_def)
qed

lemma upd_classify_done:
  assumes "w \<in> {BREPLST_VALID, BREPLST_INVALID}" "v < 8" "v \<noteq> w"
  shows "upd_classify v w ns sp up \<noteq> Upd_Add \<and>
    (upd_classify v w ns sp up = Upd_Del \<longleftrightarrow> v \<noteq> BREPLST_GARBAGE \<and> v \<noteq> BREPLST_INVALID)"
proof -
  have "w = 3 \<or> w = 0" using assms(1) by auto
  then show ?thesis
    using assms(3) less_8_cases [OF assms(2)] by (elim disjE) (simp_all add: upd_classify_def)
qed

lemma upd_classes_in:
  assumes "distinct (rlist (fcmh_inoh (mf s)))" "inoh_ok (fcmh_inoh (mf s))" "k < fcmh_2_nrepls (mf s)"
  shows "(rlist (fcmh_inoh (mf s)) ! k, c) \<in> set (upd_classes be si s) \<longleftrightarrow>
    c = upd_classify (repl_st (bmi_orepls (mb s)) k) (repl_st (bmi_repls (mb s)) k)
          (preclaim_notsup (be_cf be) si (rlist (fcmh_inoh (mf s)) ! k))
          (bmi_sys_prio (mb s)) (bmi_usr_prio (mb s))"
  using assms by (auto simp: upd_classes_def Let_def length_rlist nth_eq_iff_index_eq)


definition ms_upd_ex :: "(nat \<Rightarrow> bmap_ondisk \<times> u64) mst" where
  "ms_upd_ex = (let s = ms_ex [11, 12] (19 # replicate 23 0)
     in s\<lparr>mb := (mb s)\<lparr>bmi_orepls := 3 # replicate 23 0\<rparr>\<rparr>)"

lemma ms_upd_ex_facts:
  "inoh_ok (fcmh_inoh (mf ms_upd_ex))" "rlist (fcmh_inoh (mf ms_upd_ex)) = [11, 12]"
  "fcmh_2_nrepls (mf ms_upd_ex) = 2" "bcm_bmapno (mb ms_upd_ex) = 0"
  "old_st ms_upd_ex 0 = BREPLST_VALID" "new_st ms_upd_ex 0 = BREPLST_VALID"
  "old_st ms_upd_ex (Suc 0) = BREPLST_INVALID" "new_st ms_upd_ex (Suc 0) = BREPLST_REPL_QUEUED"
  by (simp_all add: ms_upd_ex_def ms_ex_def bmap_ex_def inoh_ok_def rlist_def repl_st_def
      SL_REPL_GET_BMAP_IOS_STAT_def SL_REPLICA_MASK_def)


end
