(* ===== verification/Resm_Select.thy ===== *)
theory Resm_Select
  imports Repl_Req "HOL-Library.Multiset"
begin

text \<open>
  Choosing the I/O server for a write lease (\<open>slm_resm_select\<close> and its helpers in
  \<open>slashd/mds.c\<close>), and the amount of data a replication of a bmap moves.

  What the server knows of its I/O servers (lease flags, connection, time of the last message)
  is a record by identifier; the random numbers are a function of the call and its bound. A
  dynamic array is a list. The loop macro of the PFL library sets its variable to NULL when the
  list is exhausted, which the caller of \<open>slm_resm_select\<close> relies on.
\<close>

subsection \<open>Which servers can be used\<close>

record ios_env =
  si_lease_disabled :: "u32 \<Rightarrow> bool"
  si_lastcomm :: "u32 \<Rightarrow> nat \<times> nat"
  ios_csvc :: "u32 \<Rightarrow> bool"
  ios_now :: "nat \<times> nat"
  ios_site_resources :: "sl_resource list"
  psc_random32u :: "nat \<Rightarrow> nat \<Rightarrow> nat"

abbreviation (input) CSVC_PING_INTV :: nat where "CSVC_PING_INTV \<equiv> 60"

definition timespec_less :: "nat \<times> nat \<Rightarrow> nat \<times> nat \<Rightarrow> bool" where
  "timespec_less a b \<longleftrightarrow> (if fst a = fst b then snd a < snd b else fst a < fst b)"

definition mds_sliod_alive :: "ios_env \<Rightarrow> u32 \<Rightarrow> bool" where
  "mds_sliod_alive ie si =
     (fst (si_lastcomm ie si) \<noteq> 0 \<and>
      timespec_less (ios_now ie)
        (fst (si_lastcomm ie si) + CSVC_PING_INTV * 2, snd (si_lastcomm ie si)))"

definition slm_try_sliodresm :: "ios_env \<Rightarrow> sl_resm \<Rightarrow> bool" where
  "slm_try_sliodresm ie m =
     (if si_lease_disabled ie (resm_res_id m) then False
      else if \<not> ios_csvc ie (resm_res_id m) then False
      else mds_sliod_alive ie (resm_res_id m))"

subsection \<open>The list of candidates\<close>

definition psc_dynarray_swap :: "'a list \<Rightarrow> nat \<Rightarrow> nat \<Rightarrow> 'a list" where
  "psc_dynarray_swap a x y = a[x := a ! y, y := a ! x]"

text \<open>The first argument counts the random numbers drawn so far.\<close>

function res_shuffle_loop ::
    "(nat \<Rightarrow> nat \<Rightarrow> nat) \<Rightarrow> nat \<Rightarrow> nat \<Rightarrow> nat \<times> 'a list \<Rightarrow> nat \<times> 'a list" where
  "res_shuffle_loop rnd bgn i (k, a) =
     (if i < length a - bgn
      then res_shuffle_loop rnd bgn (i + 1)
             (k + 1, psc_dynarray_swap a (bgn + i) (bgn + rnd k (i + 1)))
      else (k, a))"
  by pat_completeness auto
termination
  by (relation "measure (\<lambda>(rnd, bgn, i, k, a). length a - bgn - i)")
    (auto simp: psc_dynarray_swap_def)

declare res_shuffle_loop.simps [simp del]

definition slm_res_shuffle ::
    "(nat \<Rightarrow> nat \<Rightarrow> nat) \<Rightarrow> nat \<Rightarrow> nat \<times> 'a list \<Rightarrow> nat \<times> 'a list" where
  "slm_res_shuffle rnd bgn ka = res_shuffle_loop rnd bgn 1 ka"

definition psc_dynarray_add_ifdne :: "'a list \<Rightarrow> 'a \<Rightarrow> 'a list" where
  "psc_dynarray_add_ifdne a m = (if m \<in> set a then a else a @ [m])"

definition slm_res_fillmembers ::
    "(nat \<Rightarrow> nat \<Rightarrow> nat) \<Rightarrow> bool \<Rightarrow> sl_resource \<Rightarrow> nat \<times> sl_resm list \<Rightarrow> nat \<times> sl_resm list" where
  "slm_res_fillmembers rnd shuffle r ka =
     (let bgn = length (snd ka);
          ka = (fst ka, foldl psc_dynarray_add_ifdne (snd ka) (res_members r))
      in if shuffle then slm_res_shuffle rnd bgn ka else ka)"

text \<open>
  \<open>fcmh_getrepl\<close> reads the extras block without loading it. The affinity test reads the flags
  of the in-memory handle, whose bit for a new inode has the value of the affinity bit.
\<close>

definition fcmh_getrepl :: "'m slm_inoh \<Rightarrow> nat \<Rightarrow> u32 option" where
  "fcmh_getrepl ih n =
     (if n < SL_DEF_REPLICAS then Some (ino_repls (inoh_ino ih) ! n)
      else do { x \<leftarrow> inoh_extras ih; Some (inox_repls x ! (n - SL_DEF_REPLICAS)) })"

definition slm_get_ioslist ::
    "sl_config \<Rightarrow> ios_env \<Rightarrow> 'm slm_inoh \<Rightarrow> u32 \<Rightarrow> nat \<times> sl_resm list \<Rightarrow>
     (nat \<times> sl_resm list) option" where
  "slm_get_ioslist cf ie ih piosid ka =
     (case libsl_id2res cf piosid of
        None \<Rightarrow> Some ka
      | Some pios \<Rightarrow>
          if \<not> RES_ISFS pios \<and> \<not> RES_ISCLUSTER pios then Some ka
          else do {
            let rnd = psc_random32u ie;
            ka \<leftarrow> (if inoh_ino_new ih then do {
                     ios \<leftarrow> fcmh_getrepl ih 0;
                     Some (case libsl_id2res cf ios of None \<Rightarrow> ka
                           | Some r \<Rightarrow> slm_res_fillmembers rnd True r ka)
                   } else Some ka);
            let ka = slm_res_fillmembers rnd True pios ka;
            let bgn = length (snd ka);
            let ka = fold (\<lambda>r ka.
              if \<not> RES_ISFS r \<or> res_id r = res_id pios \<or> res_type r = SLREST_ARCHIVAL_FS then ka
              else slm_res_fillmembers rnd False r ka) (ios_site_resources ie) ka;
            Some (slm_res_shuffle rnd bgn ka)
          })"

subsection \<open>The choice\<close>

text \<open>
  The loop over the replicas gives the number of active ones, the members of the valid ones and
  the value the variable \<open>resm\<close> is left with.
\<close>

fun resm_valid_loop ::
    "sl_config \<Rightarrow> 'm slm_inoh \<Rightarrow> u8 list \<Rightarrow> nat list \<Rightarrow> nat \<times> sl_resm list \<times> sl_resm option \<Rightarrow>
     (nat \<times> sl_resm list \<times> sl_resm option) option" where
  "resm_valid_loop cf ih repls [] acc = Some acc"
| "resm_valid_loop cf ih repls (i # is) (n, a, resm) = do {
     let val = SL_REPL_GET_BMAP_IOS_STAT repls (i * SL_BITS_PER_REPLICA);
     let n = (if val \<noteq> BREPLST_INVALID then n + 1 else n);
     if val \<noteq> BREPLST_VALID then resm_valid_loop cf ih repls is (n, a, resm)
     else do {
       ios \<leftarrow> fcmh_getrepl ih i;
       resm \<leftarrow> libsl_try_ios2resm cf ios;
       resm_valid_loop cf ih repls is
         (n, case resm of None \<Rightarrow> a | Some m \<Rightarrow> a @ [m], resm)
     }
   }"

definition resm_usable :: "ios_env \<Rightarrow> u32 list \<Rightarrow> sl_resm \<Rightarrow> bool" where
  "resm_usable ie to_skip m =
     (\<not> list_ex (\<lambda>x. resm_res_id m = x) to_skip \<and> slm_try_sliodresm ie m)"

definition slm_resm_select ::
    "'m bmenv \<Rightarrow> ios_env \<Rightarrow> u32 \<Rightarrow> u32 list \<Rightarrow> 'm mst \<Rightarrow> (sl_resm option \<times> 'm mst) option" where
  "slm_resm_select be ie pios to_skip s = do {
     let nr = fcmh_2_nrepls (mf s);
     ih \<leftarrow> (if nr > SL_DEF_REPLICAS
            then map_option snd (mds_inox_ensure_loaded (be_env be) (fcmh_inoh (mf s)))
            else Some (fcmh_inoh (mf s)));
     let s = s\<lparr>mf := (mf s)\<lparr>fcmh_inoh := ih\<rparr>\<rparr>;
     (repls, a, resm) \<leftarrow> resm_valid_loop (be_cf be) ih (bmi_repls (mb s)) [0..<nr] (0, [], None);
     if to_skip \<noteq> [] \<and> repls \<noteq> 1 then Some (resm, s)
     else do {
       m \<leftarrow> (if to_skip = [] then Some None else if a = [] then None else Some (Some (a ! 0)));
       if to_skip \<noteq> [] \<and> \<not> list_ex (\<lambda>x. Some x = map_option resm_res_id m) to_skip then Some (m, s)
       else do {
         let (repls, a) = (if to_skip = [] then (repls, a) else (0, []));
         if repls \<noteq> 0 \<and> a = [] then Some (None, s)
         else do {
           (_, a) \<leftarrow> slm_get_ioslist (be_cf be) ie ih pios (0, a);
           Some (find (resm_usable ie to_skip) a, s)
         }
       }
     }
   }"

subsection \<open>Replication traffic\<close>

abbreviation (input) SLASH_SLVR_SIZE :: nat where "SLASH_SLVR_SIZE \<equiv> 1048576"
abbreviation (input) SLASH_SLVRS_PER_BMAP :: nat where "SLASH_SLVRS_PER_BMAP \<equiv> 128"

fun repltraffic_loop :: "bool \<Rightarrow> nat \<Rightarrow> nat \<Rightarrow> u8 list \<Rightarrow> nat list \<Rightarrow> nat \<Rightarrow> nat" where
  "repltraffic_loop lastbmap lastslvr lastsize states [] amt = amt"
| "repltraffic_loop lastbmap lastslvr lastsize states (i # is) amt =
     (if (states ! i) AND BMAP_SLVR_DATA \<noteq> 0
      then if lastbmap \<and> i = lastslvr then amt + lastsize
           else repltraffic_loop lastbmap lastslvr lastsize states is (amt + SLASH_SLVR_SIZE)
      else repltraffic_loop lastbmap lastslvr lastsize states is amt)"

definition slm_bmap_calc_repltraffic :: "'m mst \<Rightarrow> nat" where
  "slm_bmap_calc_repltraffic s =
     (let fsz = fcmh_fsz (mf s);
          nb = fcmh_nvalidbmaps (mf s);
          lastbno = (if nb \<noteq> 0 then nb - 1 else nb);
          bmapsize = (if fsz mod SLASH_BMAP_SIZE = 0 then SLASH_BMAP_SIZE else fsz mod SLASH_BMAP_SIZE);
          lastslvr = (if fsz \<noteq> 0 then (bmapsize - 1) div SLASH_SLVR_SIZE else 0);
          lastsize = (if fsz = 0 then 0
                      else if fsz mod SLASH_SLVR_SIZE = 0 then SLASH_SLVR_SIZE else fsz mod SLASH_SLVR_SIZE)
      in repltraffic_loop (bcm_bmapno (mb s) = lastbno) lastslvr lastsize (bmi_crcstates (mb s))
           [0..<SLASH_SLVRS_PER_BMAP] 0)"

subsection \<open>Lemmas\<close>

lemma swap_props:
  assumes "x < length a" "y < length a" "b \<le> x" "b \<le> y"
  shows "mset (psc_dynarray_swap a x y) = mset a" "length (psc_dynarray_swap a x y) = length a"
    "take b (psc_dynarray_swap a x y) = take b a"
  using assms by (simp_all add: psc_dynarray_swap_def mset_swap)

lemma shuffle_loop_props:
  assumes "\<forall>k b. 0 < b \<longrightarrow> rnd k b < b" "1 \<le> i"
  shows "mset (snd (res_shuffle_loop rnd bgn i (k, a))) = mset a \<and>
    take bgn (snd (res_shuffle_loop rnd bgn i (k, a))) = take bgn a"
  using assms
proof (induction rnd bgn i "(k, a)" arbitrary: k a rule: res_shuffle_loop.induct)
  case (1 rnd bgn i k a)
  show ?case
  proof (cases "i < length a - bgn")
    case True
    have r: "rnd k (i + 1) < i + 1" using "1.prems"(1) by simp
    let ?a = "psc_dynarray_swap a (bgn + i) (bgn + rnd k (i + 1))"
    have "mset ?a = mset a" "take bgn ?a = take bgn a"
      using swap_props [of "bgn + i" a "bgn + rnd k (i + 1)" bgn] r True by simp_all
    then show ?thesis
      using "1.hyps" [OF True "1.prems"(1)] True by (subst (1 2) res_shuffle_loop.simps) simp
  qed (simp add: res_shuffle_loop.simps)
qed

lemma shuffle_props:
  assumes "\<forall>k b. 0 < b \<longrightarrow> rnd k b < b"
  shows "mset (snd (slm_res_shuffle rnd bgn ka)) = mset (snd ka)"
    "take bgn (snd (slm_res_shuffle rnd bgn ka)) = take bgn (snd ka)"
  using shuffle_loop_props [OF assms, of 1 bgn "fst ka" "snd ka"] by (simp_all add: slm_res_shuffle_def)

text \<open>The candidates keep a given prefix.\<close>

lemma take_eq_prefix: "take (length xs) ys = xs \<Longrightarrow> \<exists>zs. ys = xs @ zs"
  by (metis append_take_drop_id)

lemma foldl_ifdne: "\<exists>zs. foldl psc_dynarray_add_ifdne a ms = a @ zs"
proof (induction ms arbitrary: a)
  case (Cons m ms)
  show ?case using Cons [of "psc_dynarray_add_ifdne a m"] by (auto simp: psc_dynarray_add_ifdne_def)
qed simp

lemma shuffle_prefix:
  assumes "\<forall>k b. 0 < b \<longrightarrow> rnd k b < b" "length xs \<le> bgn"
  shows "\<exists>k' zs. slm_res_shuffle rnd bgn (k, xs @ ys) = (k', xs @ zs)"
proof -
  obtain k' a where a: "slm_res_shuffle rnd bgn (k, xs @ ys) = (k', a)" by fastforce
  have "take (length xs) (take bgn (snd (slm_res_shuffle rnd bgn (k, xs @ ys)))) =
      take (length xs) (take bgn (xs @ ys))"
    using shuffle_props(2) [OF assms(1), of bgn "(k, xs @ ys)"] by simp
  then have "take (length xs) (snd (slm_res_shuffle rnd bgn (k, xs @ ys))) = xs"
    using assms(2) by (simp add: min_absorb1)
  then show ?thesis using take_eq_prefix [of xs a] a by auto
qed

lemma fillmembers_prefix:
  assumes "\<forall>k b. 0 < b \<longrightarrow> rnd k b < b"
  shows "\<exists>k' zs. slm_res_fillmembers rnd sh r (k, xs @ ys) = (k', xs @ zs)"
proof -
  obtain zs where z: "foldl psc_dynarray_add_ifdne (xs @ ys) (res_members r) = xs @ zs"
    using foldl_ifdne [of "xs @ ys" "res_members r"] by auto
  show ?thesis
    using shuffle_prefix [OF assms, of xs "length (xs @ ys)" k zs] z
    by (simp add: slm_res_fillmembers_def Let_def)
qed

lemma fold_fill_prefix:
  assumes "\<forall>k b. 0 < b \<longrightarrow> rnd k b < b"
  shows "\<exists>k' zs. fold (\<lambda>r ka. if P r then ka else slm_res_fillmembers rnd False r ka) rs (k, xs @ ys) =
    (k', xs @ zs)"
proof (induction rs arbitrary: k ys)
  case (Cons r rs)
  obtain k' zs where "(if P r then (k, xs @ ys) else slm_res_fillmembers rnd False r (k, xs @ ys)) = (k', xs @ zs)"
    using fillmembers_prefix [OF assms, of False r k xs ys] by (cases "P r") auto
  then show ?case using Cons [of k' zs] by simp
qed simp

lemma ioslist_prefix:
  assumes "\<forall>k b. 0 < b \<longrightarrow> psc_random32u ie k b < b"
  shows "\<exists>k' zs. slm_get_ioslist cf ie ih pios (k, a) = Some (k', a @ zs)"
proof (cases "libsl_id2res cf pios")
  case (Some p)
  show ?thesis
  proof (cases "\<not> RES_ISFS p \<and> \<not> RES_ISCLUSTER p")
    case False
    let ?rnd = "psc_random32u ie"
    obtain k1 z1 where 1: "(if inoh_ino_new ih then do {
                     ios \<leftarrow> fcmh_getrepl ih 0;
                     Some (case libsl_id2res cf ios of None \<Rightarrow> (k, a)
                           | Some r \<Rightarrow> slm_res_fillmembers ?rnd True r (k, a))
                   } else Some (k, a)) = Some (k1, a @ z1)"
    proof (cases "inoh_ino_new ih")
      case True
      then show ?thesis
        using that fillmembers_prefix [OF assms, of True _ k a "[]"]
        by (cases "libsl_id2res cf (ino_repls (inoh_ino ih) ! 0)") (auto simp: fcmh_getrepl_def, blast)
    qed (use that [of k "[]"] in simp)
    obtain k2 z2 where 2: "slm_res_fillmembers ?rnd True p (k1, a @ z1) = (k2, a @ z2)"
      using fillmembers_prefix [OF assms, of True p k1 a z1] by blast
    obtain k3 z3 where 3: "fold (\<lambda>r ka.
              if \<not> RES_ISFS r \<or> res_id r = res_id p \<or> res_type r = SLREST_ARCHIVAL_FS then ka
              else slm_res_fillmembers ?rnd False r ka) (ios_site_resources ie) (k2, (a @ z2) @ []) =
        (k3, (a @ z2) @ z3)"
      using fold_fill_prefix [OF assms, of "\<lambda>r. \<not> RES_ISFS r \<or> res_id r = res_id p \<or>
          res_type r = SLREST_ARCHIVAL_FS" "ios_site_resources ie" k2 "a @ z2" "[]"]
      by (elim exE)
    obtain k4 z4 where 4: "slm_res_shuffle ?rnd (length (a @ z2)) (k3, a @ z2 @ z3) = (k4, a @ z4)"
      using shuffle_prefix [OF assms, of a "length (a @ z2)" k3 "z2 @ z3"] by auto
    show ?thesis
      using Some False 1 2 3 4 by (simp add: slm_get_ioslist_def Let_def del: if_split)
  qed (simp add: slm_get_ioslist_def Some)
qed (simp add: slm_get_ioslist_def)

text \<open>The members of the valid replicas.\<close>

definition valid_member :: "sl_config \<Rightarrow> 'm mst \<Rightarrow> nat \<Rightarrow> sl_resm option" where
  "valid_member cf s k =
     (if repl_st (bmi_repls (mb s)) k = BREPLST_VALID
      then case libsl_try_ios2resm cf (rlist (fcmh_inoh (mf s)) ! k) of None \<Rightarrow> None | Some m \<Rightarrow> m
      else None)"

lemma valid_loop:
  assumes "inoh_ok (fcmh_inoh (mf s))" "\<forall>k \<in> set ks. k < fcmh_2_nrepls (mf s)"
    and "\<forall>k \<in> set ks. libsl_try_ios2resm cf (rlist (fcmh_inoh (mf s)) ! k) \<noteq> None"
  shows "\<exists>r. resm_valid_loop cf (fcmh_inoh (mf s)) (bmi_repls (mb s)) ks (n, a, resm) =
    Some (n + length (filter (\<lambda>k. repl_st (bmi_repls (mb s)) k \<noteq> BREPLST_INVALID) ks),
          a @ List.map_filter (valid_member cf s) ks, r)"
  using assms(2,3)
proof (induction ks arbitrary: n a resm)
  case (Cons k ks)
  have g: "fcmh_getrepl (fcmh_inoh (mf s)) k = Some (rlist (fcmh_inoh (mf s)) ! k)"
    using assms(1) Cons.prems(1)
    by (auto simp: fcmh_getrepl_def rlist_nth inoh_ok_def split: option.splits)
  obtain m where m: "libsl_try_ios2resm cf (rlist (fcmh_inoh (mf s)) ! k) = Some m"
    using Cons.prems(2) by auto
  let ?n = "if repl_st (bmi_repls (mb s)) k \<noteq> BREPLST_INVALID then n + 1 else n"
  let ?a = "case valid_member cf s k of None \<Rightarrow> a | Some x \<Rightarrow> a @ [x]"
  let ?r = "if repl_st (bmi_repls (mb s)) k = BREPLST_VALID then m else resm"
  have "resm_valid_loop cf (fcmh_inoh (mf s)) (bmi_repls (mb s)) (k # ks) (n, a, resm) =
      resm_valid_loop cf (fcmh_inoh (mf s)) (bmi_repls (mb s)) ks (?n, ?a, ?r)"
    by (simp add: Let_def valid_member_def g m flip: repl_st_def)
  moreover obtain r where "resm_valid_loop cf (fcmh_inoh (mf s)) (bmi_repls (mb s)) ks (?n, ?a, ?r) =
      Some (?n + length (filter (\<lambda>k. repl_st (bmi_repls (mb s)) k \<noteq> BREPLST_INVALID) ks),
          ?a @ List.map_filter (valid_member cf s) ks, r)"
    using Cons.IH [of ?n ?a ?r] Cons.prems by auto
  ultimately show ?case
    by (intro exI [of _ r]) (simp add: map_filter_simps split: option.splits)
qed (simp add: map_filter_simps)

lemma find_append_first:
  "\<exists>x \<in> set xs. P x \<Longrightarrow> \<exists>x \<in> set xs. find P (xs @ ys) = Some x \<and> P x"
  by (induction xs) auto

lemma set_map_filter: "set (List.map_filter f xs) = {y. \<exists>x \<in> set xs. f x = Some y}"
  by (force simp: List.map_filter_def)

lemma map_filter_Nil_iff: "List.map_filter f xs = [] \<longleftrightarrow> (\<forall>x \<in> set xs. f x = None)"
  by (auto simp: List.map_filter_def filter_empty_conv)

text \<open>The choice for a new write lease, which skips no server.\<close>

lemma resm_select_unfold:
  assumes rnd: "\<forall>k b. 0 < b \<longrightarrow> psc_random32u ie k b < b" and ok: "inoh_ok (fcmh_inoh (mf s))"
    and cf: "\<forall>k < fcmh_2_nrepls (mf s). libsl_try_ios2resm (be_cf be) (rlist (fcmh_inoh (mf s)) ! k) \<noteq> None"
  shows "\<exists>m zs. slm_resm_select be ie pios [] s = Some (m, s) \<and>
    m = (if (\<exists>k < fcmh_2_nrepls (mf s). repl_st (bmi_repls (mb s)) k \<noteq> BREPLST_INVALID) \<and>
            (\<forall>k < fcmh_2_nrepls (mf s). valid_member (be_cf be) s k = None) then None
         else find (slm_try_sliodresm ie)
           (List.map_filter (valid_member (be_cf be) s) [0..<fcmh_2_nrepls (mf s)] @ zs))"
proof -
  let ?nr = "fcmh_2_nrepls (mf s)" and ?ih = "fcmh_inoh (mf s)"
  let ?a = "List.map_filter (valid_member (be_cf be) s) [0..<?nr]"
  let ?n = "length (filter (\<lambda>k. repl_st (bmi_repls (mb s)) k \<noteq> BREPLST_INVALID) [0..<?nr])"
  have ld: "(if ?nr > SL_DEF_REPLICAS then map_option snd (mds_inox_ensure_loaded (be_env be) ?ih)
      else Some ?ih) = Some ?ih"
    using ensure_loaded_ready [OF ok] by auto
  obtain r where r: "resm_valid_loop (be_cf be) ?ih (bmi_repls (mb s)) [0..<?nr] (0, [], None) =
      Some (?n, ?a, r)"
    using valid_loop [OF ok, of "[0..<?nr]" "be_cf be" 0 "[]" None] cf by auto
  obtain k' zs where zs: "slm_get_ioslist (be_cf be) ie ?ih pios (0, ?a) = Some (k', ?a @ zs)"
    using ioslist_prefix [OF rnd, of "be_cf be" ?ih pios 0 ?a] by blast
  have n: "?n \<noteq> 0 \<longleftrightarrow> (\<exists>k < ?nr. repl_st (bmi_repls (mb s)) k \<noteq> BREPLST_INVALID)"
    by (auto simp: filter_empty_conv)
  have a: "?a = [] \<longleftrightarrow> (\<forall>k < ?nr. valid_member (be_cf be) s k = None)"
    by (auto simp: map_filter_Nil_iff)
  have u: "resm_usable ie [] = slm_try_sliodresm ie" by (simp add: resm_usable_def fun_eq_iff)
  have "slm_resm_select be ie pios [] s =
      Some (if ?n \<noteq> 0 \<and> ?a = [] then None else find (slm_try_sliodresm ie) (?a @ zs), s)"
    unfolding slm_resm_select_def Let_def ld
    by (simp only: bind.bind_lunit fcmh.surjective) (simp add: r zs u)
  then show ?thesis unfolding n a by blast
qed


definition m_ex :: "u32 \<Rightarrow> sl_resm" where
  "m_ex i = \<lparr>resm_nids = [], resm_res_id = i, resm_type = SLREST_STANDALONE_FS, resm_name = ''m''\<rparr>"

definition be_sel_ex :: "(nat \<Rightarrow> bmap_ondisk \<times> u64) bmenv" where
  "be_sel_ex = be_ex\<lparr>be_cf := \<lparr>gconf_sites = [], gconf_res_hashtbl = (\<lambda>i.
     Some \<lparr>res_id = i, res_type = SLREST_STANDALONE_FS, res_name = ''r'', res_members = [m_ex i]\<rparr>)\<rparr>\<rparr>"

definition ie_ex :: ios_env where
  "ie_ex = \<lparr>si_lease_disabled = (\<lambda>i. i = 11), si_lastcomm = (\<lambda>_. (100, 0)), ios_csvc = (\<lambda>_. True),
     ios_now = (150, 0), ios_site_resources = [], psc_random32u = (\<lambda>k b. k mod b)\<rparr>"

lemma sel_ex_facts:
  "\<forall>k b. 0 < b \<longrightarrow> psc_random32u ie_ex k b < b" "libsl_try_ios2resm (be_cf be_sel_ex) i = Some (Some (m_ex i))"
  "slm_try_sliodresm ie_ex (m_ex i) \<longleftrightarrow> i \<noteq> 11"
  by (simp_all add: ie_ex_def libsl_try_ios2resm_def libsl_id2res_def be_sel_ex_def RES_ISFS_def
      slm_try_sliodresm_def mds_sliod_alive_def timespec_less_def m_ex_def)


text \<open>
  C33: shuffling the candidates ends, permutes them and leaves the ones before the start index in
  place, for every random source that stays below its bound; no candidate is lost or duplicated.
\<close>

theorem slm_res_shuffle_permutes:
  assumes "\<forall>k b. 0 < b \<longrightarrow> rnd k b < b"
  shows "mset (snd (slm_res_shuffle rnd bgn (k, a))) = mset a \<and>
    take bgn (snd (slm_res_shuffle rnd bgn (k, a))) = take bgn a"
  using shuffle_props [OF assms, of bgn "(k, a)"] by simp

theorem slm_res_shuffle_permutes_witness:
  "mset (snd (slm_res_shuffle (\<lambda>k b. k mod b) 1 (0, [5, 6, 7, 8 :: nat]))) = mset [5, 6, 7, 8] \<and>
   take 1 (snd (slm_res_shuffle (\<lambda>k b. k mod b) 1 (0, [5, 6, 7, 8 :: nat]))) = take 1 [5, 6, 7, 8]"
  using slm_res_shuffle_permutes [of "\<lambda>k b. k mod b" 1 0 "[5, 6, 7, 8 :: nat]"] by simp



subsection \<open>The traffic estimate\<close>

abbreviation (input) slvr_data :: "u8 list \<Rightarrow> nat \<Rightarrow> bool" where
  "slvr_data st i \<equiv> (st ! i) AND BMAP_SLVR_DATA \<noteq> 0"

lemma repltraffic_full:
  "repltraffic_loop False ls sz st is amt = amt + length (filter (slvr_data st) is) * SLASH_SLVR_SIZE"
  by (induction "is" arbitrary: amt) auto

lemma repltraffic_le:
  "sz \<le> SLASH_SLVR_SIZE \<Longrightarrow>
   repltraffic_loop l ls sz st is amt \<le> amt + length (filter (slvr_data st) is) * SLASH_SLVR_SIZE"
proof (induction "is" arbitrary: amt)
  case (Cons i "is")
  show ?case using Cons.prems Cons.IH [of amt] Cons.IH [of "amt + SLASH_SLVR_SIZE"]
    by (cases "slvr_data st i"; cases "l \<and> i = ls") simp_all
qed simp

lemma repltraffic_last:
  "ls \<notin> set xs \<Longrightarrow> slvr_data st ls \<Longrightarrow>
   repltraffic_loop True ls sz st (xs @ ls # ys) amt =
     amt + length (filter (slvr_data st) xs) * SLASH_SLVR_SIZE + sz"
  by (induction xs arbitrary: amt) auto

lemma mod_up_split:
  fixes f b :: nat
  assumes "f \<noteq> 0" "0 < b"
  shows "(f + b - 1) div b - 1 = (f - 1) div b"
    "(if f mod b = 0 then b else f mod b) = (f - 1) mod b + 1"
proof -
  obtain g where g: "f = Suc g" using assms(1) by (cases f) auto
  show "(f + b - 1) div b - 1 = (f - 1) div b" using assms(2) by (simp add: g div_add_self2)
  show "(if f mod b = 0 then b else f mod b) = (f - 1) mod b + 1"
    using assms(2) by (auto simp: g mod_Suc split: if_splits)
qed

lemma last_sliver_split:
  fixes f :: nat
  shows "f div SLASH_BMAP_SIZE * SLASH_BMAP_SIZE + f mod SLASH_BMAP_SIZE div SLASH_SLVR_SIZE * SLASH_SLVR_SIZE +
    f mod SLASH_SLVR_SIZE = f"
proof -
  have "f mod SLASH_SLVR_SIZE = f mod SLASH_BMAP_SIZE mod SLASH_SLVR_SIZE"
    by (simp add: mod_mod_cancel)
  then have "f mod SLASH_BMAP_SIZE div SLASH_SLVR_SIZE * SLASH_SLVR_SIZE + f mod SLASH_SLVR_SIZE =
      f mod SLASH_BMAP_SIZE"
    by (simp only: div_mult_mod_eq)
  then show ?thesis by (simp only: add.assoc div_mult_mod_eq)
qed

lemma upt_split_at: "k < n \<Longrightarrow> [0..<n] = [0..<k] @ k # [Suc k..<n]"
  using upt_add_eq_append [of 0 k "n - k"] upt_conv_Cons [of k n] by simp

lemma repltraffic_unfold:
  "slm_bmap_calc_repltraffic s =
     repltraffic_loop (bcm_bmapno (mb s) = fcmh_nvalidbmaps (mf s) - 1)
       (if fcmh_fsz (mf s) \<noteq> 0 then (fcmh_fsz (mf s) - 1) mod SLASH_BMAP_SIZE div SLASH_SLVR_SIZE else 0)
       (if fcmh_fsz (mf s) = 0 then 0 else (fcmh_fsz (mf s) - 1) mod SLASH_SLVR_SIZE + 1)
       (bmi_crcstates (mb s)) [0..<SLASH_SLVRS_PER_BMAP] 0"
proof -
  let ?f = "fcmh_fsz (mf s)"
  have last: "(if fcmh_nvalidbmaps (mf s) \<noteq> 0 then fcmh_nvalidbmaps (mf s) - 1 else fcmh_nvalidbmaps (mf s)) =
      fcmh_nvalidbmaps (mf s) - 1" by simp
  show ?thesis
    unfolding slm_bmap_calc_repltraffic_def Let_def last
    using mod_up_split(2) [of ?f SLASH_BMAP_SIZE] mod_up_split(2) [of ?f SLASH_SLVR_SIZE]
    by (cases "?f = 0") (simp_all only: simp_thms if_True if_False, simp_all)
qed


definition ms_traffic_ex :: "(nat \<Rightarrow> bmap_ondisk \<times> u64) mst" where
  "ms_traffic_ex = (let s = ms_ex [11, 12] both_valid in s\<lparr>mb := (mb s)\<lparr>bmi_crcstates := replicate 128 1\<rparr>\<rparr>)"


end
