(* ===== verification/Journal.thy ===== *)
theory Journal
  imports Repl_Req
begin

text \<open>
  Journal records of inodes (\<open>mdslogfill_ino_repls\<close> of \<open>slashd/mdslog.c\<close>) and the
  replay of records after a restart (\<open>slashd/jreplay.c\<close>), with the inheritance of a
  directory's replicas (\<open>_slm_fcmh_endow\<close> of \<open>slashd/fidc_mds.c\<close>), which writes
  the same record. A replay function works on the file its record names; finding the file is
  left to the caller. A journal buffer keeps what an earlier record left in it, so the entries
  of the replica array that the code does not fill are an argument.
\<close>

subsection \<open>Inode records\<close>

record slmds_jent_ino_repls =
  sjir_fid :: u64
  sjir_replpol :: u32
  sjir_nrepls :: nat
  sjir_repls :: "u32 list"

definition mdslogfill_ino_repls :: "u32 list \<Rightarrow> 'm fcmh \<Rightarrow> slmds_jent_ino_repls option" where
  "mdslogfill_ino_repls stale f = do {
     psc_assert (fcmh_isdir f \<or> fcmh_2_nrepls f \<noteq> 0);
     let ino = inoh_ino (fcmh_inoh f);
     more \<leftarrow> (if ino_nrepls ino > SL_DEF_REPLICAS
             then do { x \<leftarrow> inoh_extras (fcmh_inoh f); Some (inox_repls x) } else Some stale);
     Some \<lparr>sjir_fid = fcmh_fid f, sjir_replpol = ino_replpol ino, sjir_nrepls = ino_nrepls ino,
           sjir_repls = ino_repls ino @ more\<rparr>
   }"

abbreviation (input) FID_ANY :: u64 where "FID_ANY \<equiv> 0xffffffffffffffff"

text \<open>The messages about an unexpected record of a new inode do not change the outcome.\<close>

definition mds_replay_ino :: "'m mdenv \<Rightarrow> slmds_jent_ino_repls \<Rightarrow> 'm fcmh \<Rightarrow> (int \<times> 'm fcmh) option" where
  "mds_replay_ino env j f =
     (if sjir_fid j = FID_ANY then Some (EINVAL, f)
      else do {
        psc_assert (fcmh_isdir f \<or> list_ex (\<lambda>r. r \<noteq> 0) (sjir_repls j));
        psc_assert (sjir_nrepls j \<le> SL_MAX_REPLICAS);
        (rc, ih) \<leftarrow>
          (if sjir_nrepls j > SL_DEF_REPLICAS then do {
             (_, ih) \<leftarrow> mds_inox_ensure_loaded env (fcmh_inoh f);
             x \<leftarrow> inoh_extras ih;
             mds_inox_write env False (ih\<lparr>inoh_extras :=
               Some (x\<lparr>inox_repls := drop SL_DEF_REPLICAS (sjir_repls j)\<rparr>)\<rparr>)
           } else Some (0, fcmh_inoh f));
        if rc \<noteq> 0 then Some (rc, f\<lparr>fcmh_inoh := ih\<rparr>)
        else let (rc, ih) = mds_inode_write env False (ih\<lparr>inoh_ino := (inoh_ino ih)\<lparr>
                   ino_replpol := sjir_replpol j, ino_nrepls := sjir_nrepls j,
                   ino_repls := take SL_DEF_REPLICAS (sjir_repls j)\<rparr>\<rparr>)
             in Some (rc, f\<lparr>fcmh_inoh := ih\<rparr>)
      })"

subsection \<open>Inheriting the replicas of a directory\<close>

definition slm_fcmh_endow ::
    "'m mdenv \<Rightarrow> bool \<Rightarrow> 'm fcmh \<Rightarrow> 'm fcmh \<Rightarrow> ('m fcmh \<times> 'm fcmh) option" where
  "slm_fcmh_endow env wr p c = do {
     let pi = inoh_ino (fcmh_inoh p);
     let nr = ino_nrepls pi;
     (ph, more) \<leftarrow> (if nr > SL_DEF_REPLICAS then do {
                       (_, ih) \<leftarrow> mds_inox_ensure_loaded env (fcmh_inoh p);
                       x \<leftarrow> inoh_extras ih;
                       Some (ih, inox_repls x)
                     } else Some (fcmh_inoh p, []));
     psc_assert (\<not> fcmh_busy c);
     let ch = (fcmh_inoh c)\<lparr>inoh_ino := (inoh_ino (fcmh_inoh c))\<lparr>ino_replpol := ino_replpol pi,
                ino_nrepls := nr, ino_repls := ino_repls pi\<rparr>\<rparr>;
     ch \<leftarrow> (if nr > SL_DEF_REPLICAS then do {
               (_, ih) \<leftarrow> mds_inox_ensure_loaded env ch;
               x \<leftarrow> inoh_extras ih;
               Some (ih\<lparr>inoh_extras := Some (x\<lparr>inox_repls := more\<rparr>)\<rparr>)
             } else Some ch);
     ch \<leftarrow> (if wr then map_option snd (mds_inodes_odsync env True ch) else Some ch);
     Some (p\<lparr>fcmh_inoh := ph\<rparr>, c\<lparr>fcmh_inoh := ch\<rparr>)
   }"

subsection \<open>Bmap records\<close>

definition replay_tract :: "int list" where
  "replay_tract = (brepls_init (- 1))[BREPLST_REPL_SCHED := int BREPLST_REPL_QUEUED,
     BREPLST_GARBAGE_SCHED := int BREPLST_GARBAGE]"

fun replay_inserts :: "'m bmenv \<Rightarrow> nat list \<Rightarrow> 'm mst \<Rightarrow> 'm mst option" where
  "replay_inserts be [] s = Some s"
| "replay_inserts be (n # ns) s =
     (if SL_REPL_GET_BMAP_IOS_STAT (bmi_repls (mb s)) (n * SL_BITS_PER_REPLICA) \<in>
           {BREPLST_REPL_QUEUED, BREPLST_GARBAGE}
      then do {
        (resid, ih) \<leftarrow> fcmh_2_repl (be_env be) (fcmh_inoh (mf s)) n;
        replay_inserts be ns (s\<lparr>mf := (mf s)\<lparr>fcmh_inoh := ih\<rparr>,
          mev := mev s @ slm_upsch_insert (be_cf be) (bcm_bmapno (mb s)) resid 0 0\<rparr>)
      }
      else replay_inserts be ns s)"

definition mds_replay_repls ::
    "'m bmenv \<Rightarrow> (u32 \<Rightarrow> bool) \<Rightarrow> slmds_jent_bmap_repls \<Rightarrow> 'm mst \<Rightarrow> (int \<times> 'm mst) option" where
  "mds_replay_repls be si_notsup sjbr s = do {
     mds_brepls_check (sjbr_repls sjbr) (sjbr_nrepls sjbr);
     let s = s\<lparr>mb := (mb s)\<lparr>bcm_opcnt := bcm_opcnt (mb s) + 1\<rparr>\<rparr>;
     (_, s, _) \<leftarrow> mds_repl_bmap_walk (Some (brepls_init (- 1))) None 0 [] None (s, ());
     let s = s\<lparr>mb := (mb s)\<lparr>bmi_orepls := bmi_repls (mb s), bes_replpol := sjbr_replpol sjbr,
                            bmi_repls := sjbr_repls sjbr\<rparr>\<rparr>;
     (_, s, _) \<leftarrow> mds_repl_bmap_walk (Some replay_tract) None 0 [] None (s, ());
     s \<leftarrow> slm_repl_upd_write be si_notsup True (s\<lparr>mb := (mb s)\<lparr>bcm_replmodwr := True\<rparr>\<rparr>);
     s \<leftarrow> replay_inserts be [0..<fcmh_2_nrepls (mf s)] s;
     (rc, s) \<leftarrow> mds_bmap_write be Log_None s;
     s \<leftarrow> bmap_op_done s;
     Some (rc, s)
   }"

fun replay_crcs :: "srt_bmap_crcwire list \<Rightarrow> mds_bmap \<Rightarrow> mds_bmap option" where
  "replay_crcs [] b = Some b"
| "replay_crcs (c # cs) b = do {
     psc_assert (crcw_slot c < SLASH_CRCS_PER_BMAP);
     replay_crcs cs (b\<lparr>bes_crcs := (bes_crcs b)[crcw_slot c := crcw_crc c],
       bmi_crcstates := (bmi_crcstates b)[crcw_slot c :=
         (bmi_crcstates b ! crcw_slot c) OR (BMAP_SLVR_DATA OR BMAP_SLVR_CRC)]\<rparr>)
   }"

definition mds_replay_crc ::
    "'m bmenv \<Rightarrow> slmds_jent_bmap_crc \<Rightarrow> 'm mst \<Rightarrow> (int \<times> 'm mst) option" where
  "mds_replay_crc be sjbc s = do {
     let env = be_env be;
     psc_assert (\<not> fcmh_busy (mf s));
     (idx, ih) \<leftarrow> mds_repl_ios_lookup env (be_cf be) (fcmh_inoh (mf s)) (sjbc_iosid sjbc) 0;
     let s = s\<lparr>mf := (mf s)\<lparr>fcmh_inoh := ih\<rparr>\<rparr>;
     if idx < 0 then do { s \<leftarrow> bmap_op_done s; Some (0, s) }
     else do {
       ih \<leftarrow> fcmh_set_repl_nblks env ih (nat idx) (sjbc_repl_nblks sjbc);
       (rc, ih) \<leftarrow> (if nat idx \<ge> SL_DEF_REPLICAS then mds_inox_write env False ih
                   else Some (mds_inode_write env False ih));
       let s = s\<lparr>mf := (mf s)\<lparr>fcmh_inoh := ih\<rparr>\<rparr>;
       if rc \<noteq> 0 then do { s \<leftarrow> bmap_op_done s; Some (rc, s) }
       else do {
         let (rc, nblks, fsz) = mdsio_setattr be (fcmh_fid (mf s)) (sjbc_aggr_nblks sjbc)
               (if sjbc_extend sjbc \<noteq> 0 then Some (sjbc_fsize sjbc) else None);
         if rc \<noteq> 0 then do { s \<leftarrow> bmap_op_done s; Some (rc, s) }
         else do {
           let s = s\<lparr>mf := (mf s)\<lparr>fcmh_nblks := nblks, fcmh_fsz := fsz\<rparr>\<rparr>;
           b \<leftarrow> replay_crcs (sjbc_crc sjbc) (mb s);
           (rc, s) \<leftarrow> mds_bmap_write be Log_None (s\<lparr>mb := b\<rparr>);
           s \<leftarrow> bmap_op_done s;
           Some (rc, s)
         }
       }
     }
   }"

datatype b_replay_op = B_REPLAY_OP_CRC slmds_jent_bmap_crc | B_REPLAY_OP_REPLS slmds_jent_bmap_repls

definition mds_replay_bmap ::
    "'m bmenv \<Rightarrow> (u32 \<Rightarrow> bool) \<Rightarrow> (nat \<Rightarrow> (u32 \<times> u32) list) \<Rightarrow> b_replay_op \<Rightarrow> 'm fstate \<Rightarrow>
     (int \<times> 'm fstate) option" where
  "mds_replay_bmap be si_notsup rows op fs = do {
     let bno = (case op of B_REPLAY_OP_CRC j \<Rightarrow> sjbc_bmapno j | B_REPLAY_OP_REPLS j \<Rightarrow> sjbr_bmapno j);
     (r, fs) \<leftarrow> bmap_get be rows bno fs;
     case r of Inl rc \<Rightarrow> Some (rc, fs)
     | Inr s \<Rightarrow> do {
         (rc, s) \<leftarrow> (case op of B_REPLAY_OP_CRC j \<Rightarrow> mds_replay_crc be j s
                    | B_REPLAY_OP_REPLS j \<Rightarrow> mds_replay_repls be si_notsup j s);
         Some (rc, bmap_put s fs)
       }
   }"

subsection \<open>Lemmas\<close>

definition replay_state :: "nat \<Rightarrow> nat" where
  "replay_state v = (if v = BREPLST_REPL_SCHED then BREPLST_REPL_QUEUED
     else if v = BREPLST_GARBAGE_SCHED then BREPLST_GARBAGE else v)"

lemma replay_tract_step: "v < 8 \<Longrightarrow> tract_step replay_tract v = replay_state v"
  using less_8_cases [of v]
  by (auto simp: tract_step_def replay_tract_def brepls_init_list replay_state_def)

lemma noop_tract_step: "v < 8 \<Longrightarrow> tract_step (brepls_init (- 1)) v = v"
  by (simp add: tract_step_def noop_tract)

lemma replay_tract_ok: "tract_ok replay_tract"
  by (simp add: replay_tract_def)

text \<open>A walk over all replicas of a file that has some.\<close>

lemma all_walk:
  fixes s :: "'m mst"
  assumes "walk_ready s" "brepls_ok (bmi_repls (mb s))" "tract_ok tr"
    and "0 < fcmh_2_nrepls (mf s)" "fcmh_2_nrepls (mf s) \<le> SL_MAX_REPLICAS"
  obtains s' r where
    "mds_repl_bmap_walk (Some tr) None 0 [] None (s, ()) = Some (0, s', ())"
    "mb s' = wrlocked (mb s)\<lparr>bmi_repls := r\<rparr>"
    "\<And>k. k < SL_MAX_REPLICAS \<Longrightarrow> repl_st r k =
       (if k < fcmh_2_nrepls (mf s) then tract_step tr (repl_st (bmi_repls (mb s)) k)
        else repl_st (bmi_repls (mb s)) k)"
    "walk_ready s'" "brepls_ok r" "fcmh_inoh (mf s') = fcmh_inoh (mf s)" "mev s' = mev s"
proof -
  let ?ks = "[0..<fcmh_2_nrepls (mf s)]"
  have z: "ret_last None r ks 0 = 0" for r ks by (simp add: ret_last_zero_iff ret_val_def)
  have ks: "walk_ks_ok ?ks" "?ks \<noteq> []" "repl_walk_indexes (fcmh_2_nrepls (mf s)) 0 [] = ?ks"
    using assms(4,5) by (auto simp: walk_ks_ok_def repl_walk_indexes_def)
  show ?thesis
  proof (rule index_walk [OF assms(1-3) ks, of None], goal_cases)
    case (1 s')
    from 1(2) obtain r where "mb s' = wrlocked (mb s)\<lparr>bmi_repls := r\<rparr>" ..
    with 1 show ?case by (intro that [of s' r]) (simp_all add: z)
  qed
qed

lemma replay_inserts_loaded:
  assumes "inoh_ok (fcmh_inoh (mf s))" "\<forall>n \<in> set ns. n < fcmh_2_nrepls (mf s)"
  shows "\<exists>evs. replay_inserts be ns s = Some (s\<lparr>mev := mev s @ evs\<rparr>)"
  using assms
proof (induction ns arbitrary: s)
  case (Cons n ns)
  show ?case
  proof (cases "SL_REPL_GET_BMAP_IOS_STAT (bmi_repls (mb s)) (n * SL_BITS_PER_REPLICA) \<in>
      {BREPLST_REPL_QUEUED, BREPLST_GARBAGE}")
    case True
    let ?e = "slm_upsch_insert (be_cf be) (bcm_bmapno (mb s)) (rlist (fcmh_inoh (mf s)) ! n) 0 0"
    from Cons.IH [of "s\<lparr>mev := mev s @ ?e\<rparr>"] Cons.prems obtain evs where
      "replay_inserts be ns (s\<lparr>mev := mev s @ ?e\<rparr>) = Some (s\<lparr>mev := mev s @ ?e @ evs\<rparr>)" by auto
    with True Cons.prems show ?thesis
      by (intro exI [of _ "?e @ evs"]) (simp add: fcmh_2_repl_loaded)
  next
    case False
    then show ?thesis using Cons by (simp del: insert_iff)
  qed
qed (simp add: exI [of _ "[]"])

lemma write_nolog:
  assumes "rw_ok be" "has_data s"
  shows "\<exists>rc s'. mds_bmap_write be Log_None s = Some (rc, s') \<and>
    bmi_2_ondisk (mb s') = bmi_2_ondisk (mb s) \<and> bcm_opcnt (mb s') = bcm_opcnt (mb s) \<and>
    (let d = bmi_2_ondisk (mb s);
         (rc0, nb, lg, m) = pwritev_bmap be (mst_mfh s) (bcm_bmapno (mb s)) d (crc64_bod be d) False
     in mst_mfh s' = m)"
proof -
  let ?d = "bmi_2_ondisk (mb s)"
  obtain rc0 nb lg m where pw: "pwritev_bmap be (mst_mfh s) (bcm_bmapno (mb s)) ?d
      (crc64_bod be ?d) (Log_None \<noteq> Log_None) = (rc0, nb, lg, m)"
    using prod_cases4 by blast
  show ?thesis
    using pw unfolding mds_bmap_write_unfold [OF assms(1) pw]
    by (simp add: assms(2) run_logf_def bmi_2_ondisk_def mst_set_rw_def mst_set_mfh_def Let_def)
qed

lemma brepls_check_has_data:
  "mds_brepls_check r nr = Some () \<Longrightarrow> 0 < nr \<and> nr \<le> SL_MAX_REPLICAS \<and>
   (\<exists>k < nr. repl_st r k \<in> {BREPLST_VALID, BREPLST_GARBAGE, BREPLST_GARBAGE_SCHED,
      BREPLST_TRUNCPNDG, BREPLST_TRUNCPNDG_SCHED})"
  by (auto simp: mds_brepls_check_def list_ex_iff repl_st_def bind_eq_Some_conv psc_assert_def split: if_splits)

lemma replay_tables:
  fixes s :: "'m mst"
  assumes "walk_ready s" "brepls_ok (bmi_repls (mb s))" "brepls_ok (sjbr_repls j)"
    and "0 < fcmh_2_nrepls (mf s)" "fcmh_2_nrepls (mf s) \<le> SL_MAX_REPLICAS"
  obtains s1 s2 r where
    "mds_repl_bmap_walk (Some (brepls_init (- 1))) None 0 [] None (s, ()) = Some (0, s1, ())"
    "mds_repl_bmap_walk (Some replay_tract) None 0 [] None
       (s1\<lparr>mb := (mb s1)\<lparr>bmi_orepls := bmi_repls (mb s1), bes_replpol := sjbr_replpol j,
                         bmi_repls := sjbr_repls j\<rparr>\<rparr>, ()) = Some (0, s2, ())"
    "\<And>k. k < SL_MAX_REPLICAS \<Longrightarrow> repl_st r k =
       (if k < fcmh_2_nrepls (mf s) then replay_state (repl_st (sjbr_repls j) k)
        else repl_st (sjbr_repls j) k)"
    "bmi_2_ondisk (mb s2) = (bmi_2_ondisk (mb s))\<lparr>bod_repls := r, bod_replpol := sjbr_replpol j\<rparr>"
    "fcmh_inoh (mf s2) = fcmh_inoh (mf s)" "bcm_opcnt (mb s2) = bcm_opcnt (mb s)"
    "bcm_bmapno (mb s2) = bcm_bmapno (mb s)"
proof -
  obtain s1 r1 where w1: "mds_repl_bmap_walk (Some (brepls_init (- 1))) None 0 [] None (s, ()) = Some (0, s1, ())"
    and m1: "mb s1 = wrlocked (mb s)\<lparr>bmi_repls := r1\<rparr>" "walk_ready s1"
      "fcmh_inoh (mf s1) = fcmh_inoh (mf s)"
    by (rule all_walk [OF assms(1,2) tract_ok_init assms(4,5)])
  let ?s = "s1\<lparr>mb := (mb s1)\<lparr>bmi_orepls := bmi_repls (mb s1), bes_replpol := sjbr_replpol j,
                         bmi_repls := sjbr_repls j\<rparr>\<rparr>"
  have ok: "walk_ready ?s" "brepls_ok (bmi_repls (mb ?s))" "fcmh_2_nrepls (mf ?s) = fcmh_2_nrepls (mf s)"
    using m1 assms(3) by (simp_all add: walk_ready_def)
  obtain s2 r where w2: "mds_repl_bmap_walk (Some replay_tract) None 0 [] None (?s, ()) = Some (0, s2, ())"
    and m2: "mb s2 = wrlocked (mb ?s)\<lparr>bmi_repls := r\<rparr>"
      "\<And>k. k < SL_MAX_REPLICAS \<Longrightarrow> repl_st r k =
       (if k < fcmh_2_nrepls (mf ?s) then tract_step replay_tract (repl_st (bmi_repls (mb ?s)) k)
        else repl_st (bmi_repls (mb ?s)) k)"
      "fcmh_inoh (mf s2) = fcmh_inoh (mf ?s)"
    by (rule all_walk [OF ok(1,2) replay_tract_ok]) (use ok(3) assms(4,5) in auto)
  show ?thesis
  proof (rule that [OF w1 w2])
    show "repl_st r k = (if k < fcmh_2_nrepls (mf s) then replay_state (repl_st (sjbr_repls j) k)
        else repl_st (sjbr_repls j) k)" if "k < SL_MAX_REPLICAS" for k
      using m2(2) [OF that] ok(3) by (simp add: replay_tract_step brt.tget_less)
    show "bmi_2_ondisk (mb s2) = (bmi_2_ondisk (mb s))\<lparr>bod_repls := r, bod_replpol := sjbr_replpol j\<rparr>"
      by (simp add: m2(1) m1(1) bmi_2_ondisk_def wrlocked_def)
    show "bcm_opcnt (mb s2) = bcm_opcnt (mb s)" "bcm_bmapno (mb s2) = bcm_bmapno (mb s)"
      by (simp_all add: m2(1) m1(1) wrlocked_def)
  qed (use m2(3) m1(3) in simp)
qed

lemma replay_tail:
  assumes "rw_ok be" "has_data s" "inoh_ok (fcmh_inoh (mf s))" "bcm_opcnt (mb s) > 1"
  shows "\<exists>rc s'. do {
      s \<leftarrow> slm_repl_upd_write be si True (s\<lparr>mb := (mb s)\<lparr>bcm_replmodwr := True\<rparr>\<rparr>);
      s \<leftarrow> replay_inserts be [0..<fcmh_2_nrepls (mf s)] s;
      (rc, s) \<leftarrow> mds_bmap_write be Log_None s;
      s \<leftarrow> bmap_op_done s;
      Some (rc, s) } = Some (rc, s') \<and> bmi_2_ondisk (mb s') = bmi_2_ondisk (mb s) \<and>
    (case pwritev_bmap be (mst_mfh s) (bcm_bmapno (mb s)) (bmi_2_ondisk (mb s))
       (crc64_bod be (bmi_2_ondisk (mb s))) False of (rc0, nb, lg, m) \<Rightarrow> mst_mfh s' = m)"
proof -
  let ?s = "s\<lparr>mb := (mb s)\<lparr>bcm_replmodwr := True\<rparr>\<rparr>"
  obtain s3 where u: "slm_repl_upd_write be si True ?s = Some s3"
      "fcmh_inoh (mf s3) = fcmh_inoh (mf s)" "bmi_2_ondisk (mb s3) = bmi_2_ondisk (mb s)"
      "bcm_opcnt (mb s3) > 0" "bcm_bmapno (mb s3) = bcm_bmapno (mb s)"
      "bmi_repls (mb s3) = bmi_repls (mb s)"
    by (rule upd_write_loaded [of ?s True be si]) (use assms(3,4) in \<open>auto simp: bmi_2_ondisk_def\<close>)
  obtain evs where i: "replay_inserts be [0..<fcmh_2_nrepls (mf s3)] s3 = Some (s3\<lparr>mev := mev s3 @ evs\<rparr>)"
    using replay_inserts_loaded [of s3 "[0..<fcmh_2_nrepls (mf s3)]" be] u(2) assms(3) by auto
  have "has_data (s3\<lparr>mev := mev s3 @ evs\<rparr>)"
    using assms(2) u(2,6) by (simp add: has_data_def)
  from write_nolog [OF assms(1) this] obtain rc s4 where
    wr: "mds_bmap_write be Log_None (s3\<lparr>mev := mev s3 @ evs\<rparr>) = Some (rc, s4)"
      "bmi_2_ondisk (mb s4) = bmi_2_ondisk (mb s)" "bcm_opcnt (mb s4) > 0"
      "case pwritev_bmap be (mst_mfh s) (bcm_bmapno (mb s)) (bmi_2_ondisk (mb s))
         (crc64_bod be (bmi_2_ondisk (mb s))) False of (rc0, nb, lg, m) \<Rightarrow> mst_mfh s4 = m"
    using u by (auto simp: Let_def)
  let ?s' = "s4\<lparr>mb := (mb s4)\<lparr>bcm_opcnt := bcm_opcnt (mb s4) - 1\<rparr>\<rparr>"
  show ?thesis
    using u(1) i wr by (intro exI [of _ rc] exI [of _ ?s']) (simp add: bmap_op_done_def bmi_2_ondisk_def)
qed

subsection \<open>Properties\<close>


definition ms_log_ex :: "(nat \<Rightarrow> bmap_ondisk \<times> u64) mst" where
  "ms_log_ex = (let s = ms_ex [11, 12] (11 # replicate 23 0)
     in s\<lparr>mb := (mb s)\<lparr>bcm_busy := True\<rparr>, mf := (mf s)\<lparr>fcmh_busy := True\<rparr>\<rparr>)"

lemma ms_log_ex_facts:
  "\<exists>j. mdslogfill_bmap_repls ms_log_ex = Some j" "brepls_ok (bmi_repls (mb ms_log_ex))"
  "fcmh_2_nrepls (mf ms_log_ex) = 2"
  by (simp_all add: ms_log_ex_def ms_ex_def bmap_ex_def mdslogfill_bmap_repls_def brepls_ok_def
      SL_REPLICA_NBYTES_def)

lemma ms_log_ex_states:
  "repl_st (bmi_repls (mb ms_log_ex)) 0 = BREPLST_VALID"
  "repl_st (bmi_repls (mb ms_log_ex)) 1 = BREPLST_REPL_SCHED"
  by (simp_all add: ms_log_ex_def ms_ex_def bmap_ex_def repl_st_def SL_REPL_GET_BMAP_IOS_STAT_def
      SL_REPLICA_MASK_def)

lemma ms_log_ex_check:
  "mds_brepls_check (bmi_repls (mb ms_log_ex)) (fcmh_2_nrepls (mf ms_log_ex)) = Some ()"
proof -
  have "list_ex (\<lambda>i. SL_REPL_GET_BMAP_IOS_STAT (bmi_repls (mb ms_log_ex)) (i * SL_BITS_PER_REPLICA) \<in>
      {BREPLST_VALID, BREPLST_GARBAGE, BREPLST_GARBAGE_SCHED, BREPLST_TRUNCPNDG,
       BREPLST_TRUNCPNDG_SCHED}) [0..<2]"
    unfolding list_ex_iff
    by (rule bexI [of _ 0]) (use ms_log_ex_states(1) in \<open>simp_all add: repl_st_def\<close>)
  then show ?thesis unfolding mds_brepls_check_def ms_log_ex_facts(3) by (simp only: if_True) simp
qed


definition inode_writes_ok :: "'m mdenv \<Rightarrow> bool" where
  "inode_writes_ok env \<longleftrightarrow>
     (\<forall>m x c l. \<exists>m'. pwritev_ino env m x c l = (0, INO_SZ + CRC_SZ, m')) \<and>
     (\<forall>m x c l. \<exists>m'. pwritev_inox env m x c l = (0, INOX_SZ + CRC_SZ, m'))"

lemma inode_write_accepted:
  assumes "inode_writes_ok env"
  shows "\<exists>m. mds_inode_write env l ih = (0, ih\<lparr>inoh_mfh := m, inoh_ino_new := False\<rparr>)"
proof -
  obtain m where "pwritev_ino env (inoh_mfh ih) (inoh_ino ih) (crc64_ino env (inoh_ino ih)) l =
      (0, INO_SZ + CRC_SZ, m)"
    using assms unfolding inode_writes_ok_def by blast
  then show ?thesis by (intro exI [of _ m]) (simp add: mds_inode_write_def Let_def)
qed

lemma inox_write_accepted:
  assumes "inode_writes_ok env" "inoh_extras ih = Some x"
  shows "\<exists>m. mds_inox_write env l ih = Some (0, ih\<lparr>inoh_mfh := m\<rparr>)"
proof -
  obtain m where "pwritev_inox env (inoh_mfh ih) x (crc64_inox env x) l = (0, INOX_SZ + CRC_SZ, m)"
    using assms(1) unfolding inode_writes_ok_def by blast
  then show ?thesis using assms(2) by (intro exI [of _ m]) (simp add: mds_inox_write_def Let_def)
qed

lemma ensure_loaded_extras:
  assumes "mds_inox_ensure_loaded env ih = Some (rc, ih')"
  shows "inoh_ino ih' = inoh_ino ih"
  using assms by (auto simp: mds_inox_ensure_loaded_def mds_inox_load_locked_def Let_def
      bind_eq_Some_conv psc_assert_def split: if_splits prod.splits)

text \<open>The state of the extras block, when it is needed for \<open>nr\<close> replicas.\<close>

definition inox_ready :: "'m mdenv \<Rightarrow> nat \<Rightarrow> 'm slm_inoh \<Rightarrow> bool" where
  "inox_ready env nr ih \<longleftrightarrow> (nr > SL_DEF_REPLICAS \<longrightarrow> inox_readable env ih)"

lemma inox_readyD:
  assumes "inox_ready env nr ih" "nr > SL_DEF_REPLICAS"
  obtains ih' x where "mds_inox_ensure_loaded env ih = Some (0, ih')" "inoh_extras ih' = Some x"
    "length (inox_repls x) = SL_INOX_NREPLICAS" "inoh_ino ih' = inoh_ino ih"
proof -
  obtain ih' x where l: "mds_inox_ensure_loaded env ih = Some (0, ih')" "inoh_extras ih' = Some x"
    "length (inox_repls x) = SL_INOX_NREPLICAS"
    using assms by (auto simp: inox_ready_def inox_readable_def split: option.splits)
  then show ?thesis using that ensure_loaded_extras by blast
qed

definition replayed_inode :: "slmds_jent_ino_repls \<Rightarrow> 'm slm_inoh \<Rightarrow> bool" where
  "replayed_inode j ih \<longleftrightarrow> ino_nrepls (inoh_ino ih) = sjir_nrepls j \<and>
     ino_replpol (inoh_ino ih) = sjir_replpol j \<and>
     ino_repls (inoh_ino ih) = take SL_DEF_REPLICAS (sjir_repls j) \<and>
     (sjir_nrepls j > SL_DEF_REPLICAS \<longrightarrow>
        (\<exists>x. inoh_extras ih = Some x \<and> inox_repls x = drop SL_DEF_REPLICAS (sjir_repls j)))"

lemma replayed_inode_rlist: "replayed_inode j ih \<Longrightarrow> length (sjir_repls j) \<ge> SL_DEF_REPLICAS \<Longrightarrow>
   rlist ih = take (sjir_nrepls j) (sjir_repls j)"
  by (cases "sjir_nrepls j > SL_DEF_REPLICAS")
    (auto simp: replayed_inode_def rlist_def min_def simp del: take_append, simp)

lemma replay_ino_runs:
  assumes "sjir_fid j \<noteq> FID_ANY" "fcmh_isdir f \<or> list_ex (\<lambda>r. r \<noteq> 0) (sjir_repls j)"
    and "sjir_nrepls j \<le> SL_MAX_REPLICAS" "inode_writes_ok env"
    and "inox_ready env (sjir_nrepls j) (fcmh_inoh f)"
  shows "\<exists>f'. mds_replay_ino env j f = Some (0, f') \<and> replayed_inode j (fcmh_inoh f')"
proof -
  have "\<exists>ih. (if sjir_nrepls j > SL_DEF_REPLICAS then do {
             (_, ih) \<leftarrow> mds_inox_ensure_loaded env (fcmh_inoh f);
             x \<leftarrow> inoh_extras ih;
             mds_inox_write env False (ih\<lparr>inoh_extras :=
               Some (x\<lparr>inox_repls := drop SL_DEF_REPLICAS (sjir_repls j)\<rparr>)\<rparr>)
           } else Some (0, fcmh_inoh f)) = Some (0, ih) \<and>
      (sjir_nrepls j > SL_DEF_REPLICAS \<longrightarrow>
        (\<exists>x. inoh_extras ih = Some x \<and> inox_repls x = drop SL_DEF_REPLICAS (sjir_repls j)))" (is "\<exists>ih. ?P ih")
  proof (cases "sjir_nrepls j > SL_DEF_REPLICAS")
    case True
    obtain ih x where l: "mds_inox_ensure_loaded env (fcmh_inoh f) = Some (0, ih)" "inoh_extras ih = Some x"
      by (rule inox_readyD [OF assms(5) True])
    let ?ih = "ih\<lparr>inoh_extras := Some (x\<lparr>inox_repls := drop SL_DEF_REPLICAS (sjir_repls j)\<rparr>)\<rparr>"
    obtain m where w: "mds_inox_write env False ?ih = Some (0, ?ih\<lparr>inoh_mfh := m\<rparr>)"
      using inox_write_accepted [OF assms(4), of ?ih] by auto
    show ?thesis using True l w by (intro exI [of _ "?ih\<lparr>inoh_mfh := m\<rparr>"]) simp
  qed simp
  then obtain ih where ih: "?P ih" ..
  let ?ih2 = "ih\<lparr>inoh_ino := (inoh_ino ih)\<lparr>ino_replpol := sjir_replpol j, ino_nrepls := sjir_nrepls j,
     ino_repls := take SL_DEF_REPLICAS (sjir_repls j)\<rparr>\<rparr>"
  obtain m2 where w2: "mds_inode_write env False ?ih2 = (0, ?ih2\<lparr>inoh_mfh := m2, inoh_ino_new := False\<rparr>)"
    using inode_write_accepted [OF assms(4), of False ?ih2] by auto
  have "mds_replay_ino env j f = Some (0, f\<lparr>fcmh_inoh := ?ih2\<lparr>inoh_mfh := m2, inoh_ino_new := False\<rparr>\<rparr>)"
    unfolding mds_replay_ino_def using assms(1-3) conjunct1 [OF ih] w2
    by (simp add: Let_def del: if_split)
  then show ?thesis using conjunct2 [OF ih]
    by (intro exI [of _ "f\<lparr>fcmh_inoh := ?ih2\<lparr>inoh_mfh := m2, inoh_ino_new := False\<rparr>\<rparr>"])
      (simp add: replayed_inode_def)
qed

lemma logfill_ino_rlist:
  assumes "mdslogfill_ino_repls stale f = Some j" "inoh_ok (fcmh_inoh f)"
  shows "rlist (fcmh_inoh f) = take (sjir_nrepls j) (sjir_repls j)" "sjir_nrepls j = fcmh_2_nrepls f"
    "sjir_replpol j = ino_replpol (inoh_ino (fcmh_inoh f))" "sjir_fid j = fcmh_fid f"
    "length (sjir_repls j) \<ge> SL_DEF_REPLICAS"
  using assms by (auto simp: mdslogfill_ino_repls_def bind_eq_Some_conv inoh_ok_def rlist_def Let_def
      split: if_splits option.splits)

text \<open>
  C29: replaying the journal record of an inode restores its replica table, on either side of the
  boundary between the inode and its extras block. When the metafile accepts the writes and, for
  more than four replicas, the extras block can be loaded, the replay of the record of a file
  succeeds on any state of the file and leaves the list of replicas and the policy that were
  journalled, whatever an earlier record left in the unused part of the array.
\<close>

theorem mds_replay_ino_restores:
  assumes "mdslogfill_ino_repls stale f0 = Some j" "inoh_ok (fcmh_inoh f0)"
    and "fcmh_fid f0 \<noteq> FID_ANY" "fcmh_isdir f0 \<or> (\<exists>r \<in> set (rlist (fcmh_inoh f0)). r \<noteq> 0)"
    and "fcmh_isdir f = fcmh_isdir f0" "inode_writes_ok env"
    and "inox_ready env (fcmh_2_nrepls f0) (fcmh_inoh f)"
  shows "\<exists>f'. mds_replay_ino env j f = Some (0, f') \<and>
    rlist (fcmh_inoh f') = rlist (fcmh_inoh f0) \<and> fcmh_2_nrepls f' = fcmh_2_nrepls f0 \<and>
    ino_replpol (inoh_ino (fcmh_inoh f')) = ino_replpol (inoh_ino (fcmh_inoh f0))"
proof -
  note j = logfill_ino_rlist [OF assms(1,2)]
  have nz: "fcmh_isdir f \<or> list_ex (\<lambda>r. r \<noteq> 0) (sjir_repls j)"
    using assms(4,5) j(1) by (auto simp: list_ex_iff dest: in_set_takeD)
  obtain f' where f': "mds_replay_ino env j f = Some (0, f')" "replayed_inode j (fcmh_inoh f')"
    using replay_ino_runs [of j f env] nz assms(2,3,6,7) j(2,4) by (auto simp: inoh_ok_def)
  then show ?thesis
    using replayed_inode_rlist [OF f'(2) j(5)] j by (auto simp: replayed_inode_def)
qed

lemma ensure_loaded_ino:
  "mds_inox_ensure_loaded env (ih\<lparr>inoh_ino := i\<rparr>) =
     map_option (\<lambda>(rc, h). (rc, h\<lparr>inoh_ino := i\<rparr>)) (mds_inox_ensure_loaded env ih)"
proof -
  obtain rc nb x c where "preadv_inox env (inoh_mfh ih) = (rc, nb, x, c)" using prod_cases4 by blast
  then show ?thesis
    by (cases "inoh_extras ih")
      (simp_all add: mds_inox_ensure_loaded_def mds_inox_load_locked_def Let_def)
qed

lemma inox_ready_ino: "inox_ready env nr ih \<Longrightarrow> inox_ready env nr (ih\<lparr>inoh_ino := i\<rparr>)"
  by (cases "mds_inox_ensure_loaded env ih")
    (auto simp: inox_ready_def inox_readable_def ensure_loaded_ino)

definition f_many_ex :: "u32 list \<Rightarrow> slm_inox_od fcmh" where
  "f_many_ex rs = \<lparr>fcmh_fid = 7, fcmh_isdir = False, fcmh_isreg = True, fcmh_fsz = 100, fcmh_nblks = 0,
     fcmh_busy = False, fcmh_inoh = (ih_ex rs)\<lparr>inoh_extras :=
       Some (inox_zero\<lparr>inox_repls := take 60 (drop 4 rs @ replicate 60 0)\<rparr>)\<rparr>\<rparr>"

lemma f_many_ex_facts:
  "inode_writes_ok env_ex" "inoh_ok (fcmh_inoh (f_many_ex [1, 2, 3, 4, 5, 6]))"
  "inox_ready env_ex n (fcmh_inoh (f_many_ex [9]))"
  "rlist (fcmh_inoh (f_many_ex [1, 2, 3, 4, 5, 6])) = [1, 2, 3, 4, 5, 6]"
  by (simp_all add: inode_writes_ok_def env_ex_def inoh_ok_def f_many_ex_def ih_ex_def inox_zero_def
      SL_INOX_NREPLICAS_def inox_ready_def inox_readable_def mds_inox_ensure_loaded_def rlist_def)

theorem mds_replay_ino_restores_witness:
  "\<exists>j f'. mdslogfill_ino_repls [] (f_many_ex [1, 2, 3, 4, 5, 6]) = Some j \<and>
     mds_replay_ino env_ex j (f_many_ex [9]) = Some (0, f') \<and> rlist (fcmh_inoh f') = [1, 2, 3, 4, 5, 6]"
proof -
  let ?f = "f_many_ex [1, 2, 3, 4, 5, 6]"
  obtain j where j: "mdslogfill_ino_repls [] ?f = Some j"
    by (simp add: mdslogfill_ino_repls_def f_many_ex_def ih_ex_def)
  have "fcmh_fid ?f \<noteq> FID_ANY" "\<exists>r \<in> set (rlist (fcmh_inoh ?f)). r \<noteq> 0"
      "fcmh_isdir (f_many_ex [9]) = fcmh_isdir ?f"
    unfolding f_many_ex_facts(4) by (simp_all add: f_many_ex_def)
  then obtain f' where "mds_replay_ino env_ex j (f_many_ex [9]) = Some (0, f')"
      "rlist (fcmh_inoh f') = rlist (fcmh_inoh ?f)"
    using mds_replay_ino_restores [OF j f_many_ex_facts(2) _ _ _ f_many_ex_facts(1), of "f_many_ex [9]"]
      f_many_ex_facts(3) by blast
  with j f_many_ex_facts(4) show ?thesis by auto
qed

text \<open>
  C30: a new directory entry inherits the replicas of its parent. The child ends up with the same
  list of I/O systems, in the same order and on either side of the boundary of the extras block,
  and with the same policy; the parent is unchanged.
\<close>

theorem slm_fcmh_endow_inherits:
  assumes "inoh_ok (fcmh_inoh p)" "\<not> fcmh_busy c" "inox_ready env (fcmh_2_nrepls p) (fcmh_inoh c)"
    and "inoh_ok (fcmh_inoh c)"
  shows "\<exists>c'. slm_fcmh_endow env wr p c = Some (p, c') \<and>
    rlist (fcmh_inoh c') = rlist (fcmh_inoh p) \<and>
    ino_replpol (inoh_ino (fcmh_inoh c')) = ino_replpol (inoh_ino (fcmh_inoh p)) \<and>
    inoh_ok (fcmh_inoh c')"
proof -
  let ?pi = "inoh_ino (fcmh_inoh p)"
  let ?ch = "(fcmh_inoh c)\<lparr>inoh_ino := (inoh_ino (fcmh_inoh c))\<lparr>ino_replpol := ino_replpol ?pi,
      ino_nrepls := ino_nrepls ?pi, ino_repls := ino_repls ?pi\<rparr>\<rparr>"
  obtain ch more where d: "(if ino_nrepls ?pi > SL_DEF_REPLICAS then do {
        (_, ih) \<leftarrow> mds_inox_ensure_loaded env (fcmh_inoh p);
        x \<leftarrow> inoh_extras ih;
        Some (ih, inox_repls x)
      } else Some (fcmh_inoh p, [])) = Some (fcmh_inoh p, more)"
      "(if ino_nrepls ?pi > SL_DEF_REPLICAS then do {
        (_, ih) \<leftarrow> mds_inox_ensure_loaded env ?ch;
        x \<leftarrow> inoh_extras ih;
        Some (ih\<lparr>inoh_extras := Some (x\<lparr>inox_repls := more\<rparr>)\<rparr>)
      } else Some ?ch) = Some ch"
      "inoh_ino ch = inoh_ino ?ch" "inoh_ok ch" "rlist ch = rlist (fcmh_inoh p)"
  proof (cases "ino_nrepls ?pi > SL_DEF_REPLICAS")
    case True
    obtain xp where xp: "inoh_extras (fcmh_inoh p) = Some xp" "length (inox_repls xp) = SL_INOX_NREPLICAS"
      using assms(1) True by (auto simp: inoh_ok_def split: option.splits)
    obtain ih x where l: "mds_inox_ensure_loaded env ?ch = Some (0, ih)" "inoh_extras ih = Some x"
        "inoh_ino ih = inoh_ino ?ch"
      by (rule inox_readyD [OF inox_ready_ino [OF assms(3)] True])
    let ?ih = "ih\<lparr>inoh_extras := Some (x\<lparr>inox_repls := inox_repls xp\<rparr>)\<rparr>"
    have "inoh_ok ?ih" "rlist ?ih = rlist (fcmh_inoh p)"
      using assms(1) xp l(3) by (simp_all add: inoh_ok_def rlist_def)
    then show ?thesis
      using that [of "inox_repls xp" ?ih] True l xp ensure_loaded_ready [OF assms(1) True] by simp
  next
    case False
    have "inoh_ok ?ch" "rlist ?ch = rlist (fcmh_inoh p)"
      using assms(1,4) False by (auto simp: inoh_ok_def rlist_def split: option.splits)
    then show ?thesis using that [of "[]" ?ch] False by simp
  qed
  obtain ch' where w: "(if wr then map_option snd (mds_inodes_odsync env True ch) else Some ch) = Some ch'"
      "inoh_ino ch' = inoh_ino ch" "inoh_extras ch' = inoh_extras ch"
    using mds_inodes_odsync_same [OF d(4), of env True] by (cases wr) auto
  have "slm_fcmh_endow env wr p c = Some (p, c\<lparr>fcmh_inoh := ch'\<rparr>)"
    unfolding slm_fcmh_endow_def Let_def d(1) using d(2) w(1) assms(2) by (simp del: if_split)
  moreover have "rlist ch' = rlist (fcmh_inoh p)" "inoh_ok ch'"
    using rlist_cong [OF w(2,3)] d(4,5) w(2,3) by (simp_all add: inoh_ok_def)
  ultimately show ?thesis using d(3) w(2) by simp
qed

theorem slm_fcmh_endow_inherits_witness:
  "\<exists>c'. slm_fcmh_endow env_ex True (f_many_ex [1, 2, 3, 4, 5, 6]) (f_many_ex [9]) =
       Some (f_many_ex [1, 2, 3, 4, 5, 6], c') \<and> rlist (fcmh_inoh c') = [1, 2, 3, 4, 5, 6]"
proof -
  have "\<not> fcmh_busy (f_many_ex [9])" "inoh_ok (fcmh_inoh (f_many_ex [9]))"
    by (simp_all add: f_many_ex_def ih_ex_def inoh_ok_def inox_zero_def SL_INOX_NREPLICAS_def)
  then show ?thesis
    using slm_fcmh_endow_inherits [OF f_many_ex_facts(2) _ f_many_ex_facts(3), of True]
      f_many_ex_facts(4) by auto
qed

end
