(* ===== verification/Bmap_Lease.thy ===== *)
theory Bmap_Lease
  imports Lease_Chain Resm_Select Journal
begin

text \<open>
  Granting, upgrading, renewing, reassigning and releasing bmap leases on the metadata server
  (\<open>slashd/mds.c\<close>), the reply to a direct I/O request (\<open>slashd/coh.c\<close>), the expiry of
  leases (\<open>slashd/mds_bmap_timeo.c\<close>) and the recovery of write leases after a restart.

  The state is one bmap with its leases and file, the table of lease ages and the on-disk table
  of I/O server assignments (\<open>slm_bia_odt\<close>), which the PFL library implements; the choice of
  a free slot of that table is a parameter. Connections, the clock and the checksum of a slot
  are parameters as well. An operation runs without interruption where the code holds the
  flag \<open>BMAPF_IOSASSIGNED\<close>; waiting for the flag means that it is clear afterwards.
\<close>

subsection \<open>State\<close>

record bmap_ios_assign =
  bia_ios :: u32
  bia_lastcli :: "u64 \<times> u32"
  bia_fid :: u64
  bia_seq :: u64
  bia_bmapno :: nat
  bia_start :: nat
  bia_dio :: bool

text \<open>The flags of the record say which parts are present.\<close>

record slmds_jent_assign_rep =
  sjar_elem :: nat
  sjar_ino :: "slmds_jent_ino_repls option"
  sjar_rep :: "slmds_jent_bmap_repls option"
  sjar_bmap :: "bmap_ios_assign option"
  sjar_free :: bool

record 'm lease_st =
  ls_t :: lease_tbl
  ls_m :: "'m mst"
  bcm_iosassigned :: bool
  bcm_noion :: bool
  bmi_wr_ion :: "u32 option"
  rmmi_refcnt :: "u32 \<Rightarrow> int"
  bmi_assign :: "nat option"
  bmi_seq :: u64
  slm_bia_odt :: "nat \<rightharpoonup> bmap_ios_assign"
  ls_btt :: bmap_timeo_table
  ls_jrnl :: "slmds_jent_assign_rep list"
  fcmh_in_ptrunc :: bool
  fmi_ptrunc_clients :: "(u64 \<times> u32) list"

record 'm lease_env =
  le_be :: "'m bmenv"
  le_ie :: ios_env
  le_ce :: coh_env
  pfl_odt_allocslot :: "(nat \<rightharpoonup> bmap_ios_assign) \<Rightarrow> nat option"
  odtr_crc :: "nat \<Rightarrow> bmap_ios_assign option \<Rightarrow> u64"
  le_time :: nat
  le_stale :: "u32 list"

abbreviation ls_bml :: "'m lease_st \<Rightarrow> nat \<Rightarrow> bmap_mds_lease" where
  "ls_bml s \<equiv> lt_bml (ls_t s)"

definition ls_upd :: "nat \<Rightarrow> (bmap_mds_lease \<Rightarrow> bmap_mds_lease) \<Rightarrow> 'm lease_st \<Rightarrow> 'm lease_st" where
  "ls_upd x f s = s\<lparr>ls_t := bml_upd x f (ls_t s)\<rparr>"

text \<open>Entering a lease into the table of ages or taking it out, and the number it carries.\<close>

definition ls_mdsi :: "nat \<Rightarrow> bte \<Rightarrow> 'm lease_st \<Rightarrow> u64 \<times> 'm lease_st" where
  "ls_mdsi x flags s =
     (let (seq, b, t) = mds_bmap_timeotbl_mdsi (ls_bml s x) flags (ls_btt s)
      in (seq, (ls_upd x (\<lambda>_. b) s)\<lparr>ls_btt := t\<rparr>))"

definition ls_setseq :: "nat \<Rightarrow> u64 \<Rightarrow> 'm lease_st \<Rightarrow> 'm lease_st" where
  "ls_setseq x seq s = (ls_upd x (\<lambda>b. b\<lparr>bml_seq := seq\<rparr>) s)\<lparr>ls_btt := btt_setseq x seq (ls_btt s)\<rparr>"

definition ls_bmap_op_start :: "'m lease_st \<Rightarrow> 'm lease_st" where
  "ls_bmap_op_start s =
     (let m = ls_m s in s\<lparr>ls_m := m\<lparr>mb := (mb m)\<lparr>bcm_opcnt := bcm_opcnt (mb m) + 1\<rparr>\<rparr>\<rparr>)"

definition ls_bmap_op_done :: "'m lease_st \<Rightarrow> 'm lease_st option" where
  "ls_bmap_op_done s = do { m \<leftarrow> bmap_op_done (ls_m s); Some (s\<lparr>ls_m := m\<rparr>) }"

subsection \<open>Binding an I/O server\<close>

definition mds_bmap_add_repl ::
    "'m lease_env \<Rightarrow> bmap_ios_assign \<Rightarrow> 'm lease_st \<Rightarrow> (int \<times> 'm lease_st) option" where
  "mds_bmap_add_repl le bia s = do {
     let be = le_be le;
     let m = ls_m s;
     let nrepls = fcmh_2_nrepls (mf m);
     psc_assert (bcm_iosassigned s);
     psc_assert (\<not> fcmh_busy (mf m));
     let m = m\<lparr>mf := (mf m)\<lparr>fcmh_busy := True\<rparr>\<rparr>;
     (iosidx, ih) \<leftarrow> mds_repl_ios_lookup (be_env be) (be_cf be) (fcmh_inoh (mf m)) (bia_ios bia) IOSV_LOOKUPF_ADD;
     let m = m\<lparr>mf := (mf m)\<lparr>fcmh_inoh := ih\<rparr>\<rparr>;
     psc_assert (0 \<le> iosidx);
     (rc, m) \<leftarrow> mds_repl_inv_except be (nat iosidx) False m;
     if rc \<noteq> 0 then do {
       m \<leftarrow> bmap_fcmh_unbusy m;
       Some (rc, s\<lparr>ls_m := m\<rparr>)
     } else do {
       ino \<leftarrow> (if nrepls \<noteq> fcmh_2_nrepls (mf m)
              then map_option Some (mdslogfill_ino_repls (le_stale le) (mf m)) else Some None);
       rep \<leftarrow> mdslogfill_bmap_repls m;
       m \<leftarrow> bmap_fcmh_unbusy m;
       elem \<leftarrow> bmi_assign s;
       Some (0, s\<lparr>ls_m := m, ls_jrnl := ls_jrnl s @
         [\<lparr>sjar_elem = elem, sjar_ino = ino, sjar_rep = Some rep, sjar_bmap = Some bia, sjar_free = False\<rparr>]\<rparr>)
     }
   }"

definition mds_bmap_ios_restart :: "'m lease_env \<Rightarrow> nat \<Rightarrow> 'm lease_st \<Rightarrow> (int \<times> 'm lease_st) option" where
  "mds_bmap_ios_restart le x s = do {
     resm \<leftarrow> libsl_ios2resm (be_cf (le_be le)) (bml_ios (ls_bml s x));
     let ion = resm_res_id resm;
     let s = s\<lparr>rmmi_refcnt := (rmmi_refcnt s)(ion := rmmi_refcnt s ion + 1)\<rparr>;
     psc_assert (bmi_assign s \<noteq> None);
     let s = s\<lparr>bmi_wr_ion := Some ion\<rparr>;
     let (seq, s) = ls_mdsi x BTE_REATTACH s;
     Some (if seq = BMAPSEQ_ANY then 1 else 0, s\<lparr>bmi_seq := bml_seq (ls_bml s x)\<rparr>)
   }"

definition mds_bmap_ios_assign ::
    "'m lease_env \<Rightarrow> nat \<Rightarrow> u32 \<Rightarrow> 'm lease_st \<Rightarrow> (int \<times> 'm lease_st) option" where
  "mds_bmap_ios_assign le x iosid s = do {
     psc_assert (bmi_wr_ion s = None);
     psc_assert (bmi_assign s = None);
     psc_assert (bcm_opcnt (mb (ls_m s)) > 0);
     (resm, m) \<leftarrow> slm_resm_select (le_be le) (le_ie le) iosid [] (ls_m s);
     let s = s\<lparr>ls_m := m\<rparr>;
     psc_assert (bcm_iosassigned s);
     case resm of
       None \<Rightarrow> Some (- SLERR_ION_OFFLINE, (ls_upd x (\<lambda>b. b\<lparr>bml_assfail := True\<rparr>) s)\<lparr>bcm_noion := True\<rparr>)
     | Some r \<Rightarrow> do {
         let ion = resm_res_id r;
         let s = s\<lparr>bmi_wr_ion := Some ion, rmmi_refcnt := (rmmi_refcnt s)(ion := rmmi_refcnt s ion + 1)\<rparr>;
         case pfl_odt_allocslot le (slm_bia_odt s) of
           None \<Rightarrow> Some (- ENOMEM, (ls_upd x (\<lambda>b. b\<lparr>bml_assfail := True\<rparr>) s)\<lparr>bcm_noion := True\<rparr>)
         | Some elem \<Rightarrow> do {
             let s = (ls_upd x (\<lambda>b. b\<lparr>bml_ios := ion\<rparr>) s)\<lparr>bcm_noion := False\<rparr>;
             let (seq, s) = ls_mdsi x BTE_ADD s;
             let bia = \<lparr>bia_ios = ion, bia_lastcli = bml_cli (ls_bml s x), bia_fid = fcmh_fid (mf (ls_m s)),
                        bia_seq = seq, bia_bmapno = bcm_bmapno (mb (ls_m s)), bia_start = le_time le,
                        bia_dio = bcm_dio (ls_t s)\<rparr>;
             let s = s\<lparr>bmi_seq := seq, slm_bia_odt := (slm_bia_odt s)(elem \<mapsto> bia), bmi_assign := Some elem\<rparr>;
             (rc, s) \<leftarrow> mds_bmap_add_repl le bia s;
             if rc \<noteq> 0 then Some (- 1, s)
             else Some (0, ls_setseq x (bia_seq bia) s)
           }
       }
   }"

definition mds_bmap_ios_update :: "'m lease_env \<Rightarrow> nat \<Rightarrow> 'm lease_st \<Rightarrow> (int \<times> 'm lease_st) option" where
  "mds_bmap_ios_update le x s = do {
     psc_assert (bcm_iosassigned s);
     let dio = bcm_dio (ls_t s);
     elem \<leftarrow> bmi_assign s;
     bia \<leftarrow> slm_bia_odt s elem;
     if bia_fid bia \<noteq> fcmh_fid (mf (ls_m s)) then Some (- 1, s)
     else do {
       psc_assert (bia_seq bia = bmi_seq s);
       let (seq, s) = ls_mdsi x BTE_ADD s;
       let bia = bia\<lparr>bia_start := le_time le, bia_seq := seq, bia_lastcli := bml_cli (ls_bml s x), bia_dio := dio\<rparr>;
       let s = s\<lparr>bmi_seq := seq, slm_bia_odt := (slm_bia_odt s)(elem \<mapsto> bia)\<rparr>;
       let s = ls_setseq x seq (ls_upd x (\<lambda>b. b\<lparr>bml_ios := bia_ios bia\<rparr>) s);
       mds_bmap_add_repl le bia s
     }
   }"

subsection \<open>Adding a lease\<close>

definition bml_bind_ion ::
    "'m lease_env \<Rightarrow> nat \<Rightarrow> int \<Rightarrow> u32 \<Rightarrow> 'm lease_st \<Rightarrow> (int \<times> 'm lease_st) option" where
  "bml_bind_ion le x wlease prefios s =
     (if bml_recover (ls_bml s x) then do {
        psc_assert (bmi_writers (ls_t s) = 1);
        psc_assert (bmi_readers (ls_t s) = 0);
        psc_assert (bmi_wr_ion s = None);
        psc_assert (bml_ios (ls_bml s x) \<noteq> 0 \<and> bml_ios (ls_bml s x) \<noteq> IOS_ID_ANY);
        mds_bmap_ios_restart le x s
      } else if wlease = 0 \<and> bmi_writers (ls_t s) = 1 then do {
        psc_assert (bmi_wr_ion s = None);
        mds_bmap_ios_assign le x prefios s
      } else do {
        psc_assert (bmi_wr_ion s \<noteq> None);
        mds_bmap_ios_update le x s
      })"

abbreviation (input) LNET_NID_ANY :: u64 where "LNET_NID_ANY \<equiv> 0xffffffffffffffff"
abbreviation (input) LNET_PID_ANY :: u32 where "LNET_PID_ANY \<equiv> 0xffffffff"

definition mds_bmap_bml_add ::
    "'m lease_env \<Rightarrow> nat \<Rightarrow> sl_rw \<Rightarrow> u32 \<Rightarrow> 'm lease_st \<Rightarrow> (int \<times> 'm lease_st) option" where
  "mds_bmap_bml_add le x rw prefios s = do {
     let cli = bml_cli (ls_bml s x);
     psc_assert (fst cli \<noteq> 0 \<and> snd cli \<noteq> 0 \<and> fst cli \<noteq> LNET_NID_ANY \<and> snd cli \<noteq> LNET_PID_ANY);
     let s = ls_bmap_op_start s;
     (rc, t) \<leftarrow> mds_bmap_directio (le_ce le) rw (bml_dio (ls_bml s x)) cli (ls_t s);
     let s = s\<lparr>ls_t := t\<rparr>;
     if rc \<noteq> 0 \<and> \<not> bml_recover (ls_bml s x) then Some (rc, s)
     else do {
       (obml, wlease, rlease) \<leftarrow> mds_bmap_dupls_find (ls_t s) cli;
       let s = s\<lparr>ls_t := bml_link x obml (ls_t s)\<rparr>;
       if rw = SL_WRITE then do {
         let s = s\<lparr>bcm_iosassigned := True, ls_t := bml_count_add rw wlease rlease (ls_t s)\<rparr>;
         (rc, s) \<leftarrow> bml_bind_ion le x wlease prefios s;
         Some (rc, s\<lparr>bcm_iosassigned := False\<rparr>)
       } else do {
         let (seq, btt) = mds_bmap_timeotbl_getnextseq (ls_btt s);
         let s = (ls_upd x (\<lambda>b. b\<lparr>bml_seq := seq\<rparr>) s)\<lparr>ls_btt := btt\<rparr>;
         let s = s\<lparr>ls_t := bml_count_add rw wlease rlease (ls_t s)\<rparr>;
         Some (rc, snd (ls_mdsi x BTE_ADD s))
       }
     }
   }"

text \<open>\<open>mds_bmap_bml_chwrmode\<close>: a read lease becomes a write lease.\<close>

definition mds_bmap_bml_chwrmode ::
    "'m lease_env \<Rightarrow> nat \<Rightarrow> u32 \<Rightarrow> 'm lease_st \<Rightarrow> (int \<times> 'm lease_st) option" where
  "mds_bmap_bml_chwrmode le x prefios s =
     (if bml_write (ls_bml s x)
      then Some (- PFLERR_ALREADY (be_env (le_be le)), s\<lparr>bcm_iosassigned := False\<rparr>)
      else do {
        let s = s\<lparr>bcm_iosassigned := True\<rparr>;
        (rc, t) \<leftarrow> mds_bmap_directio (le_ce le) SL_WRITE False (bml_cli (ls_bml s x)) (ls_t s);
        let s = s\<lparr>ls_t := t\<rparr>;
        if rc \<noteq> 0 then Some (rc, s\<lparr>bcm_iosassigned := False\<rparr>)
        else do {
          (rc, s) \<leftarrow> (if bmi_wr_ion s \<noteq> None then mds_bmap_ios_update le x s
                       else mds_bmap_ios_assign le x prefios s);
          if rc \<noteq> 0
          then Some (rc, (ls_upd x (\<lambda>b. b\<lparr>bml_assfail := True\<rparr>) s)\<lparr>bcm_iosassigned := False\<rparr>)
          else do {
            psc_assert (bmi_wr_ion s \<noteq> None);
            (_, wlease, rlease) \<leftarrow> mds_bmap_dupls_find (ls_t s) (bml_cli (ls_bml s x));
            psc_assert (rlease \<noteq> 0);
            let t = ls_t s;
            let t = (if wlease = 0 then t\<lparr>bmi_writers := bmi_writers t + 1, bmi_readers := bmi_readers t - 1\<rparr>
                     else t);
            Some (0, s\<lparr>ls_t := bml_upd x (\<lambda>b. b\<lparr>bml_write := True\<rparr>) t, bcm_iosassigned := False\<rparr>)
          }
        }
      })"

subsection \<open>Releasing a lease\<close>

definition rel_retifset :: "int list" where
  "rel_retifset = (brepls_init 0)[BREPLST_REPL_QUEUED := 1, BREPLST_TRUNCPNDG := 1]"

text \<open>Replication work that waited for the writer is queued again.\<close>

definition bml_release_requeue :: "'m bmenv \<Rightarrow> 'm mst \<Rightarrow> 'm mst option" where
  "bml_release_requeue be m = do {
     (rc, m, _) \<leftarrow> mds_repl_bmap_walk None (Some rel_retifset) REPL_WALKF_SCIRCUIT [] None (m, ());
     if rc = 0 then Some m
     else do {
       m \<leftarrow> (if fcmh_2_nrepls (mf m) > SL_DEF_REPLICAS
             then do { (_, ih) \<leftarrow> mds_inox_ensure_loaded (be_env be) (fcmh_inoh (mf m));
                       Some (m\<lparr>mf := (mf m)\<lparr>fcmh_inoh := ih\<rparr>\<rparr>) }
             else Some m);
       psc_assert (\<not> fcmh_busy (mf m));
       let m = set_busy True m;
       let m = m\<lparr>mb := (mb m)\<lparr>bmi_rwlock := RW_RD\<rparr>\<rparr>;
       (rc, m, _) \<leftarrow> mds_repl_bmap_walk None (Some rel_retifset) REPL_WALKF_SCIRCUIT [] None (m, ());
       let m = (if rc \<noteq> 0 then m\<lparr>mev := mev m @ [EvUpschEnqueue (bcm_bmapno (mb m))]\<rparr> else m);
       bmap_fcmh_unbusy (m\<lparr>mb := (mb m)\<lparr>bmi_rwlock := RW_NONE\<rparr>\<rparr>)
     }
   }"

text \<open>The last write lease is gone: give up the I/O server and the slot of the on-disk table.\<close>

definition bml_release_ion ::
    "'m lease_env \<Rightarrow> nat \<Rightarrow> 'm lease_st \<Rightarrow> (nat option \<times> 'm lease_st) option" where
  "bml_release_ion le x s =
     (if bcm_noion s then do {
        psc_assert (bmi_assign s = None);
        psc_assert (bmi_wr_ion s = None);
        Some (None, s)
      }
      else if bml_assfail (ls_bml s x) then Some (None, s)
      else do {
        (odtr, s) \<leftarrow> (if \<not> bml_recoverfail (ls_bml s x) then do {
                        elem \<leftarrow> bmi_assign s;
                        bia \<leftarrow> slm_bia_odt s elem;
                        psc_assert (bia_seq bia = bmi_seq s);
                        psc_assert (bia_bmapno bia = bcm_bmapno (mb (ls_m s)));
                        Some (Some elem, s\<lparr>bmi_assign := None\<rparr>)
                      } else do {
                        psc_assert (bmi_assign s = None);
                        Some (None, s)
                      });
        ion \<leftarrow> bmi_wr_ion s;
        let s = s\<lparr>rmmi_refcnt := (rmmi_refcnt s)(ion := rmmi_refcnt s ion - 1), bmi_wr_ion := None\<rparr>;
        m \<leftarrow> bml_release_requeue (le_be le) (ls_m s);
        Some (odtr, s\<lparr>ls_m := m\<rparr>)
      })"

definition bml_release_unlink ::
    "'m lease_env \<Rightarrow> nat \<Rightarrow> 'm lease_st \<Rightarrow> (nat option \<times> 'm lease_st) option" where
  "bml_release_unlink le x s =
     (if \<not> bml_bmi (ls_bml s x) then Some (None, s)
      else do {
        t \<leftarrow> mds_bmap_bml_del_locked x (ls_t s);
        let s = s\<lparr>ls_t := dio_clear (bml_upd x (\<lambda>b. b\<lparr>bml_bmi := False\<rparr>) t)\<rparr>;
        if bml_write (ls_bml s x) \<and> bmi_writers (ls_t s) = 0 then bml_release_ion le x s
        else Some (None, s)
      })"

definition mds_bmap_bml_release :: "'m lease_env \<Rightarrow> nat \<Rightarrow> 'm lease_st \<Rightarrow> 'm lease_st option" where
  "mds_bmap_bml_release le x s = do {
     psc_assert (bcm_opcnt (mb (ls_m s)) > 0);
     let b = ls_bml s x;
     if bml_refcnt b > 1 \<or> \<not> bml_freeing b then do {
       psc_assert (bml_refcnt b > 0);
       Some ((ls_upd x (\<lambda>b. b\<lparr>bml_refcnt := bml_refcnt b - 1\<rparr>) s)\<lparr>bcm_iosassigned := False\<rparr>)
     } else do {
       let s = (if bml_timeoq b then snd (ls_mdsi x BTE_DEL s) else s);
       (odtr, s) \<leftarrow> bml_release_unlink le x (s\<lparr>bcm_iosassigned := True\<rparr>);
       s \<leftarrow> ls_bmap_op_done (s\<lparr>bcm_iosassigned := False\<rparr>);
       Some (case odtr of None \<Rightarrow> s
             | Some elem \<Rightarrow> s\<lparr>ls_jrnl := ls_jrnl s @
                 [\<lparr>sjar_elem = elem, sjar_ino = None, sjar_rep = None, sjar_bmap = None, sjar_free = True\<rparr>],
                 slm_bia_odt := (slm_bia_odt s)(elem := None)\<rparr>)
     }
   }"

subsection \<open>Requests\<close>

record srt_bmapdesc =
  sbd_fid :: u64
  sbd_bmapno :: nat
  sbd_seq :: u64
  sbd_key :: u64
  sbd_cli :: "u64 \<times> u32"
  sbd_ios :: u32
  sbd_dio :: bool
  sbd_data :: bool

abbreviation (input) BMAP_TIMEO_MAX :: nat where "BMAP_TIMEO_MAX \<equiv> 240"
abbreviation (input) SLERR_BMAP_IN_PTRUNC :: int where "SLERR_BMAP_IN_PTRUNC \<equiv> 1023"

text \<open>A new lease at a free address; a recovered one has no connection.\<close>

definition mds_bml_new ::
    "'m lease_env \<Rightarrow> nat \<Rightarrow> bool \<Rightarrow> sl_rw \<Rightarrow> bool \<Rightarrow> u64 \<times> u32 \<Rightarrow> 'm lease_st \<Rightarrow> 'm lease_st" where
  "mds_bml_new le x recover rw dio cli s = ls_upd x (\<lambda>_.
     \<lparr>bml_id = x, bml_seq = 0, bml_refcnt = 1, bml_ios = 0, bml_cli = cli, bml_write = (rw = SL_WRITE),
      bml_dio = dio, bml_diocb = False, bml_timeoq = False, bml_bmi = False, bml_recover = recover,
      bml_chain = False, bml_freeing = False, bml_assfail = False, bml_recoverfail = False,
      bml_exp = (\<not> recover), bml_expire = le_time le + BMAP_TIMEO_MAX\<rparr>) s"

definition slm_fill_bmapdesc :: "'m lease_st \<Rightarrow> srt_bmapdesc \<Rightarrow> srt_bmapdesc" where
  "slm_fill_bmapdesc s sbd = sbd\<lparr>sbd_fid := fcmh_fid (mf (ls_m s)), sbd_bmapno := bcm_bmapno (mb (ls_m s)),
     sbd_dio := sbd_dio sbd \<or> bcm_dio (ls_t s),
     sbd_data := sbd_data sbd \<or>
       list_ex (\<lambda>i. (bmi_crcstates (mb (ls_m s)) ! i) AND BMAP_SLVR_DATA \<noteq> 0) [0..<SLASH_SLVRS_PER_BMAP]\<rparr>"

definition bmi_odtr_crc :: "'m lease_env \<Rightarrow> 'm lease_st \<Rightarrow> u64 option" where
  "bmi_odtr_crc le s = do { elem \<leftarrow> bmi_assign s; Some (odtr_crc le elem (slm_bia_odt s elem)) }"

definition bml_set_failed :: "int \<Rightarrow> nat \<Rightarrow> 'm lease_st \<Rightarrow> 'm lease_st" where
  "bml_set_failed rc x =
     ls_upd x (\<lambda>b. b\<lparr>bml_freeing := True, bml_assfail := bml_assfail b \<or> rc = - SLERR_ION_OFFLINE\<rparr>)"

definition bml_reply ::
    "'m lease_env \<Rightarrow> nat \<Rightarrow> sl_rw \<Rightarrow> u64 \<times> u32 \<Rightarrow> srt_bmapdesc \<Rightarrow> 'm lease_st \<Rightarrow> srt_bmapdesc option" where
  "bml_reply le x rw cli sbd s = do {
     let sbd = (slm_fill_bmapdesc s sbd)\<lparr>sbd_seq := bml_seq (ls_bml s x), sbd_cli := cli\<rparr>;
     if rw = SL_WRITE then do {
       key \<leftarrow> bmi_odtr_crc le s;
       ion \<leftarrow> bmi_wr_ion s;
       Some (sbd\<lparr>sbd_key := key, sbd_ios := ion\<rparr>)
     } else Some (sbd\<lparr>sbd_key := BMAPSEQ_ANY, sbd_ios := IOS_ID_ANY\<rparr>)
   }"

text \<open>
  \<open>mds_bmap_load_cli\<close> for the bmap that \<open>bmap_getf\<close> gives with the code \<open>getrc\<close>. The
  address of the new lease is \<open>x\<close>.
\<close>

definition mds_bmap_load_cli ::
    "'m lease_env \<Rightarrow> nat \<Rightarrow> int \<Rightarrow> bool \<Rightarrow> sl_rw \<Rightarrow> u32 \<Rightarrow> srt_bmapdesc \<Rightarrow> u64 \<times> u32 \<Rightarrow> 'm lease_st \<Rightarrow>
     (int \<times> srt_bmapdesc \<times> 'm lease_st) option" where
  "mds_bmap_load_cli le x getrc want_dio rw prefios sbd cli s =
     (if fcmh_in_ptrunc s \<and> bcm_bmapno (mb (ls_m s)) \<ge> fcmh_fsz (mf (ls_m s)) div SLASH_BMAP_SIZE \<and>
         cl_csvc (le_ce le) cli
      then Some (SLERR_BMAP_IN_PTRUNC, sbd, s\<lparr>fmi_ptrunc_clients := fmi_ptrunc_clients s @ [cli]\<rparr>)
      else if getrc \<noteq> 0 then Some (getrc, sbd, s)
      else do {
        let s = mds_bml_new le x False rw want_dio cli (ls_bmap_op_start s);
        (rc, s) \<leftarrow> mds_bmap_bml_add le x rw prefios s;
        (sbd, s) \<leftarrow> (if rc \<noteq> 0 then Some (sbd, bml_set_failed rc x s)
                     else do { sbd \<leftarrow> bml_reply le x rw cli sbd s; Some (sbd, s) });
        s \<leftarrow> mds_bmap_bml_release le x s;
        s \<leftarrow> ls_bmap_op_done s;
        Some (rc, sbd, s)
      })"

definition mds_lease_renew ::
    "'m lease_env \<Rightarrow> nat \<Rightarrow> int \<Rightarrow> srt_bmapdesc \<Rightarrow> srt_bmapdesc \<Rightarrow> u64 \<times> u32 \<Rightarrow> 'm lease_st \<Rightarrow>
     (int \<times> srt_bmapdesc \<times> 'm lease_st) option" where
  "mds_lease_renew le x getrc sbd_in sbd cli s =
     (if getrc \<noteq> 0 then Some (getrc, sbd, s)
      else do {
        let s = ls_bmap_op_start s;
        let (obml, t) = mds_bmap_getbml (sbd_seq sbd_in) (sbd_cli sbd_in) (ls_t s);
        let rw = (if sbd_ios sbd_in = IOS_ID_ANY then SL_READ else SL_WRITE);
        let s = mds_bml_new le x False rw False cli (s\<lparr>ls_t := t\<rparr>);
        (rc, s) \<leftarrow> mds_bmap_bml_add le x rw (sbd_ios sbd_in) s;
        (sbd, s) \<leftarrow> (if rc \<noteq> 0 then Some (sbd, bml_set_failed rc x s)
                     else do {
                       sbd \<leftarrow> bml_reply le x rw cli sbd s;
                       Some (sbd, case obml of None \<Rightarrow> s | Some ob \<Rightarrow> ls_upd ob (\<lambda>b. b\<lparr>bml_freeing := True\<rparr>) s)
                     });
        s \<leftarrow> mds_bmap_bml_release le x s;
        s \<leftarrow> (case obml of None \<Rightarrow> Some s | Some ob \<Rightarrow> mds_bmap_bml_release le ob s);
        s \<leftarrow> ls_bmap_op_done s;
        Some (rc, sbd, s)
      })"

definition lease_reassign_ion ::
    "'m lease_env \<Rightarrow> nat \<Rightarrow> u32 \<Rightarrow> u32 list \<Rightarrow> srt_bmapdesc \<Rightarrow> u64 \<times> u32 \<Rightarrow> 'm lease_st \<Rightarrow>
     (int \<times> srt_bmapdesc \<times> 'm lease_st) option" where
  "lease_reassign_ion le ob pios prev_ios sbd cli s =
     (if bmi_writers (ls_t s) > 1 \<or> bmi_readers (ls_t s) \<noteq> 0 then Some (- EAGAIN, sbd, s)
      else do {
        psc_assert (bmi_wr_ion s \<noteq> None);
        psc_assert (\<not> bcm_dio (ls_t s));
        elem \<leftarrow> bmi_assign s;
        bia \<leftarrow> slm_bia_odt s elem;
        psc_assert (bia_seq bia = bmi_seq s);
        (resm, m) \<leftarrow> slm_resm_select (le_be le) (le_ie le) pios prev_ios (ls_m s);
        let s = s\<lparr>ls_m := m\<rparr>;
        case resm of None \<Rightarrow> Some (- SLERR_ION_OFFLINE, sbd, s)
        | Some r \<Rightarrow> do {
            let (seq, s) = ls_mdsi ob BTE_ADD s;
            let bia = bia\<lparr>bia_seq := seq, bia_lastcli := bml_cli (ls_bml s ob), bia_ios := resm_res_id r,
                          bia_start := le_time le\<rparr>;
            (rc, s) \<leftarrow> mds_bmap_add_repl le bia s;
            if rc \<noteq> 0 then Some (rc, sbd, s)
            else do {
              let s = (ls_setseq ob seq s)\<lparr>bmi_seq := seq\<rparr>;
              let s = ls_upd ob (\<lambda>b. b\<lparr>bml_ios := resm_res_id r\<rparr>) s;
              let s = s\<lparr>slm_bia_odt := (slm_bia_odt s)(elem \<mapsto> bia)\<rparr>;
              key \<leftarrow> bmi_odtr_crc le s;
              Some (0, (slm_fill_bmapdesc s sbd)\<lparr>sbd_seq := seq, sbd_cli := cli, sbd_key := key,
                         sbd_ios := bml_ios (ls_bml s ob)\<rparr>, s)
            }
          }
      })"

definition mds_lease_reassign ::
    "'m lease_env \<Rightarrow> int \<Rightarrow> srt_bmapdesc \<Rightarrow> u32 \<Rightarrow> u32 list \<Rightarrow> srt_bmapdesc \<Rightarrow> u64 \<times> u32 \<Rightarrow> 'm lease_st \<Rightarrow>
     (int \<times> srt_bmapdesc \<times> 'm lease_st) option" where
  "mds_lease_reassign le getrc sbd_in pios prev_ios sbd cli s =
     (if getrc \<noteq> 0 then Some (getrc, sbd, s)
      else do {
        let s = ls_bmap_op_start s;
        let (obml, t) = mds_bmap_getbml (sbd_seq sbd_in) (sbd_cli sbd_in) (ls_t s);
        let s = s\<lparr>ls_t := t\<rparr>;
        (rc, sbd, s) \<leftarrow> (case obml of
             None \<Rightarrow> Some (- ENOENT, sbd, s)
           | Some ob \<Rightarrow>
               if \<not> bml_write (ls_bml s ob) then Some (- EINVAL, sbd, s)
               else do {
                 (rc, sbd, s) \<leftarrow> lease_reassign_ion le ob pios prev_ios sbd cli (s\<lparr>bcm_iosassigned := True\<rparr>);
                 psc_assert (bcm_iosassigned s);
                 Some (rc, sbd, s\<lparr>bcm_iosassigned := False\<rparr>)
               });
        s \<leftarrow> (case obml of None \<Rightarrow> Some s | Some ob \<Rightarrow> mds_bmap_bml_release le ob s);
        s \<leftarrow> ls_bmap_op_done s;
        Some (rc, sbd, s)
      })"

text \<open>One entry of \<open>mds_handle_rls_bmap\<close>, for a bmap found with the code \<open>getrc\<close>.\<close>

definition handle_rls_bmap1 :: "'m lease_env \<Rightarrow> int \<Rightarrow> srt_bmapdesc \<Rightarrow> 'm lease_st \<Rightarrow> 'm lease_st option" where
  "handle_rls_bmap1 le getrc sbd s =
     (if getrc \<noteq> 0 then Some s
      else do {
        let s = ls_bmap_op_start s;
        let (obml, t) = mds_bmap_getbml (sbd_seq sbd) (sbd_cli sbd) (ls_t s);
        let s = s\<lparr>ls_t := t\<rparr>;
        s \<leftarrow> (case obml of None \<Rightarrow> Some s
             | Some x \<Rightarrow> mds_bmap_bml_release le x (ls_upd x (\<lambda>b. b\<lparr>bml_freeing := True\<rparr>) s));
        ls_bmap_op_done s
      })"

definition slm_rmc_handle_bmap_chwrmode ::
    "'m lease_env \<Rightarrow> int \<Rightarrow> srt_bmapdesc \<Rightarrow> u32 \<Rightarrow> 'm lease_st \<Rightarrow> (int \<times> srt_bmapdesc option \<times> 'm lease_st) option" where
  "slm_rmc_handle_bmap_chwrmode le getrc sbd prefios s =
     (if getrc \<noteq> 0 then Some (getrc, None, s)
      else do {
        let s = ls_bmap_op_start s;
        let (obml, t) = mds_bmap_getbml (sbd_seq sbd) (sbd_cli sbd) (ls_t s);
        let s = s\<lparr>ls_t := t\<rparr>;
        (rc, rep, s) \<leftarrow> (case obml of None \<Rightarrow> Some (- EINVAL, None, s)
           | Some x \<Rightarrow> do {
               (rc, s) \<leftarrow> mds_bmap_bml_chwrmode le x prefios s;
               (rc, rep) \<leftarrow>
                 (if rc \<noteq> 0 \<and> rc \<noteq> - PFLERR_ALREADY (be_env (le_be le)) then Some (rc, None)
                  else do {
                    key \<leftarrow> bmi_odtr_crc le s;
                    ion \<leftarrow> bmi_wr_ion s;
                    Some (0, Some (sbd\<lparr>sbd_seq := bml_seq (ls_bml s x), sbd_key := key, sbd_ios := ion\<rparr>))
                  });
               s \<leftarrow> mds_bmap_bml_release le x s;
               Some (rc, rep, s)
             });
        s \<leftarrow> ls_bmap_op_done s;
        Some (rc, rep, s)
      })"

text \<open>The reply of a client that does direct I/O now (\<open>slashd/coh.c\<close>).\<close>

definition slmcoh_releasebml :: "'m lease_env \<Rightarrow> u64 \<Rightarrow> u64 \<times> u32 \<Rightarrow> 'm lease_st \<Rightarrow> 'm lease_st option" where
  "slmcoh_releasebml le seq peer s = do {
     let s = ls_bmap_op_start s;
     let (obml, t) = mds_bmap_getbml seq peer (ls_t s);
     let s = s\<lparr>ls_t := t\<rparr>;
     s \<leftarrow> (case obml of None \<Rightarrow> Some s
          | Some x \<Rightarrow> mds_bmap_bml_release le x (s\<lparr>ls_t := bml_set_dio x (ls_t s)\<rparr>));
     ls_bmap_op_done s
   }"

text \<open>
  One round of the thread that expires leases, at the given time, when the oldest lease of the
  table is one of this bmap.
\<close>

definition slmbmaptimeothr_round :: "'m lease_env \<Rightarrow> nat \<Rightarrow> 'm lease_st \<Rightarrow> 'm lease_st option" where
  "slmbmaptimeothr_round le now s =
     (case btt_leases (ls_btt s) of [] \<Rightarrow> Some s
      | (x, _) # _ \<Rightarrow>
          if bml_refcnt (ls_bml s x) \<noteq> 0 then Some s
          else if \<not> bml_freeing (ls_bml s x) \<and> now < bml_expire (ls_bml s x) then Some s
          else mds_bmap_bml_release le x (ls_upd x (\<lambda>b. b\<lparr>bml_freeing := True\<rparr>) s))"

text \<open>
  Recovery of the assignment found in the slot \<open>elem\<close>, for a file and a bmap obtained with the
  codes \<open>frc\<close> and \<open>brc\<close>.
\<close>

definition mds_bia_odtable_startup_cb ::
    "'m lease_env \<Rightarrow> nat \<Rightarrow> nat \<Rightarrow> bmap_ios_assign \<Rightarrow> int \<Rightarrow> int \<Rightarrow> 'm lease_st \<Rightarrow> 'm lease_st option" where
  "mds_bia_odtable_startup_cb le x elem bia frc brc s =
     (if bia_fid bia = 0 \<or> frc \<noteq> 0 \<or> brc \<noteq> 0 then Some (s\<lparr>slm_bia_odt := (slm_bia_odt s)(elem := None)\<rparr>)
      else do {
        let s = mds_bml_new le x True SL_WRITE False (bia_lastcli bia) (ls_bmap_op_start s);
        let s = ls_upd x (\<lambda>b. b\<lparr>bml_seq := bia_seq bia, bml_ios := bia_ios bia\<rparr>) s;
        let s = (if bia_dio bia then s\<lparr>ls_t := (ls_t s)\<lparr>bcm_dio := True\<rparr>\<rparr> else s);
        (rc, s) \<leftarrow> mds_bmap_bml_add le x SL_WRITE IOS_ID_ANY (s\<lparr>bmi_assign := Some elem\<rparr>);
        let s = (if rc \<noteq> 0
                 then (ls_upd x (\<lambda>b. b\<lparr>bml_freeing := True, bml_recoverfail := True\<rparr>) s)\<lparr>bmi_assign := None\<rparr>
                 else s);
        s \<leftarrow> mds_bmap_bml_release le x s;
        ls_bmap_op_done (if rc \<noteq> 0 then s\<lparr>slm_bia_odt := (slm_bia_odt s)(elem := None)\<rparr> else s)
      })"

text \<open>Replay of an assignment record; \<open>slot\<close> is what the slot of the table held before.\<close>

definition mds_replay_bmap_assign ::
    "'m lease_env \<Rightarrow> (u32 \<Rightarrow> bool) \<Rightarrow> bmap_ios_assign \<Rightarrow> slmds_jent_assign_rep \<Rightarrow> 'm lease_st \<Rightarrow>
     'm lease_st option" where
  "mds_replay_bmap_assign le notsup slot j s = do {
     m \<leftarrow> (case sjar_ino j of None \<Rightarrow> Some (ls_m s)
          | Some i \<Rightarrow> do { (_, f) \<leftarrow> mds_replay_ino (be_env (le_be le)) i (mf (ls_m s)); Some ((ls_m s)\<lparr>mf := f\<rparr>) });
     m \<leftarrow> (case sjar_rep j of None \<Rightarrow> Some m
          | Some r \<Rightarrow> do { (_, m) \<leftarrow> mds_replay_repls (le_be le) notsup r m; Some m });
     let bia = (case sjar_bmap j of None \<Rightarrow> slot | Some b \<Rightarrow> b);
     Some (s\<lparr>ls_m := m, slm_bia_odt := (slm_bia_odt s)(sjar_elem j := if sjar_free j then None else Some bia)\<rparr>)
   }"

end
