(* ===== verification/Opt_Wp.thy ===== *)
theory Opt_Wp
  imports Prelude
begin

text \<open>
  Weakest preconditions for functions that may stop the process. \<open>opt_all P m\<close> says that
  \<open>m\<close> satisfies \<open>P\<close> if it returns, \<open>opt_ex P m\<close> that it returns and satisfies
  \<open>P\<close>. The rules of the collections \<open>opt_wp\<close> and \<open>opt_ex_wp\<close> take apart the blocks of
  the option monad the models are written in, one construct each.
\<close>

named_theorems opt_wp
named_theorems opt_ex_wp

definition opt_all :: "('a \<Rightarrow> bool) \<Rightarrow> 'a option \<Rightarrow> bool" where
  "opt_all P m \<longleftrightarrow> (\<forall>x. m = Some x \<longrightarrow> P x)"

definition opt_ex :: "('a \<Rightarrow> bool) \<Rightarrow> 'a option \<Rightarrow> bool" where
  "opt_ex P m \<longleftrightarrow> (\<exists>x. m = Some x \<and> P x)"

lemma opt_allI: "(\<And>x. m = Some x \<Longrightarrow> P x) \<Longrightarrow> opt_all P m"
  by (simp add: opt_all_def)

lemma opt_allD: "opt_all P m \<Longrightarrow> m = Some x \<Longrightarrow> P x"
  by (simp add: opt_all_def)

lemma opt_all_None [opt_wp]: "opt_all P None"
  by (simp add: opt_all_def)

lemma opt_all_Some [opt_wp]: "P x \<Longrightarrow> opt_all P (Some x)"
  by (simp add: opt_all_def)

lemma opt_all_bind [opt_wp]: "opt_all (\<lambda>x. opt_all P (f x)) m \<Longrightarrow> opt_all P (m \<bind> f)"
  by (cases m) (auto simp: opt_all_def)

lemma opt_all_assert [opt_wp]: "(c \<Longrightarrow> P ()) \<Longrightarrow> opt_all P (psc_assert c)"
  by (simp add: opt_all_def psc_assert_def)

lemma opt_all_if [opt_wp]:
  "(c \<Longrightarrow> opt_all P a) \<Longrightarrow> (\<not> c \<Longrightarrow> opt_all P b) \<Longrightarrow> opt_all P (if c then a else b)"
  by simp

lemma opt_all_prod [opt_wp]:
  "(\<And>a b. p = (a, b) \<Longrightarrow> opt_all P (f a b)) \<Longrightarrow> opt_all P (case p of (a, b) \<Rightarrow> f a b)"
  by (cases p) simp

lemma opt_all_option [opt_wp]:
  "(m = None \<Longrightarrow> opt_all P a) \<Longrightarrow> (\<And>x. m = Some x \<Longrightarrow> opt_all P (f x)) \<Longrightarrow>
   opt_all P (case m of None \<Rightarrow> a | Some x \<Rightarrow> f x)"
  by (cases m) simp_all

lemma opt_all_list [opt_wp]:
  "(m = [] \<Longrightarrow> opt_all P a) \<Longrightarrow> (\<And>x xs. m = x # xs \<Longrightarrow> opt_all P (f x xs)) \<Longrightarrow>
   opt_all P (case m of [] \<Rightarrow> a | x # xs \<Rightarrow> f x xs)"
  by (cases m) simp_all

lemma opt_all_let [opt_wp]: "(\<And>y. y = x \<Longrightarrow> opt_all P (f y)) \<Longrightarrow> opt_all P (let y = x in f y)"
  by simp

lemma opt_all_mono: "opt_all Q m \<Longrightarrow> (\<And>x. Q x \<Longrightarrow> P x) \<Longrightarrow> opt_all P m"
  by (auto simp: opt_all_def)

text \<open>Nothing is used of what a part returns.\<close>

lemma opt_all_any: "(\<And>x. P x) \<Longrightarrow> opt_all P m"
  by (simp add: opt_all_def)

lemma opt_exI: "m = Some x \<Longrightarrow> P x \<Longrightarrow> opt_ex P m"
  by (auto simp: opt_ex_def)

lemma opt_exE: "opt_ex P m \<Longrightarrow> (\<And>x. m = Some x \<Longrightarrow> P x \<Longrightarrow> R) \<Longrightarrow> R"
  by (auto simp: opt_ex_def)

lemma opt_ex_Some [opt_ex_wp]: "P x \<Longrightarrow> opt_ex P (Some x)"
  by (simp add: opt_ex_def)

lemma opt_ex_bind [opt_ex_wp]: "opt_ex (\<lambda>x. opt_ex P (f x)) m \<Longrightarrow> opt_ex P (m \<bind> f)"
  by (auto simp: opt_ex_def)

lemma opt_ex_assert [opt_ex_wp]: "c \<Longrightarrow> P () \<Longrightarrow> opt_ex P (psc_assert c)"
  by (simp add: opt_ex_def)

lemma opt_ex_if [opt_ex_wp]:
  "(c \<Longrightarrow> opt_ex P a) \<Longrightarrow> (\<not> c \<Longrightarrow> opt_ex P b) \<Longrightarrow> opt_ex P (if c then a else b)"
  by simp

lemma opt_ex_prod [opt_ex_wp]:
  "(\<And>a b. p = (a, b) \<Longrightarrow> opt_ex P (f a b)) \<Longrightarrow> opt_ex P (case p of (a, b) \<Rightarrow> f a b)"
  by (cases p) simp

lemma opt_ex_option [opt_ex_wp]:
  "(m = None \<Longrightarrow> opt_ex P a) \<Longrightarrow> (\<And>x. m = Some x \<Longrightarrow> opt_ex P (f x)) \<Longrightarrow>
   opt_ex P (case m of None \<Rightarrow> a | Some x \<Rightarrow> f x)"
  by (cases m) simp_all

lemma opt_ex_let [opt_ex_wp]: "(\<And>y. y = x \<Longrightarrow> opt_ex P (f y)) \<Longrightarrow> opt_ex P (let y = x in f y)"
  by simp

lemma opt_ex_mono: "opt_ex Q m \<Longrightarrow> (\<And>x. Q x \<Longrightarrow> P x) \<Longrightarrow> opt_ex P m"
  by (auto simp: opt_ex_def)

lemma opt_ex_all: "opt_ex P m \<Longrightarrow> opt_all P m"
  by (auto simp: opt_ex_def opt_all_def)

end
