(* ===== verification/Lease_Safe.thy ===== *)
theory Lease_Safe
  imports Bmap_Lease Opt_Wp Transition
begin

text \<open>
  What the lease operations of \<open>Bmap_Lease\<close> guarantee: every sequence of requests, replies,
  expiries and recoveries keeps the leases of a bmap consistent and coherent.
\<close>

subsection \<open>What an operation leaves of the lease table\<close>

definition tbl_frame :: "lease_tbl \<Rightarrow> lease_tbl \<Rightarrow> bool" where
  "tbl_frame t u \<longleftrightarrow> lt_leases u = lt_leases t \<and> bmi_writers u = bmi_writers t \<and> bmi_readers u = bmi_readers t \<and>
     bcm_dio u = bcm_dio t \<and> same_on UNIV t u \<and>
     (\<forall>y. bml_exp (lt_bml u y) = bml_exp (lt_bml t y) \<and> bml_recover (lt_bml u y) = bml_recover (lt_bml t y))"

definition tbl_inv :: "lease_tbl \<Rightarrow> bool" where
  "tbl_inv t \<longleftrightarrow> leases_ok t \<and> coherent t \<and> exports_ok t \<and> (\<forall>x. bml_bmi (lt_bml t x) \<longrightarrow> x \<in> lease_ids t)"

lemma frame_refl [simp]: "tbl_frame t t"
  by (simp add: tbl_frame_def same_on_def)

lemma frame_trans: "tbl_frame t u \<Longrightarrow> tbl_frame u v \<Longrightarrow> tbl_frame t v"
  by (auto simp: tbl_frame_def same_on_def)

lemma frame_inv:
  assumes "tbl_frame t u" "tbl_inv t"
  shows "tbl_inv u"
proof -
  have "leases_ok u"
    by (rule leases_ok_cong [of t]) (use assms in \<open>auto simp: tbl_frame_def tbl_inv_def same_on_def\<close>)
  then show ?thesis using assms by (auto simp: tbl_frame_def tbl_inv_def coherent_def exports_ok_def same_on_def)
qed

lemma frame_upd:
  assumes "\<And>b. bml_cli (f b) = bml_cli b" "\<And>b. bml_chain (f b) = bml_chain b" "\<And>b. bml_bmi (f b) = bml_bmi b"
    "\<And>b. bml_write (f b) = bml_write b" "\<And>b. bml_exp (f b) = bml_exp b" "\<And>b. bml_recover (f b) = bml_recover b"
  shows "tbl_frame t (bml_upd x f t)"
  using assms by (simp add: tbl_frame_def same_on_def)

lemma ls_upd_simps [simp]:
  "ls_t (ls_upd x f s) = bml_upd x f (ls_t s)" "ls_m (ls_upd x f s) = ls_m s"
  "bmi_wr_ion (ls_upd x f s) = bmi_wr_ion s" "bmi_assign (ls_upd x f s) = bmi_assign s"
  "bcm_noion (ls_upd x f s) = bcm_noion s" "bcm_iosassigned (ls_upd x f s) = bcm_iosassigned s"
  "slm_bia_odt (ls_upd x f s) = slm_bia_odt s" "ls_btt (ls_upd x f s) = ls_btt s"
  "bmi_seq (ls_upd x f s) = bmi_seq s" "ls_jrnl (ls_upd x f s) = ls_jrnl s"
  "rmmi_refcnt (ls_upd x f s) = rmmi_refcnt s"
  by (simp_all add: ls_upd_def)

lemma mdsi_bml: "\<exists>v. fst (snd (mds_bmap_timeotbl_mdsi b flags t)) = b\<lparr>bml_timeoq := v\<rparr>"
  by (auto simp: mds_bmap_timeotbl_mdsi_def Let_def split: prod.splits)

lemma ls_mdsi_frame:
  assumes "ls_mdsi x flags s = (seq, s')"
  shows "\<exists>v btt. s' = (ls_upd x (\<lambda>b. b\<lparr>bml_timeoq := v\<rparr>) s)\<lparr>ls_btt := btt\<rparr>" "tbl_frame (ls_t s) (ls_t s')"
proof -
  obtain q b t where m: "mds_bmap_timeotbl_mdsi (ls_bml s x) flags (ls_btt s) = (q, b, t)" by (metis prod_cases3)
  then obtain v where "b = (ls_bml s x)\<lparr>bml_timeoq := v\<rparr>" using mdsi_bml [of "ls_bml s x" flags "ls_btt s"] by auto
  then have e: "s' = (ls_upd x (\<lambda>b. b\<lparr>bml_timeoq := v\<rparr>) s)\<lparr>ls_btt := t\<rparr>"
    using assms m by (auto simp: ls_mdsi_def ls_upd_def bml_upd_def)
  then show "\<exists>v btt. s' = (ls_upd x (\<lambda>b. b\<lparr>bml_timeoq := v\<rparr>) s)\<lparr>ls_btt := btt\<rparr>" by blast
  show "tbl_frame (ls_t s) (ls_t s')" by (simp add: e frame_upd)
qed

lemma ls_setseq_frame: "tbl_frame (ls_t s) (ls_t (ls_setseq x seq s))"
  by (simp add: ls_setseq_def frame_upd)

text \<open>An operation that keeps the frame, and its parts.\<close>

abbreviation keeps :: "'m lease_st \<Rightarrow> (int \<times> 'm lease_st) option \<Rightarrow> bool" where
  "keeps s m \<equiv> opt_all (\<lambda>(rc, s'). tbl_frame (ls_t s) (ls_t s')) m"

lemma add_repl_tbl:
  "opt_all (\<lambda>(rc, s'). ls_t s' = ls_t s \<and> bmi_wr_ion s' = bmi_wr_ion s \<and> bmi_assign s' = bmi_assign s \<and>
    bcm_noion s' = bcm_noion s \<and> slm_bia_odt s' = slm_bia_odt s \<and> bmi_seq s' = bmi_seq s \<and>
    ls_btt s' = ls_btt s \<and> bcm_iosassigned s' = bcm_iosassigned s) (mds_bmap_add_repl le bia s)"
  unfolding mds_bmap_add_repl_def Let_def
  by (rule opt_wp | rule opt_all_any | (simp; fail))+

lemma add_repl_keeps:
  assumes "tbl_frame (ls_t s) (ls_t s1)"
  shows "keeps s (mds_bmap_add_repl le bia s1)"
  by (rule opt_all_mono [OF add_repl_tbl]) (use assms in auto)

lemma restart_keeps: "keeps s (mds_bmap_ios_restart le x s)"
  unfolding mds_bmap_ios_restart_def Let_def
  by (intro opt_wp; rule opt_all_any; intro opt_wp) (auto dest: ls_mdsi_frame(2))

lemma frame_step:
  assumes "tbl_frame t u" "\<And>b. bml_cli (f b) = bml_cli b" "\<And>b. bml_chain (f b) = bml_chain b"
    "\<And>b. bml_bmi (f b) = bml_bmi b" "\<And>b. bml_write (f b) = bml_write b" "\<And>b. bml_exp (f b) = bml_exp b"
    "\<And>b. bml_recover (f b) = bml_recover b"
  shows "tbl_frame t (bml_upd x f u)"
  by (rule frame_trans [OF assms(1) frame_upd]) (rule assms)+

lemma update_keeps: "keeps s (mds_bmap_ios_update le x s)"
  unfolding mds_bmap_ios_update_def Let_def
proof (intro opt_wp; (rule opt_all_any; intro opt_wp)?; (rule opt_all_any; intro opt_wp)?, goal_cases)
  case (2 elem bia seq s1)
  then have 1: "tbl_frame (ls_t s) (ls_t s1)" by (auto dest: ls_mdsi_frame(2))
  show ?case by (rule add_repl_keeps) (simp add: ls_setseq_def frame_step 1)
qed simp

lemma assign_keeps: "keeps s (mds_bmap_ios_assign le x iosid s)"
  unfolding mds_bmap_ios_assign_def Let_def
proof (intro opt_wp; (rule opt_all_any; intro opt_wp)?, goal_cases)
  case (3 p resm m r elem seq s1)
  then have 1: "tbl_frame (ls_t s) (ls_t s1)"
    by (auto dest!: ls_mdsi_frame(2) intro: frame_trans [rotated] simp: frame_upd)
  show ?case
    by (rule opt_all_mono [OF add_repl_keeps [of s]])
      (auto simp: ls_setseq_def 1 intro!: opt_wp frame_step)
qed (auto simp: frame_upd)

lemma bind_ion_keeps: "keeps s (bml_bind_ion le x wlease prefios s)"
  unfolding bml_bind_ion_def
  by (intro opt_wp restart_keeps assign_keeps update_keeps)

subsection \<open>Adding and upgrading\<close>

text \<open>
  What \<open>mds_bmap_directio\<close> leaves: who holds which lease, and, when it lets the client pass
  outside direct I/O mode, that the other leases do not conflict.
\<close>

definition passes :: "sl_rw \<Rightarrow> u64 \<times> u32 \<Rightarrow> lease_tbl \<Rightarrow> bool" where
  "passes rw np t \<longleftrightarrow> bcm_dio t \<or> (\<forall>x \<in> lease_ids t. lt_cli t x = np) \<or>
     bmi_writers t = 0 \<and> (rw = SL_WRITE \<longrightarrow> bmi_readers t = 0)"

lemma directio_keeps:
  assumes "tbl_inv t"
  shows "opt_all (\<lambda>(rc, u). tbl_inv u \<and> lt_leases u = lt_leases t \<and> bmi_writers u = bmi_writers t \<and>
    bmi_readers u = bmi_readers t \<and> same_on UNIV t u \<and>
    (\<forall>y. bml_exp (lt_bml u y) = bml_exp (lt_bml t y) \<and> bml_recover (lt_bml u y) = bml_recover (lt_bml t y)) \<and>
    (rc = 0 \<longrightarrow> passes rw np u)) (mds_bmap_directio ce rw want np t)"
proof (cases "bcm_dio t")
  case True
  then show ?thesis using assms by (simp add: directio_dio opt_all_def passes_def same_on_def)
next
  case False
  have ok: "leases_ok t" "exports_ok t" "coherent t" using assms by (simp_all add: tbl_inv_def)
  let ?A = "dio_asked np (lease_ids t) t"
  obtain rc u where u: "mds_bmap_directio ce rw want np t = Some (rc, u)" and
    m: "if want \<or> bcm_diocb t \<or> bmi_writers t \<noteq> 0 \<or> rw = SL_WRITE \<and> bmi_readers t \<noteq> 0
     then rc = (if ?A \<noteq> {} then - SLERR_BMAP_DIOWAIT else 0) \<and> lt_bml u = dio_mark ?A t \<and>
       bcm_dio u = (rc = 0 \<and> (want \<or> bcm_diocb t \<or> (\<exists>x \<in> lease_ids t. lt_cli t x \<noteq> np)))
     else rc = 0 \<and> u = t" and
    l: "lt_leases u = lt_leases t" "bmi_writers u = bmi_writers t" "bmi_readers u = bmi_readers t"
    using directio_spec [OF ok(2) False, of ce rw want np] by (elim exE conjE)
  have b: "lt_bml u = dio_mark ?A t \<or> lt_bml u = lt_bml t" using m by (simp split: if_splits)
  have same: "same_on UNIV t u" using b by (auto simp: same_on_def dio_mark_simps)
  have x: "\<forall>y. bml_exp (lt_bml u y) = bml_exp (lt_bml t y) \<and> bml_recover (lt_bml u y) = bml_recover (lt_bml t y)"
    using b by (auto simp: dio_mark_simps)
  have "leases_ok u" by (rule leases_ok_cong [OF ok(1) l]) (use same in \<open>simp add: same_on_def\<close>)
  moreover have "coherent u" using ok(3) False l by (auto simp: coherent_def)
  moreover have "exports_ok u" using ok(2) l(1) x by (simp add: exports_ok_def)
  moreover have "bml_bmi (lt_bml u y) \<longrightarrow> y \<in> lease_ids u" for y
    using assms same l(1) by (simp add: tbl_inv_def same_on_def)
  moreover have "passes rw np u" if "rc = 0"
  proof -
    have c: "lt_cli u y = lt_cli t y" for y using same by (simp add: same_on_def)
    show ?thesis using m that unfolding passes_def l c by (simp split: if_splits) blast+
  qed
  ultimately show ?thesis
    using u same x l by (simp add: opt_all_def tbl_inv_def)
qed

lemma link_length:
  "length (lt_leases (bml_count_add rw wl rl (bml_link x ob t))) = length (lt_leases t) + (if ob = None then 1 else 0)"
  by (auto simp: bml_count_add_def bml_link_def chain_upd_def split: option.splits)

lemma link_flags:
  "bcm_dio (bml_count_add rw wl rl (bml_link x ob t)) = bcm_dio t"
  "lt_bml (bml_count_add rw wl rl (bml_link x ob t)) =
     (lt_bml t)(x := (lt_bml t x)\<lparr>bml_chain := (ob \<noteq> None) \<or> bml_chain (lt_bml t x), bml_bmi := True\<rparr>)"
  by (auto simp: bml_count_add_def bml_link_def)

lemma link_ids:
  assumes ok: "leases_ok t" and d: "mds_bmap_dupls_find t np = Some (ob, wl, rl)"
  shows "lease_ids (bml_count_add rw wl' rl' (bml_link x ob t)) = insert x (lease_ids t)"
proof (rule dupls_find_cases [OF ok, of np], goal_cases)
  case 1
  then show ?thesis using d by (auto simp: bml_count_add_def bml_link_def)
next
  case (2 xs c ys)
  have ob: "ob = Some c" using d 2(4) by simp
  have "chains_ok t (xs @ c # ys) (bmi_writers t) (bmi_readers t)" using ok 2(1) by (simp add: leases_ok_def)
  then have "chain_upd (hd c) (\<lambda>c. c @ [x]) (xs @ c # ys) = xs @ (c @ [x]) # ys"
    by (intro chain_upd_split(1) chain_headD(3))
  then show ?thesis by (auto simp: ob bml_count_add_def bml_link_def 2(1))
qed

lemma link_coherent:
  assumes ok: "leases_ok t" "leases_ok (bml_count_add rw wl rl (bml_link x ob t))"
    and d: "mds_bmap_dupls_find t np = Some (ob, wl, rl)" and p: "passes rw np t"
  shows "coherent (bml_count_add rw wl rl (bml_link x ob t))"
proof (cases "\<not> bcm_dio t \<and> (\<forall>x \<in> lease_ids t. lt_cli t x = np)")
  case True
  have 1: "length (lt_leases t) \<le> 1" using single_client [OF ok(1)] True by blast
  have "ob \<noteq> None" if "lt_leases t \<noteq> []"
  proof (rule dupls_find_cases [OF ok(1), of np], goal_cases)
    case 1
    obtain c L where "lt_leases t = [] @ c # L" using \<open>lt_leases t \<noteq> []\<close> by (cases "lt_leases t") auto
    moreover from this have "hd c \<in> set c" using chain_headD(2) [of t "[]" c L] ok(1) by (simp add: leases_ok_def)
    ultimately have "lt_cli t (hd c) = np" "c \<in> set (lt_leases t)" using True by auto
    then show ?thesis using 1(1) by blast
  next
    case (2 xs c ys)
    then show ?thesis using d by simp
  qed
  then have "length (lt_leases (bml_count_add rw wl rl (bml_link x ob t))) \<le> 1"
    using 1 unfolding link_length by (cases "lt_leases t") auto
  then show ?thesis by (simp add: coherent_def)
next
  case False
  then consider "bcm_dio t" | "bmi_writers t = 0" "rw = SL_WRITE \<longrightarrow> bmi_readers t = 0"
    using p by (auto simp: passes_def)
  then show ?thesis
  proof cases
    case 2
    show ?thesis
    proof (cases rw)
      case SL_READ
      then show ?thesis using 2 by (simp add: coherent_def bml_count_add_def bml_link_def)
    next
      case SL_WRITE
      then have "lt_leases t = []" using 2 count_total [OF ok(1)] by simp
      then show ?thesis using link_length [of rw wl rl x ob t] by (simp add: coherent_def)
    qed
  qed (simp add: coherent_def link_flags)
qed

lemma link_inv:
  assumes i: "tbl_inv t" and x: "x \<notin> lease_ids t" "\<not> bml_chain (lt_bml t x)"
      "bml_exp (lt_bml t x) \<longleftrightarrow> \<not> bml_recover (lt_bml t x)" "rw = SL_WRITE \<longleftrightarrow> bml_write (lt_bml t x)"
    and d: "mds_bmap_dupls_find t (lt_cli t x) = Some (ob, wl, rl)"
    and c: "leases_ok (bml_count_add rw wl rl (bml_link x ob t)) \<Longrightarrow> coherent (bml_count_add rw wl rl (bml_link x ob t))"
  shows "tbl_inv (bml_count_add rw wl rl (bml_link x ob t))"
proof -
  have ok: "leases_ok t" "exports_ok t" "\<forall>x. bml_bmi (lt_bml t x) \<longrightarrow> x \<in> lease_ids t"
    using i by (simp_all add: tbl_inv_def)
  let ?u = "bml_count_add rw wl rl (bml_link x ob t)"
  have u: "leases_ok ?u" by (rule link_ok [OF ok(1) x(1,2) d x(4)])
  have ids: "lease_ids ?u = insert x (lease_ids t)" by (rule link_ids [OF ok(1) d])
  have "exports_ok ?u" using ok(2) x(3) unfolding exports_ok_def ids link_flags by simp
  moreover have "\<forall>y. bml_bmi (lt_bml ?u y) \<longrightarrow> y \<in> lease_ids ?u"
    using ok(3) unfolding ids link_flags by simp
  ultimately show ?thesis using u c by (simp add: tbl_inv_def)
qed

lemma count_add_upd: "bml_count_add rw wl rl (bml_upd x f t) = bml_upd x f (bml_count_add rw wl rl t)"
  by (simp add: bml_count_add_def bml_upd_def)

text \<open>The states a new lease can be added in, and what adding it gives.\<close>

definition fresh_bml :: "nat \<Rightarrow> sl_rw \<Rightarrow> lease_tbl \<Rightarrow> bool" where
  "fresh_bml x rw t \<longleftrightarrow> x \<notin> lease_ids t \<and> \<not> bml_chain (lt_bml t x) \<and>
     (bml_exp (lt_bml t x) \<longleftrightarrow> \<not> bml_recover (lt_bml t x)) \<and> (rw = SL_WRITE \<longleftrightarrow> bml_write (lt_bml t x)) \<and>
     (bml_recover (lt_bml t x) \<longrightarrow> rw = SL_WRITE)"

lemma link_bound:
  assumes i: "tbl_inv t" "fresh_bml x rw t"
    and d: "mds_bmap_dupls_find t (lt_cli t x) = Some (ob, wl, rl)"
    and p: "\<not> bml_recover (lt_bml t x) \<longrightarrow> passes rw (lt_cli t x) t"
    and s: "ls_t s = bml_count_add SL_WRITE wl rl (bml_link x ob t)" "rw = SL_WRITE"
  shows "opt_all (\<lambda>(rc, s'). tbl_inv (ls_t s')) (bml_bind_ion le x wl prefios s)"
proof (rule opt_allI)
  fix y assume y: "bml_bind_ion le x wl prefios s = Some y"
  have ok: "leases_ok t" using i(1) by (simp add: tbl_inv_def)
  have f: "x \<notin> lease_ids t" "\<not> bml_chain (lt_bml t x)" "bml_exp (lt_bml t x) \<longleftrightarrow> \<not> bml_recover (lt_bml t x)"
    "rw = SL_WRITE \<longleftrightarrow> bml_write (lt_bml t x)" using i(2) by (simp_all add: fresh_bml_def)
  have r: "bml_recover (ls_bml s x) = bml_recover (lt_bml t x)" by (simp add: s(1) link_flags)
  have "tbl_inv (ls_t s)" unfolding s(1) s(2) [symmetric]
  proof (rule link_inv [OF i(1) f d])
    assume l: "leases_ok (bml_count_add rw wl rl (bml_link x ob t))"
    show "coherent (bml_count_add rw wl rl (bml_link x ob t))"
    proof (cases "bml_recover (lt_bml t x)")
      case True
      then have "bmi_writers (ls_t s) = 1" "bmi_readers (ls_t s) = 0"
        using y r by (auto simp: bml_bind_ion_def psc_assert_def split: if_splits)
      then show ?thesis using count_total [OF l] s by (simp add: coherent_def)
    next
      case False
      then show ?thesis using link_coherent [OF ok l d] p by blast
    qed
  qed
  then show "case y of (rc, s') \<Rightarrow> tbl_inv (ls_t s')"
    using opt_allD [OF bind_ion_keeps y] by (auto intro: frame_inv)
qed

lemma op_start_simps [simp]: "ls_t (ls_bmap_op_start s) = ls_t s" "ls_btt (ls_bmap_op_start s) = ls_btt s"
  by (simp_all add: ls_bmap_op_start_def Let_def)

lemma mdsi_inv: "tbl_inv (ls_t s) \<Longrightarrow> tbl_inv (ls_t (snd (ls_mdsi x flags s)))"
  using ls_mdsi_frame(2) [of x flags s "fst (ls_mdsi x flags s)" "snd (ls_mdsi x flags s)"] by (simp add: frame_inv)

lemma bml_add_inv:
  assumes i: "tbl_inv (ls_t s)" "fresh_bml x rw (ls_t s)"
  shows "opt_all (\<lambda>(rc, s'). tbl_inv (ls_t s')) (mds_bmap_bml_add le x rw prefios s)"
  unfolding mds_bmap_bml_add_def Let_def
proof (rule opt_wp, rule opt_wp, rule opt_wp, rule opt_all_mono [OF directio_keeps], simp add: i(1), goal_cases)
  case (1 y)
  obtain rc u where y: "y = (rc, u)" by fastforce
  have u: "tbl_inv u" "lt_leases u = lt_leases (ls_t s)" "same_on UNIV (ls_t s) u"
    "\<forall>y. bml_exp (lt_bml u y) = bml_exp (ls_bml s y) \<and> bml_recover (lt_bml u y) = bml_recover (ls_bml s y)"
    "rc = 0 \<longrightarrow> passes rw (lt_cli (ls_t s) x) u"
    using 1(2) by (auto simp: y)
  have c: "lt_cli (ls_t s) x = lt_cli u x" using u(3) by (simp add: same_on_def)
  have f: "fresh_bml x rw u" using i(2) u(2-4) by (simp add: fresh_bml_def same_on_def)
  show ?case unfolding y prod.case c
  proof ((intro opt_wp; (rule opt_allI; intro opt_wp)?), goal_cases)
    case (2 d ob wrl wl rl)
    have p: "\<not> bml_recover (lt_bml u x) \<longrightarrow> passes rw (lt_cli u x) u"
      using 2 u(4,5) c by auto
    show ?case
      by (rule opt_all_mono [OF link_bound [OF u(1) f _ p]])
        (use 2 in \<open>auto intro: opt_wp\<close>)
  next
    case (3 d ob wrl wl rl seq btt)
    have r: "\<not> bml_recover (lt_bml u x)" "rc = 0" using f 3 u(4) by (auto simp: fresh_bml_def)
    have d: "mds_bmap_dupls_find u (lt_cli u x) = Some (ob, wl, rl)" using 3 by simp
    have ok: "leases_ok u" using u(1) by (simp add: tbl_inv_def)
    have f': "x \<notin> lease_ids u" "\<not> bml_chain (lt_bml u x)" "bml_exp (lt_bml u x) \<longleftrightarrow> \<not> bml_recover (lt_bml u x)"
      "rw = SL_WRITE \<longleftrightarrow> bml_write (lt_bml u x)" using f by (simp_all add: fresh_bml_def)
    have "tbl_inv (bml_count_add rw wl rl (bml_link x ob u))"
      using link_inv [OF u(1) f' d] link_coherent [OF ok _ d] u(5) r c by simp
    then have "tbl_inv (bml_upd x (\<lambda>b. b\<lparr>bml_seq := seq\<rparr>) (bml_count_add rw wl rl (bml_link x ob u)))"
      by (rule frame_inv [rotated]) (simp add: frame_upd)
    then show ?case by (simp add: mdsi_inv count_add_upd)
  qed (use u(1) in simp)
qed

definition bml_upgrade :: "nat \<Rightarrow> int \<Rightarrow> lease_tbl \<Rightarrow> lease_tbl" where
  "bml_upgrade x wl t = bml_upd x (\<lambda>b. b\<lparr>bml_write := True\<rparr>)
     (if wl = 0 then t\<lparr>bmi_writers := bmi_writers t + 1, bmi_readers := bmi_readers t - 1\<rparr> else t)"

lemma upgrade_simps [simp]:
  "lt_leases (bml_upgrade x wl t) = lt_leases t" "bcm_dio (bml_upgrade x wl t) = bcm_dio t"
  "lt_bml (bml_upgrade x wl t) = (lt_bml t)(x := (lt_bml t x)\<lparr>bml_write := True\<rparr>)"
  by (simp_all add: bml_upgrade_def)

lemma upgrade_ok:
  assumes ok: "leases_ok t" and x: "x \<in> lease_ids t"
    and d: "mds_bmap_dupls_find t (lt_cli t x) = Some (ob, wl, rl)"
  shows "leases_ok (bml_upgrade x wl t)"
proof (rule lease_split [OF ok x])
  fix xs c ys
  assume c: "lt_leases t = xs @ c # ys" "x \<in> set c"
    "mds_bmap_dupls_find t (lt_cli t x) = Some (Some c, int (n_w t c), int (n_r t c))"
  let ?u = "bml_upgrade x wl t"
  have wl: "wl = 0 \<longleftrightarrow> \<not> has_w t c" using d c(3) has_w_count [of t c] by auto
  have ch: "chains_ok t (xs @ c # ys) (bmi_writers t) (bmi_readers t)" using ok by (simp add: leases_ok_def c(1))
  have ch': "chains_ok t (xs @ ys) (bmi_writers t - (if has_w t c then 1 else 0)) (bmi_readers t - (if has_w t c then 0 else 1))"
    "member_ok t c" "distinct c" "set c \<inter> set (concat (xs @ ys)) = {}"
    "\<forall>d \<in> set (xs @ ys). lt_cli t (hd d) \<noteq> lt_cli t (hd c)"
    using ch unfolding chains_ok_insert by simp_all
  have cli: "lt_cli ?u y = lt_cli t y" for y by simp
  have w: "has_w ?u c" using c(2) by (auto simp: has_w_def list_ex_iff)
  have nx: "x \<notin> set (concat (xs @ ys))" using ch'(4) c(2) by blast
  have "same_on (set (concat (xs @ ys))) t ?u" using nx unfolding same_on_def by auto
  then have "chains_ok ?u (xs @ ys) (bmi_writers ?u - 1) (bmi_readers ?u)"
    using chains_ok_cong ch'(1) wl by (auto simp: bml_upgrade_def)
  moreover have "member_ok ?u c = member_ok t c" by (rule member_ok_cong) simp
  ultimately show ?thesis
    using ch'(2-5) w unfolding leases_ok_def upgrade_simps(1) c(1) chains_ok_insert cli by simp
qed

lemma upgrade_inv:
  assumes i: "tbl_inv t" and x: "x \<in> lease_ids t"
    and d: "mds_bmap_dupls_find t (lt_cli t x) = Some (ob, wl, rl)" and p: "passes SL_WRITE (lt_cli t x) t"
  shows "tbl_inv (bml_upgrade x wl t)"
proof -
  have ok: "leases_ok t" "exports_ok t" "\<forall>x. bml_bmi (lt_bml t x) \<longrightarrow> x \<in> lease_ids t"
    using i by (simp_all add: tbl_inv_def)
  have ne: "length (lt_leases t) \<noteq> 0" using x by auto
  have "coherent (bml_upgrade x wl t)"
    using p single_client [OF ok(1), of "lt_cli t x"] count_total [OF ok(1)] ne
    by (auto simp: passes_def coherent_def)
  moreover have "exports_ok (bml_upgrade x wl t)" using ok(2) by (auto simp: exports_ok_def)
  ultimately show ?thesis using upgrade_ok [OF ok(1) x d] ok(3) by (simp add: tbl_inv_def)
qed

lemma passes_frame: "tbl_frame t u \<Longrightarrow> passes rw np t \<Longrightarrow> passes rw np u"
  by (auto simp: passes_def tbl_frame_def same_on_def)

lemma chwrmode_inv:
  assumes i: "tbl_inv (ls_t s)" "x \<in> lease_ids (ls_t s)"
  shows "opt_all (\<lambda>(rc, s'). tbl_inv (ls_t s')) (mds_bmap_bml_chwrmode le x prefios s)"
  unfolding mds_bmap_bml_chwrmode_def Let_def
proof (rule opt_wp, goal_cases)
  case 1
  show ?case using i by (auto intro: opt_wp)
next
  case 2
  show ?case
  proof (rule opt_wp, rule opt_all_mono [OF directio_keeps], simp add: i(1), goal_cases)
    case (1 y)
    obtain rc u where y: "y = (rc, u)" by fastforce
    have u: "tbl_inv u" "lt_leases u = lt_leases (ls_t s)" "same_on UNIV (ls_t s) u"
      "rc = 0 \<longrightarrow> passes SL_WRITE (lt_cli (ls_t s) x) u"
      using 1 by (auto simp: y)
    have c: "lt_cli (ls_t s) x = lt_cli u x" using u(3) by (simp add: same_on_def)
    let ?s = "s\<lparr>bcm_iosassigned := True, ls_t := u\<rparr>"
    have k: "keeps ?s (if bmi_wr_ion ?s \<noteq> None then mds_bmap_ios_update le x ?s else mds_bmap_ios_assign le x prefios ?s)"
      by (intro opt_wp update_keeps assign_keeps)
    show ?case unfolding y prod.case
    proof (rule opt_wp, goal_cases)
      case 2
      show ?case
      proof (rule opt_wp, rule opt_all_mono [OF k], goal_cases)
        case (1 z)
        obtain rc' s' where z: "z = (rc', s')" by fastforce
        have f: "tbl_frame u (ls_t s')" using 1 by (simp add: z)
        then have f': "tbl_inv (ls_t s')" "lt_cli (ls_t s') x = lt_cli u x" "lt_leases (ls_t s') = lt_leases u"
          using u(1) frame_inv by (auto simp: tbl_frame_def same_on_def)
        have p: "passes SL_WRITE (lt_cli (ls_t s') x) (ls_t s')" using passes_frame [OF f] u(4) 2 c f'(2) by simp
        show ?case unfolding z prod.case
          by (intro opt_wp; (rule opt_allI; intro opt_wp)?)
            (use upgrade_inv [OF f'(1) _ _ p] i(2) f' u(2) in
              \<open>auto simp: bml_upgrade_def intro: frame_inv [OF frame_upd]\<close>)
      qed
    qed (use u(1) in \<open>auto intro: opt_wp\<close>)
  qed
qed

subsection \<open>Releasing\<close>

lemma del_inv:
  assumes i: "tbl_inv t" and x: "bml_bmi (lt_bml t x)"
  shows "opt_all (\<lambda>u. tbl_inv (dio_clear (bml_upd x (\<lambda>b. b\<lparr>bml_bmi := False\<rparr>) u))) (mds_bmap_bml_del_locked x t)"
proof -
  have ok: "leases_ok t" "coherent t" "exports_ok t" "x \<in> lease_ids t" "\<forall>x. bml_bmi (lt_bml t x) \<longrightarrow> x \<in> lease_ids t"
    using i x by (auto simp: tbl_inv_def)
  obtain u where u: "mds_bmap_bml_del_locked x t = Some u" "leases_ok u" "lease_ids u = lease_ids t - {x}"
    "length (lt_leases u) \<le> length (lt_leases t)" "bmi_writers u \<le> bmi_writers t" "bcm_dio u = bcm_dio t"
    "\<forall>y. \<exists>f. lt_bml u y = (lt_bml t y)\<lparr>bml_chain := f\<rparr>"
    using del_ok [OF ok(1,4)] by (elim exE conjE)
  let ?v = "bml_upd x (\<lambda>b. b\<lparr>bml_bmi := False\<rparr>) u"
  have f: "bml_exp (lt_bml u y) = bml_exp (lt_bml t y)" "bml_recover (lt_bml u y) = bml_recover (lt_bml t y)"
    "bml_bmi (lt_bml u y) = bml_bmi (lt_bml t y)" for y
    using u(7) [rule_format, of y] by auto
  have v: "leases_ok ?v" by (rule leases_ok_cong [OF u(2)]) (use u(3) in \<open>auto simp: same_on_def\<close>)
  have c: "coherent ?v"
    using ok(2) u(4-6) counts_nonneg [OF u(2)] by (auto simp: coherent_def)
  have d: "lt_bml (dio_clear ?v) = lt_bml ?v" "lt_leases (dio_clear ?v) = lt_leases u" by (simp_all add: dio_clear_def)
  have "exports_ok (dio_clear ?v)" using ok(3) u(3) f unfolding exports_ok_def d by auto
  moreover have "bml_bmi (lt_bml ?v y) \<longrightarrow> y \<in> lease_ids u" for y using ok(5) u(3) f(3) by auto
  ultimately show ?thesis
    using dio_clear_ok [OF v c] u(1) by (simp add: opt_all_def tbl_inv_def d)
qed

lemma release_ion_tbl: "opt_all (\<lambda>(odtr, s'). ls_t s' = ls_t s) (bml_release_ion le x s)"
  unfolding bml_release_ion_def Let_def
  by (rule opt_wp | rule opt_all_any | (simp; fail))+

lemma op_done_tbl: "opt_all (\<lambda>s'. ls_t s' = ls_t s) (ls_bmap_op_done s)"
  unfolding ls_bmap_op_done_def bmap_op_done_def by (rule opt_wp | (simp; fail))+

lemma release_inv:
  assumes i: "tbl_inv (ls_t s)"
  shows "opt_all (\<lambda>s'. tbl_inv (ls_t s')) (mds_bmap_bml_release le x s)"
proof -
  have unlink: "opt_all (\<lambda>(odtr, s'). tbl_inv (ls_t s')) (bml_release_unlink le x s1)" if "tbl_inv (ls_t s1)" for s1
    unfolding bml_release_unlink_def Let_def
  proof (rule opt_wp, goal_cases)
    case 2
    show ?case
    proof (rule opt_wp, rule opt_all_mono [OF del_inv [OF that]], goal_cases)
      case (2 t)
      then show ?case by (intro opt_wp opt_all_mono [OF release_ion_tbl]) auto
    qed (use 2 in simp)
  qed (use that in \<open>auto intro: opt_wp\<close>)
  have 1: "tbl_inv (ls_t (if b then snd (ls_mdsi x BTE_DEL s) else s))" for b using i mdsi_inv [OF i] by simp
  show ?thesis unfolding mds_bmap_bml_release_def Let_def
  proof (rule opt_wp, rule opt_wp, rule opt_wp, goal_cases)
    case 1
    show ?case using frame_inv [OF frame_upd i] by (intro opt_wp) simp
  next
    case 2
    show ?case
      by (rule opt_wp, rule opt_all_mono [OF unlink], use 1 in simp)
        (auto intro!: opt_wp intro: opt_all_mono [OF op_done_tbl] split: option.splits)
  qed
qed

subsection \<open>Requests\<close>

abbreviation inv_st :: "'m lease_st \<Rightarrow> bool" where
  "inv_st s \<equiv> tbl_inv (ls_t s)"

lemma getbml_frame:
  assumes "mds_bmap_getbml seq cli t = (ob, u)"
  shows "tbl_frame t u" "ob = Some x \<Longrightarrow> x \<in> lease_ids t"
proof -
  show "tbl_frame t u" using assms by (auto simp: mds_bmap_getbml_def frame_upd split: option.splits if_splits)
  assume "ob = Some x"
  then have "find (\<lambda>x. bml_seq (lt_bml t x) = seq)
      (concat (filter (\<lambda>c. lt_cli t (hd c) = cli) (lt_leases t))) = Some x"
    using assms by (auto simp: mds_bmap_getbml_def split: option.splits if_splits)
  then show "x \<in> lease_ids t" using find_SomeD by fastforce
qed

lemma bml_new_inv:
  assumes "inv_st s" "x \<notin> lease_ids (ls_t s)" "recover \<longrightarrow> rw = SL_WRITE"
  shows "inv_st (mds_bml_new le x recover rw dio cli s)"
    "fresh_bml x rw (ls_t (mds_bml_new le x recover rw dio cli s))"
proof -
  let ?u = "ls_t (mds_bml_new le x recover rw dio cli s)"
  have u: "lt_leases ?u = lt_leases (ls_t s)" "bmi_writers ?u = bmi_writers (ls_t s)"
    "bmi_readers ?u = bmi_readers (ls_t s)" "bcm_dio ?u = bcm_dio (ls_t s)"
    and k: "\<And>y. y \<noteq> x \<Longrightarrow> lt_bml ?u y = ls_bml s y"
    and b: "\<not> bml_bmi (lt_bml ?u x)" by (simp_all add: mds_bml_new_def)
  have k': "lt_bml ?u y = ls_bml s y" if "y \<in> lease_ids (ls_t s)" for y using that assms(2) by (intro k) blast
  have "leases_ok (ls_t s)" using assms(1) by (simp add: tbl_inv_def)
  then have "leases_ok ?u" by (rule leases_ok_cong [OF _ u(1-3)]) (unfold same_on_def, intro ballI, simp only: k' simp_thms)
  moreover have "exports_ok ?u" using assms(1) k' unfolding tbl_inv_def exports_ok_def u(1) by simp
  moreover have "bml_bmi (lt_bml ?u y) \<longrightarrow> y \<in> lease_ids ?u" for y
    using assms(1) k [of y] b unfolding tbl_inv_def u(1) by (cases "y = x") auto
  ultimately show "inv_st (mds_bml_new le x recover rw dio cli s)"
    using assms(1) by (simp add: tbl_inv_def coherent_def u)
  show "fresh_bml x rw ?u" using assms(2,3) by (simp add: fresh_bml_def mds_bml_new_def)
qed

lemma set_failed_inv: "inv_st s \<Longrightarrow> inv_st (bml_set_failed rc x s)"
  by (rule frame_inv [of "ls_t s"]) (simp_all add: bml_set_failed_def frame_upd)

lemma set_freeing_inv: "inv_st s \<Longrightarrow> inv_st (ls_upd x (\<lambda>b. b\<lparr>bml_freeing := True\<rparr>) s)"
  by (rule frame_inv [of "ls_t s"]) (simp_all add: frame_upd)

lemma freeing_opt_inv:
  "inv_st s \<Longrightarrow> inv_st (case ob of None \<Rightarrow> s | Some y \<Rightarrow> ls_upd y (\<lambda>b. b\<lparr>bml_freeing := True\<rparr>) s)"
  by (cases ob) (simp_all only: option.case set_freeing_inv)

lemma set_dio_inv: "inv_st s \<Longrightarrow> inv_st (s\<lparr>ls_t := bml_set_dio x (ls_t s)\<rparr>)"
  by (rule frame_inv [of "ls_t s"]) (simp_all add: bml_set_dio_def frame_upd)

lemma op_done_inv: "inv_st s \<Longrightarrow> opt_all inv_st (ls_bmap_op_done s)"
  by (rule opt_all_mono [OF op_done_tbl]) simp

lemma release_opt_inv:
  "inv_st s \<Longrightarrow> opt_all inv_st (case ob of None \<Rightarrow> Some s | Some y \<Rightarrow> mds_bmap_bml_release le y s)"
  by (cases ob) (simp_all add: opt_all_Some release_inv)

lemma load_cli_inv:
  assumes "inv_st s" "x \<notin> lease_ids (ls_t s)"
  shows "opt_all (\<lambda>(rc, sbd, s'). inv_st s') (mds_bmap_load_cli le x getrc want rw prefios sbd cli s)"
proof -
  let ?s = "mds_bml_new le x False rw want cli (ls_bmap_op_start s)"
  have n: "inv_st ?s" "fresh_bml x rw (ls_t ?s)"
    using bml_new_inv [of "ls_bmap_op_start s" x False rw] assms by simp_all
  show ?thesis unfolding mds_bmap_load_cli_def Let_def
    by (rule opt_all_mono [OF bml_add_inv [OF n]] opt_all_mono [OF release_inv] opt_all_mono [OF op_done_inv]
        | rule opt_wp | rule opt_all_any | (auto simp: assms set_failed_inv; fail))+
qed

lemma lease_renew_inv:
  assumes "inv_st s" "x \<notin> lease_ids (ls_t s)"
  shows "opt_all (\<lambda>(rc, sbd, s'). inv_st s') (mds_lease_renew le x getrc sbd_in sbd cli s)"
proof -
  obtain ob t where g: "mds_bmap_getbml (sbd_seq sbd_in) (sbd_cli sbd_in) (ls_t s) = (ob, t)" by fastforce
  let ?rw = "if sbd_ios sbd_in = IOS_ID_ANY then SL_READ else SL_WRITE"
  let ?s = "mds_bml_new le x False ?rw False cli ((ls_bmap_op_start s)\<lparr>ls_t := t\<rparr>)"
  have "inv_st ((ls_bmap_op_start s)\<lparr>ls_t := t\<rparr>)" "x \<notin> lease_ids t"
    using frame_inv [OF getbml_frame(1) [OF g] assms(1)] getbml_frame(1) [OF g] assms(2) by (simp_all add: tbl_frame_def)
  then have n: "inv_st ?s" "fresh_bml x ?rw (ls_t ?s)"
    using bml_new_inv [of "(ls_bmap_op_start s)\<lparr>ls_t := t\<rparr>" x False ?rw le False cli] by simp_all
  show ?thesis unfolding mds_lease_renew_def Let_def op_start_simps g prod.case
    by (rule opt_all_mono [OF bml_add_inv [OF n]] opt_all_mono [OF release_inv] opt_all_mono [OF op_done_inv]
          opt_all_mono [OF release_opt_inv]
        | rule opt_wp | rule opt_all_any | (auto simp: assms set_failed_inv freeing_opt_inv; fail))+
qed

lemma reassign_ion_inv:
  assumes "inv_st s"
  shows "opt_all (\<lambda>(rc, sbd, s'). inv_st s') (lease_reassign_ion le y pios prev sbd cli s)"
proof -
  have ad: "opt_all (\<lambda>(rc, s'). inv_st s') (mds_bmap_add_repl le bia s1)" if "inv_st s1" for bia s1
    by (rule opt_all_mono [OF add_repl_tbl]) (use that in auto)
  have md: "inv_st s2" if "ls_mdsi y BTE_ADD s1 = (seq, s2)" "inv_st s1" for seq s1 s2
    using ls_mdsi_frame(2) [OF that(1)] that(2) frame_inv by blast
  have fin: "tbl_inv (bml_upd y (\<lambda>b. b\<lparr>bml_ios := i\<rparr>) (ls_t (ls_setseq y q s1)))" if "inv_st s1" for i q s1
    by (rule frame_inv [OF _ that]) (simp add: ls_setseq_def frame_step)
  show ?thesis unfolding lease_reassign_ion_def Let_def
    by (rule opt_all_mono [OF ad] | rule opt_wp | rule opt_all_any | (auto simp: assms fin dest: md; fail))+
qed

lemma lease_reassign_inv:
  assumes "inv_st s"
  shows "opt_all (\<lambda>(rc, sbd, s'). inv_st s') (mds_lease_reassign le getrc sbd_in pios prev sbd cli s)"
proof -
  obtain ob t where g: "mds_bmap_getbml (sbd_seq sbd_in) (sbd_cli sbd_in) (ls_t s) = (ob, t)" by fastforce
  have t: "tbl_inv t" using frame_inv [OF getbml_frame(1) [OF g] assms] .
  show ?thesis unfolding mds_lease_reassign_def Let_def op_start_simps g prod.case
    by (rule opt_all_mono [OF reassign_ion_inv] opt_all_mono [OF release_inv] opt_all_mono [OF op_done_inv]
          opt_all_mono [OF release_opt_inv]
        | rule opt_wp | (auto simp: assms t; fail))+
qed

lemma handle_rls_inv:
  assumes "inv_st s"
  shows "opt_all inv_st (handle_rls_bmap1 le getrc sbd s)"
proof -
  obtain ob t where g: "mds_bmap_getbml (sbd_seq sbd) (sbd_cli sbd) (ls_t s) = (ob, t)" by fastforce
  have t: "tbl_inv t" using frame_inv [OF getbml_frame(1) [OF g] assms] .
  have f: "inv_st (ls_upd x (\<lambda>b. b\<lparr>bml_freeing := True\<rparr>) ((ls_bmap_op_start s)\<lparr>ls_t := t\<rparr>))" for x
    by (rule set_freeing_inv) (simp add: t)
  show ?thesis unfolding handle_rls_bmap1_def Let_def op_start_simps g prod.case
    by (rule op_done_inv opt_all_mono [OF release_inv [OF f]] | rule opt_wp | (auto simp: assms t; fail))+
qed

lemma handle_chwrmode_inv:
  assumes "inv_st s"
  shows "opt_all (\<lambda>(rc, rep, s'). inv_st s') (slm_rmc_handle_bmap_chwrmode le getrc sbd prefios s)"
proof -
  obtain ob t where g: "mds_bmap_getbml (sbd_seq sbd) (sbd_cli sbd) (ls_t s) = (ob, t)" by fastforce
  have t: "tbl_inv t" "lt_leases t = lt_leases (ls_t s)"
    using frame_inv [OF getbml_frame(1) [OF g] assms] getbml_frame(1) [OF g] by (simp_all add: tbl_frame_def)
  have c: "opt_all (\<lambda>(rc, s'). inv_st s') (mds_bmap_bml_chwrmode le x prefios ((ls_bmap_op_start s)\<lparr>ls_t := t\<rparr>))"
    if "ob = Some x" for x
    by (rule chwrmode_inv) (use getbml_frame(2) [OF g that] t in simp_all)
  show ?thesis unfolding slm_rmc_handle_bmap_chwrmode_def Let_def op_start_simps g prod.case
    by (rule opt_all_mono [OF c] opt_all_mono [OF release_inv] opt_all_mono [OF op_done_inv]
        | rule opt_wp | rule opt_all_any | (auto simp: assms t; fail))+
qed

lemma coh_reply_inv:
  assumes "inv_st s"
  shows "opt_all inv_st (slmcoh_releasebml le seq peer s)"
proof -
  obtain ob t where g: "mds_bmap_getbml seq peer (ls_t s) = (ob, t)" by fastforce
  have t: "tbl_inv t" using frame_inv [OF getbml_frame(1) [OF g] assms] .
  have f: "tbl_inv (bml_set_dio x t)" for x by (rule frame_inv [OF _ t]) (simp add: bml_set_dio_def frame_upd)
  show ?thesis unfolding slmcoh_releasebml_def Let_def op_start_simps g prod.case
    by (rule op_done_inv opt_all_mono [OF release_inv] | rule opt_wp | (auto simp: assms t f; fail))+
qed

lemma expire_inv:
  assumes "inv_st s"
  shows "opt_all inv_st (slmbmaptimeothr_round le now s)"
  unfolding slmbmaptimeothr_round_def
  by (rule release_inv | rule opt_wp | rule set_freeing_inv | (auto simp: assms; fail))+

lemma startup_inv:
  assumes "inv_st s" "x \<notin> lease_ids (ls_t s)"
  shows "opt_all inv_st (mds_bia_odtable_startup_cb le x elem bia frc brc s)"
proof -
  let ?s = "mds_bml_new le x True SL_WRITE False (bia_lastcli bia) (ls_bmap_op_start s)"
  let ?s1 = "ls_upd x (\<lambda>b. b\<lparr>bml_seq := bia_seq bia, bml_ios := bia_ios bia\<rparr>) ?s"
  let ?s2 = "if bia_dio bia then ?s1\<lparr>ls_t := (ls_t ?s1)\<lparr>bcm_dio := True\<rparr>\<rparr> else ?s1"
  have n: "inv_st ?s" "fresh_bml x SL_WRITE (ls_t ?s)"
    using bml_new_inv [of "ls_bmap_op_start s" x True SL_WRITE] assms by simp_all
  then have n1: "inv_st ?s1" "fresh_bml x SL_WRITE (ls_t ?s1)"
    using frame_inv [OF _ n(1), of "ls_t ?s1"] by (simp_all add: frame_upd fresh_bml_def)
  have dio: "tbl_inv (t\<lparr>bcm_dio := True\<rparr>)" if "tbl_inv t" for t
  proof -
    have "leases_ok (t\<lparr>bcm_dio := True\<rparr>)"
      by (rule leases_ok_cong [of t]) (use that in \<open>simp_all add: tbl_inv_def same_on_def\<close>)
    then show ?thesis using that by (simp add: tbl_inv_def coherent_def exports_ok_def)
  qed
  have n2: "inv_st (?s2\<lparr>bmi_assign := Some elem\<rparr>)" "fresh_bml x SL_WRITE (ls_t (?s2\<lparr>bmi_assign := Some elem\<rparr>))"
    using n1 dio [OF n1(1)] by (simp_all add: fresh_bml_def del: ls_upd_simps)
  have fl: "tbl_inv (bml_upd x (\<lambda>b. b\<lparr>bml_freeing := True, bml_recoverfail := True\<rparr>) t)" if "tbl_inv t" for t
    by (rule frame_inv [OF _ that]) (simp add: frame_upd)
  show ?thesis unfolding mds_bia_odtable_startup_cb_def Let_def
    by (rule op_done_inv opt_all_mono [OF bml_add_inv [OF n2]] opt_all_mono [OF release_inv]
        | rule opt_wp | (auto simp: assms fl; fail))+
qed

subsection \<open>Every sequence of requests\<close>

text \<open>
  What can happen to the leases of a bmap: requests of clients, replies to direct I/O requests,
  the expiry of the oldest lease, the recovery of an assignment. A new lease has an address no
  lease in the table has.
\<close>

inductive lease_step :: "'m lease_env \<Rightarrow> 'm lease_st \<Rightarrow> 'm lease_st \<Rightarrow> bool" for le where
  load: "mds_bmap_load_cli le x getrc want rw prefios sbd cli s = Some (rc, sbd', s') \<Longrightarrow>
    x \<notin> lease_ids (ls_t s) \<Longrightarrow> lease_step le s s'"
| renew: "mds_lease_renew le x getrc sbd_in sbd cli s = Some (rc, sbd', s') \<Longrightarrow>
    x \<notin> lease_ids (ls_t s) \<Longrightarrow> lease_step le s s'"
| reassign: "mds_lease_reassign le getrc sbd_in pios prev sbd cli s = Some (rc, sbd', s') \<Longrightarrow> lease_step le s s'"
| release: "handle_rls_bmap1 le getrc sbd s = Some s' \<Longrightarrow> lease_step le s s'"
| upgrade: "slm_rmc_handle_bmap_chwrmode le getrc sbd prefios s = Some (rc, rep, s') \<Longrightarrow> lease_step le s s'"
| dio_reply: "slmcoh_releasebml le seq peer s = Some s' \<Longrightarrow> lease_step le s s'"
| expire: "slmbmaptimeothr_round le now s = Some s' \<Longrightarrow> lease_step le s s'"
| recover: "mds_bia_odtable_startup_cb le x elem bia frc brc s = Some s' \<Longrightarrow>
    x \<notin> lease_ids (ls_t s) \<Longrightarrow> lease_step le s s'"

definition lease_init :: "'m lease_st \<Rightarrow> bool" where
  "lease_init s \<longleftrightarrow> lt_leases (ls_t s) = [] \<and> bmi_writers (ls_t s) = 0 \<and> bmi_readers (ls_t s) = 0 \<and>
     (\<forall>x. \<not> bml_bmi (ls_bml s x))"

lemma lease_step_inv:
  assumes "lease_step le s s'" "inv_st s"
  shows "inv_st s'"
  using assms(1)
proof cases
  case load
  then show ?thesis using opt_allD [OF load_cli_inv [OF assms(2)]] by fastforce
next
  case renew
  then show ?thesis using opt_allD [OF lease_renew_inv [OF assms(2)]] by fastforce
next
  case reassign
  then show ?thesis using opt_allD [OF lease_reassign_inv [OF assms(2)]] by fastforce
next
  case upgrade
  then show ?thesis using opt_allD [OF handle_chwrmode_inv [OF assms(2)]] by fastforce
qed (use opt_allD [OF handle_rls_inv [OF assms(2)]] opt_allD [OF coh_reply_inv [OF assms(2)]]
      opt_allD [OF expire_inv [OF assms(2)]] opt_allD [OF startup_inv [OF assms(2)]] in blast)+

lemma lease_init_inv: "lease_init s \<Longrightarrow> inv_st s"
  by (simp add: lease_init_def tbl_inv_def leases_ok_def chains_ok_def coherent_def exports_ok_def)

interpretation leases: safe_system lease_init "lease_step le" inv_st for le
  by unfold_locales (rule lease_init_inv, assumption, rule lease_step_inv)

text \<open>
  C1: cache coherence. However client requests, direct I/O replies, lease expiries and
  recoveries follow each other, and whatever fails on the way, the leases of a bmap stay
  consistent: one entry for each client, counters that count the reading and the writing
  clients. Whenever a client holds a write lease and another client holds any lease, the bmap is
  in direct I/O mode.
\<close>

theorem lease_coherence:
  assumes "lease_init s0" "rtranclp (lease_step le) s0 s"
  shows "leases_ok (ls_t s) \<and>
    (\<forall>x \<in> lease_ids (ls_t s). \<forall>y \<in> lease_ids (ls_t s).
       bml_write (ls_bml s x) \<and> lt_cli (ls_t s) x \<noteq> lt_cli (ls_t s) y \<longrightarrow> bcm_dio (ls_t s))"
proof -
  have i: "leases_ok (ls_t s)" "coherent (ls_t s)"
    using leases.reach_inv [OF assms] by (simp_all add: tbl_inv_def)
  have "bcm_dio (ls_t s)"
    if xy: "x \<in> lease_ids (ls_t s)" "y \<in> lease_ids (ls_t s)" "bml_write (ls_bml s x)"
      "lt_cli (ls_t s) x \<noteq> lt_cli (ls_t s) y" for x y
  proof (rule ccontr)
    assume "\<not> bcm_dio (ls_t s)"
    then consider "bmi_writers (ls_t s) = 0" | "length (lt_leases (ls_t s)) \<le> 1"
      using i(2) by (auto simp: coherent_def)
    then show False
    proof cases
      case 1
      obtain xs c ys where "lt_leases (ls_t s) = xs @ c # ys" "x \<in> set c" by (rule lease_split [OF i(1) xy(1)])
      then show False
        using 1 chains_pos(1) [of "ls_t s" xs c ys] i(1) xy(3) by (auto simp: leases_ok_def has_w_def list_ex_iff)
    next
      case 2
      then obtain c where c: "lt_leases (ls_t s) = [c]" using xy(1) by (cases "lt_leases (ls_t s)") auto
      then have "member_ok (ls_t s) c" using i(1) by (simp add: leases_ok_def chains_ok_def)
      moreover have "x \<in> set c" "y \<in> set c" using xy(1,2) c by auto
      ultimately show False using xy(4) unfolding member_ok_def by metis
    qed
  qed
  then show ?thesis using i(1) by blast
qed

text \<open>A sample server: both replicas valid, no lease yet.\<close>

definition le_ex :: "(nat \<Rightarrow> bmap_ondisk \<times> u64) lease_env" where
  "le_ex = \<lparr>le_be = be_sel_ex, le_ie = ie_ex, le_ce = ce_ex, pfl_odt_allocslot = (\<lambda>_. None),
     odtr_crc = (\<lambda>e _. of_nat e), le_time = 1000, le_stale = replicate 60 0\<rparr>"

definition ls_ex :: "(nat \<Rightarrow> bmap_ondisk \<times> u64) lease_st" where
  "ls_ex = \<lparr>ls_t = \<lparr>lt_bml = (\<lambda>i. (bml_ex i)\<lparr>bml_bmi := False\<rparr>), lt_leases = [], bmi_writers = 0, bmi_readers = 0,
       bcm_dio = False, bcm_diocb = False, lt_coh = []\<rparr>,
     ls_m = ms_ex [11, 12] both_valid, bcm_iosassigned = False, bcm_noion = False, bmi_wr_ion = None,
     rmmi_refcnt = (\<lambda>_. 0), bmi_assign = None, bmi_seq = 0, slm_bia_odt = (\<lambda>_. None),
     ls_btt = btt_ex, ls_jrnl = [], fcmh_in_ptrunc = False, fmi_ptrunc_clients = []\<rparr>"

definition sbd_ex :: srt_bmapdesc where
  "sbd_ex = \<lparr>sbd_fid = 7, sbd_bmapno = 0, sbd_seq = 0, sbd_key = 0, sbd_cli = (1, 1), sbd_ios = IOS_ID_ANY,
     sbd_dio = False, sbd_data = False\<rparr>"

lemma ls_ex_init: "lease_init ls_ex"
  by (simp add: lease_init_def ls_ex_def)

lemma load_read_ex:
  "\<exists>sbd s. mds_bmap_load_cli le_ex 5 0 False SL_READ 11 sbd_ex (1, 1) ls_ex = Some (0, sbd, s) \<and>
     lease_ids (ls_t s) = {5} \<and> bmi_readers (ls_t s) = 1"
  by (simp add: mds_bmap_load_cli_def ls_ex_def mds_bml_new_def ls_bmap_op_start_def mds_bmap_bml_add_def
      mds_bmap_directio_def mds_bmap_dupls_find_def bml_link_def bml_count_add_def ls_upd_def bml_upd_def Let_def
      mds_bmap_timeotbl_getnextseq_def mds_bmap_timeotbl_journal_seqno_def ls_mdsi_def mds_bmap_timeotbl_mdsi_def
      bml_reply_def mds_bmap_bml_release_def ls_bmap_op_done_def bmap_op_done_def ms_ex_def bmap_ex_def btt_ex_def
      del: upt_rec_numeral)

theorem lease_coherence_witness:
  "\<exists>s. rtranclp (lease_step le_ex) ls_ex s \<and> lease_ids (ls_t s) = {5} \<and> leases_ok (ls_t s)"
proof -
  obtain sbd s where s: "mds_bmap_load_cli le_ex 5 0 False SL_READ 11 sbd_ex (1, 1) ls_ex = Some (0, sbd, s)"
    "lease_ids (ls_t s) = {5}" using load_read_ex by blast
  have "5 \<notin> lease_ids (ls_t ls_ex)" by (simp add: ls_ex_def)
  then have "rtranclp (lease_step le_ex) ls_ex s" by (intro r_into_rtranclp lease_step.load [OF s(1)])
  with lease_coherence [OF ls_ex_init this] s(2) show ?thesis by blast
qed

end
