(* ===== verification/Lease_Release.thy ===== *)
theory Lease_Release
  imports Lease_Safe
begin

text \<open>
  What the last release of a lease does, on the branch that always succeeds and on the branches
  that stop the server: \<^const>\<open>mds_bmap_bml_release\<close> and its callers (slashd/mds.c).
\<close>

subsection \<open>Releasing for good\<close>

definition others_write :: "nat \<Rightarrow> lease_tbl \<Rightarrow> bool" where
  "others_write x t \<longleftrightarrow> (\<exists>y \<in> lease_ids t. y \<noteq> x \<and> bml_write (lt_bml t y))"

text \<open>What the time-out table entry of a lease takes with it.\<close>

definition rel_dequeue :: "nat \<Rightarrow> 'm lease_st \<Rightarrow> 'm lease_st" where
  "rel_dequeue x s = (if bml_timeoq (ls_bml s x) then snd (ls_mdsi x BTE_DEL s) else s)"

lemma dequeue_leaves:
  "ls_m (rel_dequeue x s) = ls_m s" "bcm_noion (rel_dequeue x s) = bcm_noion s"
  "bmi_wr_ion (rel_dequeue x s) = bmi_wr_ion s" "bmi_assign (rel_dequeue x s) = bmi_assign s"
  "slm_bia_odt (rel_dequeue x s) = slm_bia_odt s" "ls_jrnl (rel_dequeue x s) = ls_jrnl s"
  by (simp_all add: rel_dequeue_def ls_mdsi_def ls_upd_def Let_def split: prod.splits)

lemma dequeue_frame: "tbl_frame (ls_t s) (ls_t (rel_dequeue x s))"
proof (cases "ls_mdsi x BTE_DEL s")
  case (Pair q u)
  then show ?thesis using ls_mdsi_frame(2) [OF Pair] by (simp add: rel_dequeue_def)
qed

lemma frame_leases_ok:
  assumes f: "tbl_frame t u" and ok: "leases_ok t"
  shows "leases_ok u"
proof (rule leases_ok_cong [OF ok])
  show "same_on (lease_ids t) t u" using f unfolding tbl_frame_def same_on_def by blast
qed (use f in \<open>simp_all add: tbl_frame_def\<close>)

lemma linked_bmi:
  assumes ok: "leases_ok t" and x: "x \<in> lease_ids t"
  shows "bml_bmi (lt_bml t x)"
proof -
  obtain c where c: "c \<in> set (lt_leases t)" "x \<in> set c" using x by auto
  then have "member_ok t c" using ok unfolding leases_ok_def chains_ok_def by blast
  then show ?thesis using c(2) unfolding member_ok_def by blast
qed

lemma writer_counted:
  assumes ok: "leases_ok t" and x: "x \<in> lease_ids t" and w: "bml_write (lt_bml t x)"
  shows "bmi_writers t \<noteq> 0"
proof -
  obtain xs c ys where c: "lt_leases t = xs @ c # ys" "x \<in> set c" by (rule lease_split [OF ok x])
  have "has_w t c" using c(2) w by (auto simp: has_w_def list_ex_iff)
  moreover have "chains_ok t (xs @ c # ys) (bmi_writers t) (bmi_readers t)" using ok c(1) by (simp add: leases_ok_def)
  ultimately have "0 < bmi_writers t" using chains_pos(1) [of t xs c ys] by blast
  then show ?thesis by simp
qed

lemma unlink_gone:
  assumes ok: "leases_ok (ls_t s)" and x: "x \<in> lease_ids (ls_t s)"
    and w: "bml_write (ls_bml s x) \<longrightarrow> others_write x (ls_t s)"
  shows "\<exists>v. bml_release_unlink le x s = Some (None, s\<lparr>ls_t := v\<rparr>) \<and> leases_ok v \<and>
    lease_ids v = lease_ids (ls_t s) - {x}"
proof -
  from del_ok [OF ok x] obtain u where u: "mds_bmap_bml_del_locked x (ls_t s) = Some u" "leases_ok u"
      "lease_ids u = lease_ids (ls_t s) - {x}" "\<forall>y. \<exists>f. lt_bml u y = (ls_bml s y)\<lparr>bml_chain := f\<rparr>"
    by (elim exE conjE)
  have uw: "bml_write (lt_bml u y) = bml_write (ls_bml s y)" for y
    using u(4) [rule_format, of y] by (elim exE) simp
  let ?v = "dio_clear (bml_upd x (\<lambda>b. b\<lparr>bml_bmi := False\<rparr>) u)"
  have xu: "x \<notin> lease_ids u" by (simp only: u(3)) simp
  have ok': "leases_ok ?v"
  proof (rule leases_ok_cong [OF u(2)])
    show "same_on (lease_ids u) u ?v"
      unfolding same_on_def
    proof (intro ballI)
      fix y assume "y \<in> lease_ids u"
      then have "y \<noteq> x" using xu by blast
      then show "lt_cli ?v y = lt_cli u y \<and> bml_chain (lt_bml ?v y) = bml_chain (lt_bml u y) \<and>
          bml_bmi (lt_bml ?v y) = bml_bmi (lt_bml u y) \<and> bml_write (lt_bml ?v y) = bml_write (lt_bml u y)"
        by (simp add: dio_clear_def bml_upd_def)
    qed
  qed (simp_all add: dio_clear_def bml_upd_def)
  have nz: "bmi_writers u \<noteq> 0" if xw: "bml_write (ls_bml s x)"
  proof -
    obtain y where y: "y \<in> lease_ids (ls_t s)" "y \<noteq> x" "bml_write (ls_bml s y)"
      using w xw unfolding others_write_def by blast
    have "y \<in> lease_ids u" unfolding u(3) using y(1,2) by blast
    then show ?thesis by (rule writer_counted [OF u(2)]) (simp only: uw y(3))
  qed
  have "\<not> (bml_write (ls_bml s x) \<and> bmi_writers u = 0)" using nz by blast
  then have "bml_release_unlink le x s = Some (None, s\<lparr>ls_t := ?v\<rparr>)"
    using linked_bmi [OF ok x] uw [of x]
    by (cases "bml_write (ls_bml s x)") (simp_all add: bml_release_unlink_def u(1) Let_def dio_clear_def bml_upd_def)
  moreover have "lease_ids ?v = lease_ids (ls_t s) - {x}" using u(3) by (simp only: dio_clear_def) (simp add: bml_upd_def)
  ultimately show ?thesis using ok' by blast
qed

text \<open>
  C10: the last reference of a lease that is being freed. If the lease is linked to the bmap and
  is a read lease, or another write lease remains, then releasing it never stops the
  process: exactly this lease leaves the bmap, its reference on the bmap is dropped, and the
  assigned I/O server, its slot in the on-disk table and the journal stay as they are.
\<close>

theorem mds_bmap_bml_release_removes:
  assumes i: "leases_ok (ls_t s)" "x \<in> lease_ids (ls_t s)"
    and f: "bml_freeing (ls_bml s x)" "bml_refcnt (ls_bml s x) \<le> 1" "bcm_opcnt (mb (ls_m s)) > 0"
    and w: "bml_write (ls_bml s x) \<longrightarrow> others_write x (ls_t s)"
  shows "\<exists>s'. mds_bmap_bml_release le x s = Some s' \<and> leases_ok (ls_t s') \<and>
    lease_ids (ls_t s') = lease_ids (ls_t s) - {x} \<and>
    bcm_opcnt (mb (ls_m s')) = bcm_opcnt (mb (ls_m s)) - 1 \<and>
    bmi_wr_ion s' = bmi_wr_ion s \<and> bmi_assign s' = bmi_assign s \<and> slm_bia_odt s' = slm_bia_odt s \<and>
    ls_jrnl s' = ls_jrnl s"
proof -
  let ?s = "(rel_dequeue x s)\<lparr>bcm_iosassigned := True\<rparr>"
  note fr = dequeue_frame [of s x]
  have L: "lt_leases (ls_t ?s) = lt_leases (ls_t s)" and W: "bml_write (ls_bml ?s y) = bml_write (ls_bml s y)" for y
    using fr by (simp_all add: tbl_frame_def same_on_def)
  have ok: "leases_ok (ls_t ?s)" using frame_leases_ok [OF fr i(1)] by simp
  have "bml_write (ls_bml ?s x) \<longrightarrow> others_write x (ls_t ?s)" using w unfolding others_write_def L W .
  from unlink_gone [OF ok i(2) [folded L] this, of le] obtain v where v:
      "bml_release_unlink le x ?s = Some (None, ?s\<lparr>ls_t := v\<rparr>)" "leases_ok v" "lease_ids v = lease_ids (ls_t s) - {x}"
    unfolding L by (elim exE conjE)
  have "\<not> (bml_refcnt (ls_bml s x) > 1 \<or> \<not> bml_freeing (ls_bml s x))" using f(1,2) by simp
  then show ?thesis
    using f(3) v by (simp add: mds_bmap_bml_release_def Let_def rel_dequeue_def [symmetric] dequeue_leaves
        ls_bmap_op_done_def bmap_op_done_def psc_assert_def)
qed

text \<open>A bmap with two read leases, the first of which is being freed.\<close>

definition rel_ex :: "(nat \<Rightarrow> bmap_ondisk \<times> u64) lease_st" where
  "rel_ex = (ls_bmap_op_start (ls_bmap_op_start ls_ex))
     \<lparr>ls_t := bml_upd 1 (\<lambda>b. b\<lparr>bml_freeing := True\<rparr>) (lt_ex False)\<rparr>"

theorem mds_bmap_bml_release_removes_witness:
  "\<exists>s'. mds_bmap_bml_release le_ex 1 rel_ex = Some s' \<and> lease_ids (ls_t s') = {3}"
proof -
  have ok: "leases_ok (ls_t rel_ex)"
  proof (rule leases_ok_cong [OF lt_ex_ok(1) [of False]])
    show "same_on (lease_ids (lt_ex False)) (lt_ex False) (ls_t rel_ex)" by (simp add: same_on_def rel_ex_def)
  qed (simp_all add: rel_ex_def)
  have "lease_ids (ls_t rel_ex) = {1, 3}" by (simp add: rel_ex_def lt_ex_def)
  moreover have "bml_freeing (ls_bml rel_ex 1)" "bml_refcnt (ls_bml rel_ex 1) \<le> 1" "\<not> bml_write (ls_bml rel_ex 1)"
    by (simp_all add: rel_ex_def lt_ex_def bml_ex_def)
  moreover have "bcm_opcnt (mb (ls_m rel_ex)) > 0" by (simp add: rel_ex_def ls_bmap_op_start_def Let_def)
  ultimately show ?thesis using mds_bmap_bml_release_removes [OF ok, of 1 le_ex] by auto
qed

subsection \<open>Assignments that stop the server\<close>

definition no_leases :: "'m lease_st \<Rightarrow> bool" where
  "no_leases s \<longleftrightarrow> lt_leases (ls_t s) = [] \<and> bmi_writers (ls_t s) = 0 \<and> bmi_readers (ls_t s) = 0"

definition good_cli :: "u64 \<times> u32 \<Rightarrow> bool" where
  "good_cli cli \<longleftrightarrow> fst cli \<noteq> 0 \<and> snd cli \<noteq> 0 \<and> fst cli \<noteq> LNET_NID_ANY \<and> snd cli \<noteq> LNET_PID_ANY"

lemma directio_empty:
  assumes "no_leases s"
  shows "\<exists>u. mds_bmap_directio ce rw dio cli (ls_t s) = Some (0, u) \<and> lt_bml u = lt_bml (ls_t s) \<and> lt_leases u = [] \<and>
    bmi_writers u = 0 \<and> bmi_readers u = 0"
  using assms by (simp add: no_leases_def mds_bmap_directio_def Let_def)

text \<open>The bmap when the server is chosen for its first writer: two references more.\<close>

definition first_wr :: "'m lease_st \<Rightarrow> 'm mst" where
  "first_wr s = ls_m (ls_bmap_op_start (ls_bmap_op_start s))"

lemma first_writer:
  assumes e: "no_leases s" and c: "good_cli cli"
  shows "\<exists>u. mds_bmap_bml_add le x SL_WRITE prefios (mds_bml_new le x False SL_WRITE dio cli (ls_bmap_op_start s)) = do {
      psc_assert (bmi_wr_ion s = None);
      (rc, s1) \<leftarrow> mds_bmap_ios_assign le x prefios (s\<lparr>ls_t := u, ls_m := first_wr s, bcm_iosassigned := True\<rparr>);
      Some (rc, s1\<lparr>bcm_iosassigned := False\<rparr>)
    } \<and> lt_leases u = [[x]] \<and> bmi_writers u = 1 \<and> bmi_readers u = 0 \<and> bml_write (lt_bml u x) \<and>
    bml_bmi (lt_bml u x) \<and> \<not> bml_timeoq (lt_bml u x) \<and> bml_refcnt (lt_bml u x) = 1 \<and> \<not> bml_chain (lt_bml u x)"
proof -
  let ?s = "mds_bml_new le x False SL_WRITE dio cli (ls_bmap_op_start s)"
  have n: "no_leases (ls_bmap_op_start ?s)" "bmi_wr_ion (ls_bmap_op_start ?s) = bmi_wr_ion s"
    using e by (simp_all add: no_leases_def ls_bmap_op_start_def mds_bml_new_def ls_upd_def bml_upd_def Let_def)
  from directio_empty [OF n(1), of "le_ce le" SL_WRITE dio cli]
  obtain u where u: "mds_bmap_directio (le_ce le) SL_WRITE dio cli (ls_t (ls_bmap_op_start ?s)) = Some (0, u)"
    "lt_bml u = lt_bml (ls_t (ls_bmap_op_start ?s))" "lt_leases u = []" "bmi_writers u = 0" "bmi_readers u = 0"
    by (elim exE conjE)
  let ?u = "bml_count_add SL_WRITE 0 0 (bml_link x None u)"
  have b: "ls_bml (ls_bmap_op_start ?s) x = ls_bml ?s x" "bml_cli (ls_bml ?s x) = cli" "bml_dio (ls_bml ?s x) = dio"
    "\<not> bml_recover (ls_bml ?s x)" "bml_write (ls_bml ?s x)" "\<not> bml_timeoq (ls_bml ?s x)" "bml_refcnt (ls_bml ?s x) = 1"
    "\<not> bml_chain (ls_bml ?s x)"
    by (simp_all add: ls_bmap_op_start_def mds_bml_new_def Let_def ls_upd_def bml_upd_def)
  have st: "(ls_bmap_op_start ?s)\<lparr>bcm_iosassigned := True, ls_t := v\<rparr> =
      s\<lparr>ls_t := v, ls_m := first_wr s, bcm_iosassigned := True\<rparr>" for v
    by (simp add: ls_bmap_op_start_def mds_bml_new_def ls_upd_def Let_def first_wr_def)
  have f: "lt_leases ?u = [[x]]" "bmi_writers ?u = 1" "bmi_readers ?u = 0" "lt_bml ?u x = (ls_bml ?s x)\<lparr>bml_bmi := True\<rparr>"
    using u(2-5) b by (simp_all add: bml_link_def bml_count_add_def bml_upd_def)
  have "mds_bmap_bml_add le x SL_WRITE prefios ?s = do {
      psc_assert (bmi_wr_ion s = None);
      (rc, s1) \<leftarrow> mds_bmap_ios_assign le x prefios (s\<lparr>ls_t := ?u, ls_m := first_wr s, bcm_iosassigned := True\<rparr>);
      Some (rc, s1\<lparr>bcm_iosassigned := False\<rparr>) }"
    using c u(1,3) f b n(2) st [of ?u]
    by (cases "bmi_wr_ion s") (simp_all add: mds_bmap_bml_add_def good_cli_def mds_bmap_dupls_find_def bml_bind_ion_def Let_def)
  then show ?thesis using f b by (intro exI [of _ ?u]) simp
qed

lemma del_single:
  assumes "lt_leases t = [[x]]" "bmi_writers t = 1" "bmi_readers t = 0" "bml_write (lt_bml t x)" "\<not> bml_chain (lt_bml t x)"
    "bml_bmi (lt_bml t x)"
  shows "mds_bmap_bml_del_locked x t = Some (t\<lparr>lt_leases := [], bmi_writers := 0\<rparr>)"
  using assms by (simp add: mds_bmap_bml_del_locked_def mds_bmap_dupls_find_def bml_unlink_def bml_count_del_def Let_def)

text \<open>
  C36: when an I/O server could be chosen for the first writer of a bmap but the table of
  assignments on disk has no free slot, \<open>mds_bmap_ios_assign\<close> returns with
  \<open>BMAP_MDS_NOION\<close> set and \<open>bmi_wr_ion\<close> pointing to the server. Giving the lease back
  then fails the assertion that \<open>bmi_wr_ion\<close> is NULL: the metadata server stops, instead of
  answering \<open>-ENOMEM\<close>.
\<close>

theorem mds_bmap_load_cli_table_full:
  assumes e: "no_leases s" "good_cli cli" "\<not> fcmh_in_ptrunc s"
    and r: "slm_resm_select (le_be le) (le_ie le) prefios [] (first_wr s) = Some (Some r, m)"
    and f: "pfl_odt_allocslot le (slm_bia_odt s) = None"
  shows "mds_bmap_load_cli le x 0 dio SL_WRITE prefios sbd cli s = None"
proof (cases "bmi_wr_ion s = None \<and> bmi_assign s = None")
  case True
  let ?s = "mds_bml_new le x False SL_WRITE dio cli (ls_bmap_op_start s)"
  from first_writer [OF e(1,2), of le x prefios dio] obtain u where
      a: "mds_bmap_bml_add le x SL_WRITE prefios ?s = do {
        psc_assert (bmi_wr_ion s = None);
        (rc, s1) \<leftarrow> mds_bmap_ios_assign le x prefios (s\<lparr>ls_t := u, ls_m := first_wr s, bcm_iosassigned := True\<rparr>);
        Some (rc, s1\<lparr>bcm_iosassigned := False\<rparr>) }" and
      u: "lt_leases u = [[x]]" "bmi_writers u = 1" "bmi_readers u = 0" "bml_write (lt_bml u x)"
        "bml_bmi (lt_bml u x)" "\<not> bml_timeoq (lt_bml u x)" "bml_refcnt (lt_bml u x) = 1" "\<not> bml_chain (lt_bml u x)"
    by (elim exE conjE)
  let ?u = "bml_upd x (\<lambda>b. b\<lparr>bml_assfail := True, bml_freeing := True\<rparr>) u"
  have d: "mds_bmap_bml_del_locked x ?u = Some (?u\<lparr>lt_leases := [], bmi_writers := 0\<rparr>)"
    by (rule del_single) (use u in \<open>simp_all add: bml_upd_def\<close>)
  have o: "bcm_opcnt (mb (first_wr s)) > 0" by (simp add: first_wr_def ls_bmap_op_start_def Let_def)
  obtain s1 where s1: "mds_bmap_bml_add le x SL_WRITE prefios ?s = Some (- ENOMEM, s1)" "bcm_noion s1"
    "bmi_wr_ion s1 = Some (resm_res_id r)" "ls_t s1 = bml_upd x (\<lambda>b. b\<lparr>bml_assfail := True\<rparr>) u"
    using True r f o unfolding a by (simp add: mds_bmap_ios_assign_def Let_def ls_upd_def)
  show ?thesis
    using s1 d u e(3) by (simp add: mds_bmap_load_cli_def Let_def bml_set_failed_def mds_bmap_bml_release_def ls_upd_def
       bml_release_unlink_def bml_release_ion_def bml_upd_def dio_clear_def)
qed (use first_writer [OF e(1,2), of le x prefios dio] e(3) in
   \<open>auto simp: mds_bmap_load_cli_def Let_def mds_bmap_ios_assign_def\<close>)

lemma select_ex:
  "\<exists>m s. slm_resm_select (le_be le_ex) (le_ie le_ex) 11 [] (first_wr ls_ex) = Some (Some m, s)"
proof -
  let ?s = "first_wr ls_ex" and ?t = "ms_ex [11, 12] both_valid"
  have mf: "mf ?s = mf ?t" and rp: "bmi_repls (mb ?s) = bmi_repls (mb ?t)"
    by (simp_all add: first_wr_def ls_ex_def ls_bmap_op_start_def Let_def)
  have r: "rlist (fcmh_inoh (mf ?t)) = [11, 12]" by (simp add: ms_ex_def rlist_def)
  have v: "valid_member (be_cf be_sel_ex) ?s 0 = Some (m_ex 11)" "valid_member (be_cf be_sel_ex) ?s (Suc 0) = Some (m_ex 12)"
    using both_valid_st [unfolded One_nat_def] by (simp_all add: valid_member_def mf rp r sel_ex_facts(2) ms_ex_ready(5))
  have a: "List.map_filter (valid_member (be_cf be_sel_ex) ?s) [0..<2] = [m_ex 11, m_ex 12]"
    by (simp add: numeral_2_eq_2 List.map_filter_def v)
  have A: "inoh_ok (fcmh_inoh (mf ?s))" unfolding mf by (rule ms_ex_ready(3))
  have B: "\<forall>k < fcmh_2_nrepls (mf ?s). libsl_try_ios2resm (be_cf be_sel_ex) (rlist (fcmh_inoh (mf ?s)) ! k) \<noteq> None"
    by (simp add: sel_ex_facts(2))
  from resm_select_unfold [OF sel_ex_facts(1) A B, of 11]
  obtain m zs where m: "slm_resm_select be_sel_ex ie_ex 11 [] ?s = Some (m, ?s)"
    "m = (if (\<exists>k < 2. repl_st (bmi_repls (mb ?s)) k \<noteq> BREPLST_INVALID) \<and>
            (\<forall>k < 2. valid_member (be_cf be_sel_ex) ?s k = None) then None
         else find (slm_try_sliodresm ie_ex) ([m_ex 11, m_ex 12] @ zs))"
    unfolding mf ms_ex_ready(4) a by (elim exE conjE)
  have "\<not> (\<forall>k < 2. valid_member (be_cf be_sel_ex) ?s k = None)" using v(1) by (intro notI) simp
  then have "m = Some (m_ex 12)" unfolding m(2) by (simp add: sel_ex_facts(3))
  then show ?thesis using m(1) by (intro exI) (simp add: le_ex_def)
qed

theorem mds_bmap_load_cli_table_full_witness:
  "mds_bmap_load_cli le_ex 5 0 False SL_WRITE 11 sbd_ex (1, 1) ls_ex = None"
proof -
  obtain r m where "slm_resm_select (le_be le_ex) (le_ie le_ex) 11 [] (first_wr ls_ex) = Some (Some r, m)"
    using select_ex by (elim exE)
  then show ?thesis
    by (rule mds_bmap_load_cli_table_full [rotated 3]) (simp_all add: no_leases_def ls_ex_def good_cli_def le_ex_def)
qed

text \<open>
  C37: a lease keeps \<open>BML_ASSFAIL\<close> once an upgrade of it failed, also when a later upgrade
  succeeds. Released as the last writer, such a lease gives back neither \<open>bmi_wr_ion\<close> nor
  the slot of the assignment, although no lease is left. The next client that asks for a write
  lease of this bmap stops the metadata server.
\<close>

theorem mds_bmap_bml_release_assfail_leaks:
  assumes t: "lt_leases (ls_t s) = [[x]]" "bmi_writers (ls_t s) = 1" "bmi_readers (ls_t s) = 0"
    and b: "bml_write (ls_bml s x)" "\<not> bml_chain (ls_bml s x)" "bml_bmi (ls_bml s x)" "bml_freeing (ls_bml s x)"
      "bml_assfail (ls_bml s x)" "bml_refcnt (ls_bml s x) \<le> 1"
    and i: "bmi_wr_ion s = Some ion" "\<not> bcm_noion s" "bcm_opcnt (mb (ls_m s)) > 0" "\<not> fcmh_in_ptrunc s"
    and c: "good_cli cli"
  shows "\<exists>s'. mds_bmap_bml_release le x s = Some s' \<and> no_leases s' \<and> bmi_wr_ion s' = Some ion \<and>
    bmi_assign s' = bmi_assign s \<and> slm_bia_odt s' = slm_bia_odt s \<and>
    mds_bmap_load_cli le y 0 dio SL_WRITE prefios sbd cli s' = None"
proof -
  let ?s = "(rel_dequeue x s)\<lparr>bcm_iosassigned := True\<rparr>"
  have fr: "lt_leases (ls_t ?s) = [[x]]" "bmi_writers (ls_t ?s) = 1" "bmi_readers (ls_t ?s) = 0"
      "bml_write (ls_bml ?s x)" "\<not> bml_chain (ls_bml ?s x)" "bml_bmi (ls_bml ?s x)"
    using dequeue_frame [of s x] t b by (simp_all add: tbl_frame_def same_on_def)
  have a: "bml_assfail (ls_bml ?s x)"
    using ls_mdsi_frame(1) [of x BTE_DEL s] b(5) by (cases "ls_mdsi x BTE_DEL s") (auto simp: rel_dequeue_def ls_upd_def bml_upd_def)
  have l: "ls_m ?s = ls_m s" "bcm_noion ?s = bcm_noion s" "bmi_wr_ion ?s = bmi_wr_ion s" "bmi_assign ?s = bmi_assign s"
      "slm_bia_odt ?s = slm_bia_odt s" "fcmh_in_ptrunc ?s = fcmh_in_ptrunc s"
    by (simp_all add: dequeue_leaves) (simp add: rel_dequeue_def ls_mdsi_def ls_upd_def Let_def split: prod.splits)
  define v where "v = dio_clear (bml_upd x (\<lambda>b. b\<lparr>bml_bmi := False\<rparr>) ((ls_t ?s)\<lparr>lt_leases := [], bmi_writers := 0\<rparr>))"
  have v: "lt_leases v = []" "bmi_writers v = 0" "bmi_readers v = 0" "bml_write (lt_bml v x)" "bml_assfail (lt_bml v x)"
    using fr(3,4) a by (simp_all add: v_def dio_clear_def bml_upd_def)
  have r: "bml_release_unlink le x ?s = Some (None, ?s\<lparr>ls_t := v\<rparr>)"
    unfolding bml_release_unlink_def del_single [OF fr] Let_def bind.bind_lunit v_def [symmetric]
    using fr(6) v l(2) i(2) by (simp add: bml_release_ion_def)
  have "\<not> (bml_refcnt (ls_bml s x) > 1 \<or> \<not> bml_freeing (ls_bml s x))" using b(4,6) by simp
  then obtain s' where s': "mds_bmap_bml_release le x s = Some s'" "ls_t s' = v" "bmi_wr_ion s' = Some ion"
    "bmi_assign s' = bmi_assign s" "slm_bia_odt s' = slm_bia_odt s" "\<not> fcmh_in_ptrunc s'"
    using r i l by (simp add: mds_bmap_bml_release_def Let_def rel_dequeue_def [symmetric] ls_bmap_op_done_def bmap_op_done_def)
  have n: "no_leases s'" using v(1-3) s'(2) by (simp add: no_leases_def)
  have "mds_bmap_load_cli le y 0 dio SL_WRITE prefios sbd cli s' = None"
    using first_writer [OF n c, of le y prefios dio] s'(3,6) by (auto simp: mds_bmap_load_cli_def Let_def)
  then show ?thesis using s' n by blast
qed

definition leak_ex :: "(nat \<Rightarrow> bmap_ondisk \<times> u64) lease_st" where
  "leak_ex = (ls_bmap_op_start ls_ex)\<lparr>bmi_wr_ion := Some 11, ls_t := (ls_t ls_ex)
     \<lparr>lt_bml := (\<lambda>i. (bml_ex i)\<lparr>bml_bmi := True, bml_freeing := True, bml_assfail := True\<rparr>), lt_leases := [[4]],
      bmi_writers := 1\<rparr>\<rparr>"

theorem mds_bmap_bml_release_assfail_leaks_witness:
  "\<exists>s'. mds_bmap_bml_release le_ex 4 leak_ex = Some s' \<and>
    mds_bmap_load_cli le_ex 5 0 False SL_WRITE 11 sbd_ex (1, 1) s' = None"
  using mds_bmap_bml_release_assfail_leaks [of leak_ex 4 11 "(1, 1)" le_ex 5 False 11 sbd_ex]
  by (simp add: leak_ex_def ls_bmap_op_start_def ls_ex_def bml_ex_def good_cli_def Let_def) blast

end
