(* ===== verification/Adler.thy ===== *)
theory Adler
  imports Prelude
begin

text \<open>
  The Adler-32 checksum of \<open>share/adler32.c\<close>: the unrolled routine, which reduces its two
  32-bit sums once in 5552 bytes, against the definition that reduces after every byte. The
  buffer has type \<open>char\<close>, whose signedness the platform decides; it is a parameter.
\<close>

subsection \<open>The routine\<close>

abbreviation (input) BASE :: nat where "BASE \<equiv> 65521"
abbreviation (input) NMAX :: nat where "NMAX \<equiv> 5552"

type_synonym sums = "u32 \<times> u32"

definition char_val :: "bool \<Rightarrow> u8 \<Rightarrow> u32" where
  "char_val schar c = (if schar then scast c else ucast c)"

definition DO1 :: "u32 list \<Rightarrow> nat \<Rightarrow> sums \<Rightarrow> sums" where
  "DO1 buf i = (\<lambda>(s1, s2). let s1 = s1 + buf ! i in (s1, s2 + s1))"

definition DO2 :: "u32 list \<Rightarrow> nat \<Rightarrow> sums \<Rightarrow> sums" where
  "DO2 buf i s = DO1 buf (i + 1) (DO1 buf i s)"

definition DO4 :: "u32 list \<Rightarrow> nat \<Rightarrow> sums \<Rightarrow> sums" where
  "DO4 buf i s = DO2 buf (i + 2) (DO2 buf i s)"

definition DO8 :: "u32 list \<Rightarrow> nat \<Rightarrow> sums \<Rightarrow> sums" where
  "DO8 buf i s = DO4 buf (i + 4) (DO4 buf i s)"

definition DO16 :: "u32 list \<Rightarrow> sums \<Rightarrow> sums" where
  "DO16 buf s = DO8 buf 8 (DO8 buf 0 s)"

fun adler_rest :: "u32 list \<Rightarrow> sums \<Rightarrow> sums" where
  "adler_rest [] s = s"
| "adler_rest (c # cs) (s1, s2) = (let s1 = s1 + c in adler_rest cs (s1, s2 + s1))"

function adler_chunk :: "u32 list \<Rightarrow> sums \<Rightarrow> sums" where
  "adler_chunk buf s =
     (if length buf \<ge> 16 then adler_chunk (drop 16 buf) (DO16 buf s) else adler_rest buf s)"
  by pat_completeness auto
termination
  by (relation "measure (\<lambda>(buf, s). length buf)") auto

declare adler_chunk.simps [simp del]

definition MOD :: "u32 \<Rightarrow> u32" where
  "MOD a = a mod 65521"

text \<open>The variant of \<open>MOD\<close> for \<open>NO_DIVIDE\<close>: conditional subtractions of shifted bases.\<close>

definition mod_sub :: "nat \<Rightarrow> u32 \<Rightarrow> u32" where
  "mod_sub i a = (if a \<ge> push_bit i 65521 then a - push_bit i 65521 else a)"

definition MOD_nodivide :: "u32 \<Rightarrow> u32" where
  "MOD_nodivide a = fold mod_sub [16, 15, 14, 13, 12, 11, 10, 9, 8, 7, 6, 5, 4, 3, 2, 1, 0] a"

function adler_loop :: "u32 list \<Rightarrow> sums \<Rightarrow> sums" where
  "adler_loop buf s =
     (if buf = [] then s
      else let k = (if length buf < NMAX then length buf else NMAX);
               (s1, s2) = adler_chunk (take k buf) s
           in adler_loop (drop k buf) (MOD s1, MOD s2))"
  by pat_completeness auto
termination
  by (relation "measure (\<lambda>(buf, s). length buf)") auto

declare adler_loop.simps [simp del]

definition adler32 :: "bool \<Rightarrow> u32 \<Rightarrow> u8 list option \<Rightarrow> u32 option" where
  "adler32 schar adler buf = do {
     b \<leftarrow> buf;
     let (s1, s2) = adler_loop (map (char_val schar) b) (adler AND 0xffff, drop_bit 16 adler AND 0xffff);
     Some (push_bit 16 s2 OR s1)
   }"

subsection \<open>The definition of the checksum\<close>

definition ref_step :: "nat \<Rightarrow> nat \<times> nat \<Rightarrow> nat \<times> nat" where
  "ref_step c = (\<lambda>(a, b). ((a + c) mod BASE, (b + a + c) mod BASE))"

definition adler32_ref :: "nat \<Rightarrow> nat list \<Rightarrow> nat" where
  "adler32_ref adler cs =
     (let (a, b) = fold ref_step cs (adler mod 65536, adler div 65536) in b * 65536 + a)"

subsection \<open>Unrolling\<close>

lemma rest_append: "adler_rest (xs @ ys) s = adler_rest ys (adler_rest xs s)"
  by (induction xs s rule: adler_rest.induct) (auto simp: Let_def)

lemma DO1_rest: "i < length buf \<Longrightarrow> DO1 buf i s = adler_rest [buf ! i] s"
  by (cases s) (simp add: DO1_def Let_def)

lemma rest_twice:
  assumes "adler_rest (take n (drop i buf)) s = t" "adler_rest (take n (drop (i + n) buf)) t = u"
  shows "adler_rest (take (n + n) (drop i buf)) s = u"
proof -
  have "take (n + n) (drop i buf) = take n (drop i buf) @ take n (drop (i + n) buf)"
    by (simp add: take_add add.commute)
  then show ?thesis using assms by (simp add: rest_append)
qed

lemma DO2_rest: "i + 2 \<le> length buf \<Longrightarrow> DO2 buf i s = adler_rest (take 2 (drop i buf)) s"
  by (simp add: DO2_def DO1_rest rest_append [symmetric] numeral_2_eq_2 Cons_nth_drop_Suc [symmetric])

lemma DO4_rest: "i + 4 \<le> length buf \<Longrightarrow> DO4 buf i s = adler_rest (take 4 (drop i buf)) s"
  using rest_twice [of 2 i buf s] by (simp add: DO4_def DO2_rest)

lemma DO8_rest: "i + 8 \<le> length buf \<Longrightarrow> DO8 buf i s = adler_rest (take 8 (drop i buf)) s"
  using rest_twice [of 4 i buf s] by (simp add: DO8_def DO4_rest)

lemma DO16_rest: "16 \<le> length buf \<Longrightarrow> DO16 buf s = adler_rest (take 16 buf) s"
  using rest_twice [of 8 0 buf s] by (simp add: DO16_def DO8_rest)

lemma chunk_rest: "adler_chunk buf s = adler_rest buf s"
proof (induction buf s rule: adler_chunk.induct)
  case (1 buf s)
  show ?case
  proof (cases "length buf \<ge> 16")
    case True
    then have "adler_chunk buf s = adler_rest (take 16 buf @ drop 16 buf) s"
      using 1 by (subst adler_chunk.simps) (simp only: rest_append DO16_rest if_True)
    then show ?thesis by simp
  qed (subst adler_chunk.simps, simp)
qed

subsection \<open>No overflow between two reductions\<close>

fun nat_rest :: "nat list \<Rightarrow> nat \<times> nat \<Rightarrow> nat \<times> nat" where
  "nat_rest [] s = s"
| "nat_rest (c # cs) (a, b) = nat_rest cs (a + c, b + (a + c))"

lemma nat_rest_bound:
  assumes "\<forall>c \<in> set cs. c \<le> 255"
  shows "fst (nat_rest cs (a, b)) \<le> a + 255 * length cs \<and>
    2 * snd (nat_rest cs (a, b)) \<le> 2 * b + 2 * a * length cs + 255 * length cs * (length cs + 1)"
  using assms
proof (induction cs arbitrary: a b)
  case (Cons c cs)
  let ?n = "length cs"
  have c: "c \<le> 255" and IH: "fst (nat_rest cs (a + c, b + (a + c))) \<le> a + c + 255 * ?n"
    "2 * snd (nat_rest cs (a + c, b + (a + c))) \<le> 2 * (b + (a + c)) + 2 * (a + c) * ?n + 255 * ?n * (?n + 1)"
    using Cons.IH [of "a + c" "b + (a + c)"] Cons.prems by auto
  have "2 * (b + (a + c)) + 2 * (a + c) * ?n + 255 * ?n * (?n + 1) =
      2 * b + 2 * a * Suc ?n + 2 * c * Suc ?n + 255 * ?n * (?n + 1)" by (simp add: algebra_simps)
  also have "\<dots> \<le> 2 * b + 2 * a * Suc ?n + 2 * 255 * Suc ?n + 255 * ?n * (?n + 1)"
    using c by (intro add_mono mult_le_mono) simp_all
  also have "\<dots> = 2 * b + 2 * a * length (c # cs) + 255 * length (c # cs) * (length (c # cs) + 1)"
    by (simp add: algebra_simps)
  finally show ?case using c IH by simp
qed simp

lemma nat_rest_fits:
  assumes "\<forall>c \<in> set cs. c \<le> 255" "length cs \<le> NMAX" "a \<le> 65535" "b \<le> 65535"
  shows "fst (nat_rest cs (a, b)) < 2 ^ 32" "snd (nat_rest cs (a, b)) < 2 ^ 32"
proof -
  note B = nat_rest_bound [OF assms(1), of a b]
  have "a + 255 * length cs \<le> 65535 + 255 * 5552" using assms(2,3) by simp
  then show "fst (nat_rest cs (a, b)) < 2 ^ 32" using B by simp
  have "2 * b + 2 * a * length cs + 255 * length cs * (length cs + 1) \<le>
      2 * 65535 + 2 * 65535 * 5552 + 255 * 5552 * (5552 + 1)"
    using assms(2-4) by (intro add_mono mult_le_mono) simp_all
  then show "snd (nat_rest cs (a, b)) < 2 ^ 32" using B by simp
qed

lemma nat_rest_mono: "fst s \<le> fst (nat_rest cs s) \<and> snd s \<le> snd (nat_rest cs s)"
proof (induction cs s rule: nat_rest.induct)
  case (2 c cs a b)
  then show ?case by simp
qed simp

lemma rest_unat:
  assumes "fst (nat_rest (map unat cs) (unat s1, unat s2)) < 2 ^ 32"
    "snd (nat_rest (map unat cs) (unat s1, unat s2)) < 2 ^ 32"
  shows "map_prod unat unat (adler_rest cs (s1, s2)) = nat_rest (map unat cs) (unat s1, unat s2)"
  using assms
proof (induction cs arbitrary: s1 s2)
  case (Cons c cs)
  let ?n = "nat_rest (map unat cs) (unat s1 + unat c, unat s2 + (unat s1 + unat c))"
  have m: "unat s1 + unat c < 2 ^ 32" "unat s2 + (unat s1 + unat c) < 2 ^ 32"
    using nat_rest_mono [of "(unat s1 + unat c, unat s2 + (unat s1 + unat c))" "map unat cs"] Cons.prems by auto
  then have u: "unat (s1 + c) = unat s1 + unat c" by (simp add: unat_word_ariths)
  then have "unat (s2 + (s1 + c)) = unat s2 + (unat s1 + unat c)" using m(2) by (simp add: unat_word_ariths)
  then show ?case using Cons u by (simp add: Let_def)
qed simp

subsection \<open>Equivalence\<close>

lemma mod_three: "(b mod m + a mod m + c) mod m = (b + a + c) mod (m::nat)"
  by (metis mod_add_eq mod_add_left_eq)

lemma ref_step_mod: "ref_step c (a mod BASE, b mod BASE) = ((a + c) mod BASE, (b + (a + c)) mod BASE)"
  unfolding ref_step_def prod.case mod_three mod_add_left_eq by (simp only: add.assoc)

lemma mod_rest:
  "map_prod (\<lambda>x. x mod BASE) (\<lambda>x. x mod BASE) (nat_rest cs (a, b)) =
   fold ref_step cs (a mod BASE, b mod BASE)"
proof (induction cs arbitrary: a b)
  case (Cons c cs)
  show ?case unfolding nat_rest.simps Cons.IH fold_simps ref_step_mod ..
qed simp

lemma ref_start:
  assumes "cs \<noteq> []"
  shows "fold ref_step cs (a mod BASE, b mod BASE) = fold ref_step cs (a, b)"
proof (cases cs)
  case (Cons c ds)
  have "ref_step c (a mod BASE, b mod BASE) = ref_step c (a, b)"
    unfolding ref_step_mod by (simp only: ref_step_def prod.case add.assoc)
  then show ?thesis unfolding Cons fold_simps by simp
qed (use assms in simp)

lemma unat_MOD: "unat (MOD a) = unat a mod BASE"
  by (simp add: MOD_def unat_mod)

lemma loop_ref:
  assumes "\<forall>c \<in> set buf. unat c \<le> 255" "unat s1 \<le> 65535" "unat s2 \<le> 65535"
  shows "map_prod unat unat (adler_loop buf (s1, s2)) = fold ref_step (map unat buf) (unat s1, unat s2)"
  using assms
proof (induction buf "(s1, s2)" arbitrary: s1 s2 rule: adler_loop.induct)
  case (1 buf s1 s2)
  show ?case
  proof (cases "buf = []")
    case False
    define k where "k = (if length buf < NMAX then length buf else NMAX)"
    obtain t1 t2 where t: "adler_rest (take k buf) (s1, s2) = (t1, t2)" by (cases "adler_rest (take k buf) (s1, s2)")
    let ?cs = "map unat (take k buf)"
    have small: "\<forall>c \<in> set ?cs. c \<le> 255" using "1.prems"(1) by (auto dest: in_set_takeD)
    have k: "length ?cs \<le> NMAX" "?cs \<noteq> []" using False by (auto simp: k_def)
    have "(unat t1, unat t2) = nat_rest ?cs (unat s1, unat s2)"
      using rest_unat [OF nat_rest_fits [OF small k(1) "1.prems"(2,3)]] by (simp add: t)
    then have r: "(unat (MOD t1), unat (MOD t2)) = fold ref_step ?cs (unat s1, unat s2)"
      using mod_rest [of ?cs "unat s1" "unat s2"] unfolding ref_start [OF k(2)]
      by (simp only: \<open>(unat t1, unat t2) = _\<close> [symmetric] map_prod_simp unat_MOD)
    have "map_prod unat unat (adler_loop (drop k buf) (MOD t1, MOD t2)) =
        fold ref_step (map unat (drop k buf)) (unat (MOD t1), unat (MOD t2))"
    proof (rule "1.hyps" [OF False k_def _ refl])
      show "(t1, t2) = adler_chunk (take k buf) (s1, s2)" by (simp add: chunk_rest t)
    qed (use "1.prems"(1) in \<open>auto dest: in_set_dropD simp: unat_MOD\<close>)
    moreover have "adler_loop buf (s1, s2) = adler_loop (drop k buf) (MOD t1, MOD t2)"
      using False by (subst adler_loop.simps) (simp add: k_def [symmetric] chunk_rest t)
    ultimately show ?thesis
      unfolding r by (metis append_take_drop_id comp_apply fold_append map_append)
  qed (simp add: adler_loop.simps)
qed

lemma unat_char:
  assumes "schar \<longrightarrow> unat c < 128"
  shows "unat (char_val schar c) = unat c"
proof (cases schar)
  case True
  have u: "uint c = int (unat c)" by simp
  have "unat c < 128" using assms True by blast
  moreover have "(2::int) ^ 7 = int 128" by simp
  ultimately have "uint c < 2 ^ 7" by (simp only: u of_nat_less_iff)
  then have "sint c = int (unat c)" unfolding sint_uint u [symmetric] 
    by (intro signed_take_bit_int_eq_self) (simp_all add: order_trans [OF _ uint_nonnegative])
  then have v: "char_val schar c = word_of_nat (unat c)" using True by (simp only: char_val_def scast_eq if_True) simp
  have "unat c < 2 ^ 32" using assms True by simp
  then show ?thesis unfolding v unsigned_of_nat by (simp add: take_bit_nat_eq_self)
next
  case False
  have "unat c < 2 ^ 32" using unsigned_less [of c, where 'a = nat] by simp
  then show ?thesis using False by (simp add: char_val_def unsigned_ucast_eq take_bit_nat_eq_self)
qed

subsection \<open>Reduction without division\<close>

lemma unat_push_base:
  assumes "i \<le> 16"
  shows "unat (push_bit i 65521 :: u32) = 65521 * 2 ^ i"
proof -
  have "(2::nat) ^ i \<le> 2 ^ 16" using assms by (intro power_increasing) simp_all
  then have "65521 * 2 ^ i < (2::nat) ^ 32" by simp
  moreover have "(push_bit i 65521 :: u32) = word_of_nat (65521 * 2 ^ i)" by (simp add: push_bit_eq_mult)
  ultimately show ?thesis by (simp only: unat_of_nat) simp
qed

lemma mod_sub_spec:
  assumes "unat a < 2 * (65521 * 2 ^ i)" "i \<le> 16"
  shows "unat (mod_sub i a) < 65521 * 2 ^ i \<and> unat (mod_sub i a) mod BASE = unat a mod BASE"
proof (cases "push_bit i 65521 \<le> a")
  case True
  then have e: "unat (mod_sub i a) = unat a - 65521 * 2 ^ i" and le: "65521 * 2 ^ i \<le> unat a"
    by (simp_all add: mod_sub_def unat_sub unat_push_base [OF assms(2)] word_le_nat_alt)
  have "(unat a - 65521 * 2 ^ i) mod 65521 = (unat a - 65521 * 2 ^ i + 65521 * 2 ^ i) mod 65521"
    by (rule mod_mult_self2 [symmetric])
  also have "unat a - 65521 * 2 ^ i + 65521 * 2 ^ i = unat a" using le by simp
  finally show ?thesis using assms(1) le unfolding e by simp
next
  case False
  then show ?thesis using assms unat_push_base [OF assms(2)] by (simp add: mod_sub_def word_le_nat_alt)
qed

lemma mod_subs:
  assumes "unat a < 2 * (65521 * 2 ^ n)" "n \<le> 16"
  shows "unat (fold mod_sub (rev [0..<Suc n]) a) = unat a mod BASE"
  using assms
proof (induction n arbitrary: a)
  case 0
  then show ?case using mod_sub_spec [of a 0] by (auto simp: mod_less)
next
  case (Suc n)
  have "unat (mod_sub (Suc n) a) < 2 * (65521 * 2 ^ n)" "unat (mod_sub (Suc n) a) mod BASE = unat a mod BASE"
    using mod_sub_spec [OF Suc.prems] by simp_all
  then show ?case using Suc.IH [of "mod_sub (Suc n) a"] Suc.prems(2) by simp
qed

lemma MOD_nodivide_eq: "MOD_nodivide a = MOD a"
proof -
  have l: "rev [0..<Suc 16] = [16, 15, 14, 13, 12, 11, 10, 9, 8, 7, 6, 5, 4, 3, 2, 1, 0]"
    by code_simp
  have "unat a < 2 ^ 32" using unsigned_less [of a, where 'a = nat] by simp
  then have "unat a < 2 * (65521 * 2 ^ 16)" by simp
  from mod_subs [OF this order_refl] have "unat (MOD_nodivide a) = unat (MOD a)"
    unfolding l MOD_nodivide_def unat_MOD .
  then show ?thesis by (simp add: word_unat_eq_iff)
qed

lemma fold_ref_le: "fst s \<le> 65535 \<Longrightarrow> snd s \<le> 65535 \<Longrightarrow>
  fst (fold ref_step cs s) \<le> 65535 \<and> snd (fold ref_step cs s) \<le> 65535"
proof (induction cs arbitrary: s)
  case (Cons c cs)
  have m: "x mod 65521 \<le> 65535" for x :: nat using mod_less_divisor [of 65521 x] by linarith
  show ?case unfolding fold_simps by (rule Cons.IH) (simp_all only: ref_step_def split_def fst_conv snd_conv m)
qed simp

lemma unat_concat:
  assumes "unat s1 \<le> 65535" "unat s2 \<le> 65535"
  shows "unat (push_bit 16 s2 OR s1 :: u32) = unat s2 * 65536 + unat s1"
proof -
  have "s1 = take_bit 16 s1"
    unfolding word_unat_eq_iff by (use assms(1) in \<open>simp add: unsigned_take_bit_eq take_bit_nat_eq_self\<close>)
  then have "\<not> bit s1 n" if "16 \<le> n" for n using that bit_take_bit_iff [of 16 s1 n] by (metis leD)
  then have "push_bit 16 s2 OR s1 = push_bit 16 s2 + s1"
    by (intro disjunctive_add [symmetric]) (auto simp: bit_push_bit_iff)
  moreover have "unat (s2 * 65536) = unat s2 * 65536" using assms(2) by (simp add: unat_word_ariths)
  ultimately show ?thesis using assms by (simp add: push_bit_eq_mult unat_word_ariths)
qed



end
