(* ===== verification/Batch.thy ===== *)
theory Batch
  imports Opt_Wp Transition "HOL-Library.Multiset"
begin

text \<open>
  Batched requests of the metadata server to the I/O servers (\<open>slashd/rpc_mds.c\<close>). Entries
  are collected in a batch for a resource, sent after a delay, acknowledged by the reply of the
  request and completed by a separate request of the I/O server; a reference count decides when
  the callback with the entries runs.

  Batches are known by their identifier, which stands for the address as well: the counter of
  64 bits does not wrap around. \<open>bs_br\<close> holds the live batches, the lists of the resources
  and the two lists of the batch manager hold identifiers, \<open>bs_nbset\<close> the requests on the
  wire, \<open>bs_wk\<close> the work items for the worker threads and \<open>bs_cb\<close> the callbacks that
  were run. The sorted insertion and the removal of list elements are PFL functions: parameters
  of the model. A batch that was freed is not found, which stands for the use of freed memory.
\<close>

subsection \<open>Data\<close>

record 'e batchrq =
  br_res :: u32
  br_rq :: "nat option"
  br_rqinfl :: bool
  br_waitreply :: bool
  br_refcnt :: int
  br_rc :: int
  br_buf :: "'e list"
  br_len :: nat
  br_reply :: "nat option"
  br_expire :: nat

datatype batch_wk = WkFinish nat int | WkWaitReply nat

record 'e batchst =
  bs_bid :: nat
  bs_br :: "nat \<Rightarrow> 'e batchrq option"
  rpmi_batchrqs :: "u32 \<Rightarrow> nat list"
  batchrqs_delayed :: "nat list"
  batchrqs_waitreply :: "nat list"
  bs_nbset :: "nat list"
  bs_wk :: "batch_wk list"
  bs_cb :: "(nat \<times> 'e list \<times> nat option \<times> int) list"

record batch_env =
  lc_add_sorted :: "(nat \<Rightarrow> nat \<Rightarrow> int) \<Rightarrow> nat \<Rightarrow> nat list \<Rightarrow> nat list"
  lc_remove :: "nat \<Rightarrow> nat list \<Rightarrow> nat list"
  LNET_MTU :: nat

abbreviation (input) SRMT_REPL_SCHEDWK :: nat where "SRMT_REPL_SCHEDWK \<equiv> 23"
abbreviation (input) SRMT_PRECLAIM :: nat where "SRMT_PRECLAIM \<equiv> 48"
abbreviation (input) SRMT_BATCH_RQ :: nat where "SRMT_BATCH_RQ \<equiv> 49"
abbreviation (input) ECONNRESET :: int where "ECONNRESET \<equiv> 104"
abbreviation (input) BATCH_EINVAL :: int where "BATCH_EINVAL \<equiv> 22"

definition br_upd :: "nat \<Rightarrow> 'e batchrq \<Rightarrow> 'e batchst \<Rightarrow> 'e batchst" where
  "br_upd x b s = s\<lparr>bs_br := (bs_br s)(x \<mapsto> b)\<rparr>"

subsection \<open>References\<close>

definition batchrq_cmp :: "('e batchrq option \<times> 'e batchrq option) \<Rightarrow> int" where
  "batchrq_cmp p = (case p of (Some a, Some b) \<Rightarrow> if br_expire a < br_expire b then 1 else 0 | _ \<Rightarrow> 0)"

definition batchrq_decref :: "batch_env \<Rightarrow> nat \<Rightarrow> int \<Rightarrow> 'e batchst \<Rightarrow> 'e batchst option" where
  "batchrq_decref env x rc s = do {
     b \<leftarrow> bs_br s x;
     let b = (if br_rc b = 0 then b\<lparr>br_rc := rc\<rparr> else b);
     psc_assert (br_refcnt b > 0);
     let b = b\<lparr>br_refcnt := br_refcnt b - 1\<rparr>;
     Some (if br_refcnt b = 0
       then (if br_waitreply b \<or> br_rqinfl b
             then s\<lparr>batchrqs_waitreply := lc_remove env x (batchrqs_waitreply s)\<rparr>
             else s\<lparr>batchrqs_delayed := lc_remove env x (batchrqs_delayed s)\<rparr>)
            \<lparr>bs_br := (bs_br s)(x := None),
             rpmi_batchrqs := (rpmi_batchrqs s)(br_res b := lc_remove env x (rpmi_batchrqs s (br_res b))),
             bs_cb := bs_cb s @ [(x, br_buf b, br_reply b, br_rc b)]\<rparr>
       else br_upd x b s)
   }"

definition batchrq_finish_wkcb :: "batch_env \<Rightarrow> nat \<Rightarrow> int \<Rightarrow> 'e batchst \<Rightarrow> 'e batchst option" where
  "batchrq_finish_wkcb env x rc s = batchrq_decref env x rc s"

definition batchrq_waitreply_wkcb :: "batch_env \<Rightarrow> nat \<Rightarrow> 'e batchst \<Rightarrow> 'e batchst option" where
  "batchrq_waitreply_wkcb env x s = do {
     b \<leftarrow> bs_br s x;
     batchrq_decref env x 0 (br_upd x (b\<lparr>br_rqinfl := False, br_waitreply := True\<rparr>) s)
   }"

definition batchrq_sched_finish :: "nat \<Rightarrow> int \<Rightarrow> 'e batchst \<Rightarrow> 'e batchst" where
  "batchrq_sched_finish x rc s = s\<lparr>bs_wk := bs_wk s @ [WkFinish x rc]\<rparr>"

definition batchrq_sched_waitreply :: "nat \<Rightarrow> 'e batchst \<Rightarrow> 'e batchst" where
  "batchrq_sched_waitreply x s = s\<lparr>bs_wk := bs_wk s @ [WkWaitReply x]\<rparr>"

text \<open>A worker thread takes the first work item.\<close>

definition batch_work :: "batch_env \<Rightarrow> 'e batchst \<Rightarrow> 'e batchst option" where
  "batch_work env s = (case bs_wk s of [] \<Rightarrow> Some s
     | w # ws \<Rightarrow> (case w of WkFinish x rc \<Rightarrow> batchrq_finish_wkcb env x rc (s\<lparr>bs_wk := ws\<rparr>)
                  | WkWaitReply x \<Rightarrow> batchrq_waitreply_wkcb env x (s\<lparr>bs_wk := ws\<rparr>)))"

subsection \<open>Sending\<close>

text \<open>The reply to the request that carried the batch.\<close>

definition sl_batchrqsend_cb :: "nat \<Rightarrow> int \<Rightarrow> 'e batchst \<Rightarrow> 'e batchst" where
  "sl_batchrqsend_cb x rc s =
     (let s = s\<lparr>bs_nbset := remove1 x (bs_nbset s)\<rparr>
      in if rc \<noteq> 0 then batchrq_sched_finish x rc s else batchrq_sched_waitreply x s)"

text \<open>
  \<open>rc\<close> is the code of \<open>slrpc_bulkclient\<close> or, when that is 0, of handing the request to the
  set of pending requests.
\<close>

definition batchrq_send :: "batch_env \<Rightarrow> int \<Rightarrow> nat \<Rightarrow> 'e batchst \<Rightarrow> 'e batchst option" where
  "batchrq_send env rc x s = do {
     b \<leftarrow> bs_br s x;
     let rq = br_rq b;
     let b = b\<lparr>br_refcnt := br_refcnt b + 1, br_rqinfl := True, br_rq := None\<rparr>;
     let s = (br_upd x b s)\<lparr>batchrqs_delayed := lc_remove env x (batchrqs_delayed s),
               batchrqs_waitreply := batchrqs_waitreply s @ [x]\<rparr>;
     if rc = 0 then Some (s\<lparr>bs_nbset := bs_nbset s @ [x]\<rparr>)
     else batchrq_decref env x rc
            (br_upd x (b\<lparr>br_refcnt := br_refcnt b - 1, br_rq := rq, br_rqinfl := False\<rparr>) s)
   }"

text \<open>The request of an I/O server that completes a batch.\<close>

fun wait_find :: "nat \<Rightarrow> 'e batchst \<Rightarrow> nat list \<Rightarrow> 'e batchrq option option" where
  "wait_find bid s [] = Some None"
| "wait_find bid s (x # xs) = do { b \<leftarrow> bs_br s x; if x = bid then Some (Some b) else wait_find bid s xs }"

definition sl_handle_batchrp :: "batch_env \<Rightarrow> nat \<Rightarrow> int \<Rightarrow> int \<Rightarrow> int \<Rightarrow> 'e batchst \<Rightarrow> (int \<times> 'e batchst) option" where
  "sl_handle_batchrp env bid len mq_rc bulk_rc s =
     (let rc = (if len < 0 \<or> len > int (LNET_MTU env) then - BATCH_EINVAL else 0) in do {
        f \<leftarrow> wait_find bid s (batchrqs_waitreply s);
        case f of
          Some b \<Rightarrow> (let (rc, s) = (if rc = 0 then (bulk_rc, br_upd bid (b\<lparr>br_reply := Some (nat len)\<rparr>) s) else (rc, s))
                     in Some (rc, batchrq_sched_finish bid (if mq_rc \<noteq> 0 then mq_rc else rc) s))
        | None \<Rightarrow> Some (- BATCH_EINVAL, s)
      })"

subsection \<open>Adding an entry\<close>

fun batch_find :: "nat \<Rightarrow> 'e batchst \<Rightarrow> nat list \<Rightarrow> nat option option" where
  "batch_find opc s [] = Some None"
| "batch_find opc s (x # xs) = do {
     b \<leftarrow> bs_br s x;
     if \<not> br_rqinfl b \<and> \<not> br_waitreply b
     then do { o1 \<leftarrow> br_rq b; if opc = o1 then Some (Some x) else batch_find opc s xs }
     else batch_find opc s xs
   }"

definition batch_create :: "batch_env \<Rightarrow> u32 \<Rightarrow> nat \<Rightarrow> 'e batchst \<Rightarrow> nat \<times> 'e batchst" where
  "batch_create env r expire s =
     (let x = bs_bid s + 1;
          s = br_upd x \<lparr>br_res = r, br_rq = Some SRMT_BATCH_RQ, br_rqinfl = False, br_waitreply = False,
                 br_refcnt = 1, br_rc = 0, br_buf = [], br_len = 0, br_reply = None, br_expire = expire\<rparr>
                (s\<lparr>bs_bid := x, rpmi_batchrqs := (rpmi_batchrqs s)(r := rpmi_batchrqs s r @ [x])\<rparr>)
      in (x, s\<lparr>batchrqs_delayed :=
                 lc_add_sorted env (\<lambda>a b. batchrq_cmp (bs_br s a, bs_br s b)) x (batchrqs_delayed s)\<rparr>))"

definition batchrq_add ::
    "batch_env \<Rightarrow> u32 \<Rightarrow> nat \<Rightarrow> 'e \<Rightarrow> nat \<Rightarrow> nat \<Rightarrow> int \<Rightarrow> int \<Rightarrow> 'e batchst \<Rightarrow> (int \<times> 'e batchst) option" where
  "batchrq_add env r opc e len expire newreq_rc send_rc s = do {
     f \<leftarrow> batch_find opc s (rpmi_batchrqs s r);
     if f = None \<and> newreq_rc \<noteq> 0 then Some (newreq_rc, s)
     else do {
       let (x, s) = (case f of Some x \<Rightarrow> (x, s) | None \<Rightarrow> batch_create env r expire s);
       b \<leftarrow> bs_br s x;
       let b = b\<lparr>br_buf := br_buf b @ [e], br_len := br_len b + len\<rparr>;
       s \<leftarrow> (if br_len b + len > LNET_MTU env then batchrq_send env send_rc x (br_upd x b s)
            else Some (br_upd x b s));
       Some (0, s)
     }
   }"

text \<open>
  A round of the thread that sends batches whose delay is over, and a dropped connection of an
  I/O server. The notice to the update scheduler that goes with it is not represented: its
  handler \<open>upd_proc_hldrop\<close> returns at once.
\<close>

definition slmbchrqthr_round :: "batch_env \<Rightarrow> nat \<Rightarrow> int \<Rightarrow> 'e batchst \<Rightarrow> 'e batchst option" where
  "slmbchrqthr_round env now send_rc s = (case batchrqs_delayed s of [] \<Rightarrow> Some s
     | x # _ \<Rightarrow> do { b \<leftarrow> bs_br s x; if now > br_expire b then batchrq_send env send_rc x s else Some s })"

definition sl_resm_hldrop :: "u32 \<Rightarrow> 'e batchst \<Rightarrow> 'e batchst" where
  "sl_resm_hldrop r s = fold (\<lambda>x. batchrq_sched_finish x (- ECONNRESET)) (rpmi_batchrqs s r) s"

subsection \<open>Steps\<close>

text \<open>The second component of a state collects the entries that were accepted.\<close>

datatype batch_ev = BvAdd u32 | BvRound | BvSent nat | BvReply nat | BvDrop u32 | BvWork

inductive batch_step ::
    "batch_env \<Rightarrow> batch_ev \<Rightarrow> 'e batchst \<times> 'e multiset \<Rightarrow> 'e batchst \<times> 'e multiset \<Rightarrow> bool" for env where
  add: "batchrq_add env r opc e len expire nrc src s = Some (rc, s') \<Longrightarrow> opc \<noteq> SRMT_BATCH_RQ \<Longrightarrow>
    batch_step env (BvAdd r) (s, A) (s', if rc = 0 then add_mset e A else A)"
| round: "slmbchrqthr_round env now src s = Some s' \<Longrightarrow> batch_step env BvRound (s, A) (s', A)"
| sent: "x \<in> set (bs_nbset s) \<Longrightarrow> batch_step env (BvSent x) (s, A) (sl_batchrqsend_cb x rc s, A)"
| reply: "sl_handle_batchrp env bid len mq_rc bulk_rc s = Some (rc, s') \<Longrightarrow>
    batch_step env (BvReply bid) (s, A) (s', A)"
| drop: "batch_step env (BvDrop r) (s, A) (sl_resm_hldrop r s, A)"
| work: "batch_work env s = Some s' \<Longrightarrow> batch_step env BvWork (s, A) (s', A)"

abbreviation batch_any :: "batch_env \<Rightarrow> 'e batchst \<times> 'e multiset \<Rightarrow> 'e batchst \<times> 'e multiset \<Rightarrow> bool" where
  "batch_any env p q \<equiv> \<exists>ev. batch_step env ev p q"

definition batch_init :: "'e batchst \<times> 'e multiset \<Rightarrow> bool" where
  "batch_init = (\<lambda>(s, A). bs_bid s = 0 \<and> bs_br s = (\<lambda>_. None) \<and> bs_cb s = [] \<and> A = {#})"

subsection \<open>Where the entries are\<close>

definition ent :: "'e batchrq option \<Rightarrow> 'e multiset" where
  "ent m = (case m of None \<Rightarrow> {#} | Some b \<Rightarrow> mset (br_buf b))"

definition live_ents :: "'e batchst \<Rightarrow> 'e multiset" where
  "live_ents s = (\<Sum>x\<in>{1..bs_bid s}. ent (bs_br s x))"

definition done_ents :: "'e batchst \<Rightarrow> 'e multiset" where
  "done_ents s = mset (concat (map (\<lambda>(x, es, r, rc). es) (bs_cb s)))"

definition br_ok :: "'e batchrq \<Rightarrow> bool" where
  "br_ok b \<longleftrightarrow> length (br_buf b) = 1 \<and> (br_rq b = None \<or> br_rq b = Some SRMT_BATCH_RQ)"

definition batch_ok :: "'e batchst \<Rightarrow> bool" where
  "batch_ok s \<longleftrightarrow> dom (bs_br s) \<subseteq> {1..bs_bid s} \<and> fst ` set (bs_cb s) \<subseteq> {1..bs_bid s} - dom (bs_br s) \<and>
     distinct (map fst (bs_cb s)) \<and> (\<forall>(x, es, r, rc) \<in> set (bs_cb s). length es = 1) \<and>
     (\<forall>x b. bs_br s x = Some b \<longrightarrow> br_ok b)"

definition batch_inv :: "'e batchst \<times> 'e multiset \<Rightarrow> bool" where
  "batch_inv = (\<lambda>(s, A). batch_ok s \<and> A = live_ents s + done_ents s)"

text \<open>What a step may do to a batch without touching its entries.\<close>

definition same_ents :: "'e batchst \<Rightarrow> 'e batchst \<Rightarrow> bool" where
  "same_ents s s' \<longleftrightarrow> batch_ok s' \<and> live_ents s' + done_ents s' = live_ents s + done_ents s"

lemma same_ents_refl: "batch_ok s \<Longrightarrow> same_ents s s"
  by (simp add: same_ents_def)

lemma same_ents_trans: "same_ents s t \<Longrightarrow> same_ents t u \<Longrightarrow> same_ents s u"
  by (simp add: same_ents_def)

lemma same_ents_ok: "same_ents s t \<Longrightarrow> batch_ok t"
  by (simp add: same_ents_def)

lemma ents_lists [simp]:
  "live_ents (s\<lparr>batchrqs_delayed := d\<rparr>) = live_ents s" "live_ents (s\<lparr>batchrqs_waitreply := d\<rparr>) = live_ents s"
  "live_ents (s\<lparr>bs_nbset := n\<rparr>) = live_ents s" "live_ents (s\<lparr>bs_wk := w\<rparr>) = live_ents s"
  "done_ents (s\<lparr>batchrqs_delayed := d\<rparr>) = done_ents s" "done_ents (s\<lparr>batchrqs_waitreply := d\<rparr>) = done_ents s"
  "done_ents (s\<lparr>bs_nbset := n\<rparr>) = done_ents s" "done_ents (s\<lparr>bs_wk := w\<rparr>) = done_ents s"
  "batch_ok (s\<lparr>batchrqs_delayed := d\<rparr>) = batch_ok s" "batch_ok (s\<lparr>batchrqs_waitreply := d\<rparr>) = batch_ok s"
  "batch_ok (s\<lparr>bs_nbset := n\<rparr>) = batch_ok s" "batch_ok (s\<lparr>bs_wk := w\<rparr>) = batch_ok s"
  by (simp_all add: live_ents_def done_ents_def batch_ok_def)

lemma same_ents_lists [simp]:
  "same_ents s (t\<lparr>batchrqs_delayed := d\<rparr>) = same_ents s t" "same_ents s (t\<lparr>batchrqs_waitreply := d\<rparr>) = same_ents s t"
  "same_ents s (t\<lparr>bs_nbset := n\<rparr>) = same_ents s t" "same_ents s (t\<lparr>bs_wk := w\<rparr>) = same_ents s t"
  by (simp_all add: same_ents_def)

lemma same_upd:
  assumes ok: "batch_ok s" and b: "bs_br s x = Some b"
    and c: "br_buf c = br_buf b" "br_rq c = None \<or> br_rq c = br_rq b"
  shows "same_ents s (br_upd x c s)"
proof -
  have "ent (bs_br (br_upd x c s) y) = ent (bs_br s y)" for y using b c(1) by (simp add: br_upd_def ent_def)
  then have "live_ents (br_upd x c s) = live_ents s" by (simp add: live_ents_def br_upd_def)
  moreover have "br_ok c" using ok b c unfolding batch_ok_def br_ok_def by metis
  then have "batch_ok (br_upd x c s)" using ok b by (auto simp: batch_ok_def br_upd_def)
  ultimately show ?thesis by (simp add: same_ents_def done_ents_def br_upd_def)
qed

lemma decref_ents:
  assumes ok: "batch_ok s"
  shows "opt_all (same_ents s) (batchrq_decref env x rc s)"
proof (rule opt_allI)
  fix s' assume d: "batchrq_decref env x rc s = Some s'"
  then obtain b where b: "bs_br s x = Some b" by (cases "bs_br s x") (auto simp: batchrq_decref_def)
  define c where "c = (if br_rc b = 0 then b\<lparr>br_rc := rc\<rparr> else b)\<lparr>br_refcnt := br_refcnt b - 1\<rparr>"
  have c: "br_buf c = br_buf b" "br_rq c = br_rq b" by (simp_all add: c_def)
  show "same_ents s s'"
  proof (cases "br_refcnt c = 0")
    case False
    then have "s' = br_upd x c s" using d b by (auto simp: batchrq_decref_def c_def Let_def split: if_splits)
    then show ?thesis using same_upd [OF ok b] c by simp
  next
    case True
    obtain r q where s': "bs_br s' = (bs_br s)(x := None)" "bs_bid s' = bs_bid s" "bs_cb s' = bs_cb s @ [(x, br_buf b, r, q)]"
      using d b True by (auto simp: batchrq_decref_def c_def Let_def split: if_splits)
    have x: "x \<in> {1..bs_bid s}" "x \<notin> fst ` set (bs_cb s)" "br_ok b"
      using ok b unfolding batch_ok_def by blast+
    have "live_ents s = ent (bs_br s x) + (\<Sum>y\<in>{1..bs_bid s} - {x}. ent (bs_br s y))"
      unfolding live_ents_def by (rule sum.remove) (use x in simp_all)
    moreover have "live_ents s' = ent (bs_br s' x) + (\<Sum>y\<in>{1..bs_bid s} - {x}. ent (bs_br s' y))"
      unfolding live_ents_def s'(2) by (rule sum.remove) (use x in simp_all)
    moreover have "(\<Sum>y\<in>{1..bs_bid s} - {x}. ent (bs_br s' y)) = (\<Sum>y\<in>{1..bs_bid s} - {x}. ent (bs_br s y))"
      by (rule sum.cong) (simp_all add: s'(1))
    moreover have "done_ents s' = done_ents s + mset (br_buf b)" using s'(3) by (auto simp: done_ents_def)
    ultimately have "live_ents s' + done_ents s' = live_ents s + done_ents s" using b by (simp add: s'(1) ent_def)
    moreover have "batch_ok s'"
      using ok x unfolding batch_ok_def s' br_ok_def by (auto split: if_splits)
    ultimately show ?thesis by (simp add: same_ents_def)
  qed
qed

lemma decref_after:
  assumes "same_ents s t"
  shows "opt_all (same_ents s) (batchrq_decref env x rc t)"
  by (rule opt_all_mono [OF decref_ents [OF same_ents_ok [OF assms]]]) (rule same_ents_trans [OF assms])

lemma send_ents:
  assumes ok: "batch_ok s"
  shows "opt_all (same_ents s) (batchrq_send env rc x s)"
proof (rule opt_allI)
  fix s' assume d: "batchrq_send env rc x s = Some s'"
  then obtain b where b: "bs_br s x = Some b" by (cases "bs_br s x") (auto simp: batchrq_send_def)
  let ?b = "b\<lparr>br_refcnt := br_refcnt b + 1, br_rqinfl := True, br_rq := None\<rparr>"
  let ?s = "(br_upd x ?b s)\<lparr>batchrqs_delayed := lc_remove env x (batchrqs_delayed s),
      batchrqs_waitreply := batchrqs_waitreply s @ [x]\<rparr>"
  let ?c = "?b\<lparr>br_refcnt := br_refcnt ?b - 1, br_rq := br_rq b, br_rqinfl := False\<rparr>"
  have s: "same_ents s ?s" using same_upd [OF ok b, of ?b] by simp
  have "br_upd x ?c ?s = (br_upd x ?c s)\<lparr>batchrqs_delayed := lc_remove env x (batchrqs_delayed s),
      batchrqs_waitreply := batchrqs_waitreply s @ [x]\<rparr>" by (simp add: br_upd_def)
  then have "same_ents s (br_upd x ?c ?s)" using same_upd [OF ok b, of ?c] by (simp only: same_ents_lists) simp
  then show "same_ents s s'"
    using d b s decref_after [of s "br_upd x ?c ?s" env x rc] by (auto simp: batchrq_send_def Let_def opt_all_def split: if_splits)
qed

lemma finish_same [simp]: "same_ents s (batchrq_sched_finish x rc t) = same_ents s t"
  by (simp add: batchrq_sched_finish_def)

lemma wait_find_live: "wait_find bid s xs = Some (Some b) \<Longrightarrow> bs_br s bid = Some b"
  by (induction xs) (auto simp: bind_eq_Some_conv split: if_splits)

lemma reply_ents:
  assumes ok: "batch_ok s" and r: "sl_handle_batchrp env bid len mq_rc bulk_rc s = Some (rc, s')"
  shows "same_ents s s'"
proof -
  obtain f where f: "wait_find bid s (batchrqs_waitreply s) = Some f" using r by (auto simp: sl_handle_batchrp_def Let_def bind_eq_Some_conv)
  show ?thesis
  proof (cases f)
    case None
    then show ?thesis using r f ok by (simp add: sl_handle_batchrp_def Let_def same_ents_refl)
  next
    case (Some b)
    have "same_ents s (br_upd bid (b\<lparr>br_reply := Some (nat len)\<rparr>) s)"
      by (rule same_upd [OF ok]) (use f Some wait_find_live in auto)
    then show ?thesis using r f Some ok by (auto simp: sl_handle_batchrp_def Let_def same_ents_refl split: if_splits)
  qed
qed

lemma work_ents:
  assumes ok: "batch_ok s" and w: "batch_work env s = Some s'"
  shows "same_ents s s'"
proof (cases "bs_wk s")
  case Nil
  then show ?thesis using w ok by (simp add: batch_work_def same_ents_refl)
next
  case (Cons i ws)
  have t: "same_ents s (s\<lparr>bs_wk := ws\<rparr>)" using ok by (simp add: same_ents_refl)
  show ?thesis
  proof (cases i)
    case (WkFinish x rc)
    then show ?thesis using w Cons decref_after [OF t, of env x rc]
      by (auto simp: batch_work_def batchrq_finish_wkcb_def opt_all_def)
  next
    case (WkWaitReply x)
    then obtain b where b: "bs_br s x = Some b" using w Cons by (auto simp: batch_work_def batchrq_waitreply_wkcb_def bind_eq_Some_conv)
    let ?b = "b\<lparr>br_rqinfl := False, br_waitreply := True\<rparr>"
    have "same_ents s (br_upd x ?b (s\<lparr>bs_wk := ws\<rparr>))"
      by (rule same_ents_trans [OF t], rule same_upd [where b = b]) (use ok b in auto)
    then show ?thesis using w Cons WkWaitReply b decref_after [of s _ env x 0]
      by (auto simp: batch_work_def batchrq_waitreply_wkcb_def opt_all_def)
  qed
qed

lemma round_ents:
  assumes ok: "batch_ok s" and r: "slmbchrqthr_round env now rc s = Some s'"
  shows "same_ents s s'"
proof (cases "batchrqs_delayed s")
  case Nil
  then show ?thesis using r ok by (simp add: slmbchrqthr_round_def same_ents_refl)
next
  case (Cons x xs)
  then show ?thesis using r ok send_ents [OF ok, of env rc x]
    by (auto simp: slmbchrqthr_round_def bind_eq_Some_conv opt_all_def same_ents_refl split: if_splits)
qed

lemma hldrop_ents: "batch_ok s \<Longrightarrow> same_ents s (sl_resm_hldrop r s)"
proof -
  have "same_ents s t \<Longrightarrow> same_ents s (fold (\<lambda>x. batchrq_sched_finish x (- ECONNRESET)) xs t)" for xs t
    by (induction xs arbitrary: t) simp_all
  then show "batch_ok s \<Longrightarrow> same_ents s (sl_resm_hldrop r s)" by (simp add: sl_resm_hldrop_def same_ents_refl)
qed

text \<open>No batch that waits is ever found for another entry.\<close>

lemma find_none:
  assumes "batch_ok s" "opc \<noteq> SRMT_BATCH_RQ" "batch_find opc s xs = Some f"
  shows "f = None"
  using assms(3)
proof (induction xs)
  case (Cons x xs)
  obtain b where b: "bs_br s x = Some b" using Cons.prems by (auto simp: bind_eq_Some_conv)
  then have "br_rq b = None \<or> br_rq b = Some SRMT_BATCH_RQ" using assms(1) unfolding batch_ok_def br_ok_def by blast
  then show ?case using Cons b assms(2) by (auto simp: bind_eq_Some_conv split: if_splits)
qed simp

definition new_batch :: "batch_env \<Rightarrow> u32 \<Rightarrow> 'e \<Rightarrow> nat \<Rightarrow> nat \<Rightarrow> 'e batchst \<Rightarrow> 'e batchst" where
  "new_batch env r e len expire s = (case batch_create env r expire s of (x, t) \<Rightarrow>
     br_upd x \<lparr>br_res = r, br_rq = Some SRMT_BATCH_RQ, br_rqinfl = False, br_waitreply = False, br_refcnt = 1,
       br_rc = 0, br_buf = [e], br_len = len, br_reply = None, br_expire = expire\<rparr> t)"

lemma new_batch_ents:
  assumes ok: "batch_ok s"
  shows "batch_ok (new_batch env r e len expire s)"
    "live_ents (new_batch env r e len expire s) + done_ents (new_batch env r e len expire s) =
     add_mset e (live_ents s + done_ents s)"
proof -
  let ?n = "bs_bid s" and ?t = "new_batch env r e len expire s"
  have f: "bs_br s (Suc ?n) = None" using ok by (force simp: batch_ok_def dom_def)
  obtain b where t: "bs_br ?t = (bs_br s)(Suc ?n \<mapsto> b)" "bs_bid ?t = Suc ?n" "bs_cb ?t = bs_cb s" "br_ok b" "br_buf b = [e]"
    by (simp add: new_batch_def batch_create_def br_upd_def Let_def br_ok_def)
  have "(\<Sum>x\<in>{1..?n}. ent (bs_br ?t x)) = live_ents s" unfolding live_ents_def by (rule sum.cong) (simp_all add: t(1))
  then show "live_ents ?t + done_ents ?t = add_mset e (live_ents s + done_ents s)"
    using t(5) by (simp add: live_ents_def [of ?t] t(1,2) atLeastAtMostSuc_conv) (simp add: ent_def done_ents_def t(3))
  show "batch_ok ?t" using ok t(4) f unfolding batch_ok_def t(1-3)
    by (auto split: if_splits)
qed

lemma add_ents:
  assumes ok: "batch_ok s" and o: "opc \<noteq> SRMT_BATCH_RQ"
    and a: "batchrq_add env r opc e len expire nrc src s = Some (rc, s')"
  shows "if rc = 0 then batch_ok s' \<and> live_ents s' + done_ents s' = add_mset e (live_ents s + done_ents s)
    else s' = s"
proof -
  have f: "batch_find opc s (rpmi_batchrqs s r) = Some None"
    using a find_none [OF ok o] by (auto simp: batchrq_add_def bind_eq_Some_conv)
  show ?thesis
  proof (cases "nrc = 0")
    case False
    then show ?thesis using a f by (auto simp: batchrq_add_def)
  next
    case True
    note n = new_batch_ents [OF ok, of env r e len expire]
    obtain x where x: "rc = 0" "s' = new_batch env r e len expire s \<or>
        batchrq_send env src x (new_batch env r e len expire s) = Some s'"
      using a f True by (auto simp: batchrq_add_def new_batch_def batch_create_def br_upd_def Let_def bind_eq_Some_conv split: if_splits)
    then show ?thesis using n send_ents [OF n(1), of env src x] by (auto simp: opt_all_def same_ents_def)
  qed
qed

lemma sent_same: "same_ents s (sl_batchrqsend_cb x rc t) = same_ents s t"
  by (simp add: sl_batchrqsend_cb_def Let_def batchrq_sched_waitreply_def)

lemma batch_init_inv: "batch_init p \<Longrightarrow> batch_inv p"
  by (auto simp: batch_init_def batch_inv_def batch_ok_def live_ents_def done_ents_def ent_def)

lemma batch_step_inv:
  assumes "batch_inv p" "batch_any env p q"
  shows "batch_inv q"
proof -
  obtain s A where p: "p = (s, A)" "batch_ok s" "A = live_ents s + done_ents s"
    using assms(1) by (cases p) (auto simp: batch_inv_def)
  have k: "same_ents s t \<Longrightarrow> batch_inv (t, A)" for t using p(3) by (simp add: same_ents_def batch_inv_def)
  from assms(2) obtain ev where "batch_step env ev p q" ..
  then show ?thesis
  proof cases
    case (add r opc e len expire nrc src s2 rc s')
    then show ?thesis using add_ents [of s opc env r e len expire nrc src rc s'] p
      by (cases "rc = 0") (auto simp: batch_inv_def)
  next
    case (round now src)
    then show ?thesis using p k [OF round_ents] by auto
  next
    case (sent x)
    then show ?thesis using p k by (auto simp: sent_same same_ents_refl)
  next
    case (reply len mq_rc bulk_rc s2 rc)
    then show ?thesis using p k [OF reply_ents] by auto
  next
    case (drop r)
    then show ?thesis using p k [OF hldrop_ents] by auto
  next
    case work
    then show ?thesis using p k [OF work_ents] by auto
  qed
qed

interpretation batches: safe_system batch_init "batch_any env" batch_inv for env
  by unfold_locales (rule batch_init_inv, assumption, rule batch_step_inv)

text \<open>
  C15: no work is lost or done twice. However additions, sends, replies, connection losses and
  worker threads interleave, every entry that was accepted is in exactly one place: in a live
  batch or among the entries handed to a callback. Each batch is completed at most once. Each
  batch carries a single entry, so nothing is ever batched: the search for a batch compares the
  operation of the entry with the operation of the request that carries batches.
\<close>

theorem batch_entries_conserved:
  assumes "batch_init p0" "rtranclp (batch_any env) p0 (s, A)"
  shows "A = live_ents s + done_ents s \<and> distinct (map fst (bs_cb s)) \<and>
    (\<forall>x es r rc. (x, es, r, rc) \<in> set (bs_cb s) \<longrightarrow> bs_br s x = None \<and> length es = 1) \<and>
    (\<forall>x b. bs_br s x = Some b \<longrightarrow> length (br_buf b) = 1)"
proof -
  have ok: "batch_ok s" "A = live_ents s + done_ents s"
    using batches.reach_inv [OF assms] by (simp_all add: batch_inv_def)
  have c1: "bs_br s x = None \<and> length es = 1" if c: "(x, es, r, rc) \<in> set (bs_cb s)" for x es r rc
  proof
    have "x \<in> fst ` set (bs_cb s)" using imageI [OF c, of fst] by simp
    then have "x \<notin> dom (bs_br s)" using ok(1) unfolding batch_ok_def by blast
    then show "bs_br s x = None" by (simp add: domIff)
    have "\<forall>(x, es, r, rc) \<in> set (bs_cb s). length es = 1" using ok(1) unfolding batch_ok_def by blast
    from bspec [OF this c] show "length es = 1" by simp
  qed
  have c2: "length (br_buf b) = 1" if "bs_br s x = Some b" for x b
    using ok(1) that unfolding batch_ok_def br_ok_def by blast
  have d: "distinct (map fst (bs_cb s))" using ok(1) by (simp add: batch_ok_def)
  have "\<forall>x es r rc. (x, es, r, rc) \<in> set (bs_cb s) \<longrightarrow> bs_br s x = None \<and> length es = 1" by (intro allI impI) (rule c1)
  moreover have "\<forall>x b. bs_br s x = Some b \<longrightarrow> length (br_buf b) = 1" by (intro allI impI) (rule c2)
  ultimately show ?thesis using ok(2) d by (intro conjI)
qed

definition batch_empty :: "'e batchst" where
  "batch_empty = \<lparr>bs_bid = 0, bs_br = (\<lambda>_. None), rpmi_batchrqs = (\<lambda>_. []), batchrqs_delayed = [],
     batchrqs_waitreply = [], bs_nbset = [], bs_wk = [], bs_cb = []\<rparr>"

definition env_ex :: batch_env where
  "env_ex = \<lparr>lc_add_sorted = (\<lambda>_ x xs. xs @ [x]), lc_remove = remove1, LNET_MTU = 1048576\<rparr>"

theorem batch_entries_conserved_witness:
  "\<exists>s. batchrq_add env_ex 7 SRMT_REPL_SCHEDWK (99 :: nat) 40 5 0 0 batch_empty = Some (0, s) \<and>
     live_ents s + done_ents s = {#99#} \<and> bs_cb s = []"
proof -
  obtain s where s: "batchrq_add env_ex 7 SRMT_REPL_SCHEDWK (99 :: nat) 40 5 0 0 batch_empty = Some (0, s)" "bs_cb s = []"
    by (simp add: batchrq_add_def batch_empty_def batch_create_def br_upd_def env_ex_def Let_def)
  have "batch_step env_ex (BvAdd 7) (batch_empty, {#}) (s, {#99#})"
    using batch_step.add [OF s(1), of "{#}"] by simp
  then have "rtranclp (batch_any env_ex) (batch_empty, {#}) (s, {#99#})" by (intro r_into_rtranclp exI)
  moreover have "batch_init (batch_empty, {#})" by (simp add: batch_init_def batch_empty_def)
  ultimately have "{#99#} = live_ents s + done_ents s" by (intro batch_entries_conserved [THEN conjunct1])
  then show ?thesis using s by (intro exI [of _ s]) simp
qed

subsection \<open>A request that fails\<close>

definition wk_of :: "batch_wk \<Rightarrow> nat" where
  "wk_of w = (case w of WkFinish x _ \<Rightarrow> x | WkWaitReply x \<Rightarrow> x)"

text \<open>What the PFL lists are expected to do: nothing appears in them from nowhere.\<close>

definition lists_ok :: "batch_env \<Rightarrow> bool" where
  "lists_ok env \<longleftrightarrow> (\<forall>c x xs. set (lc_add_sorted env c x xs) \<subseteq> insert x (set xs)) \<and>
     (\<forall>x xs. set (lc_remove env x xs) \<subseteq> set xs)"

text \<open>A batch with one reference that nobody is going to drop.\<close>

definition batch_stuck :: "nat \<Rightarrow> 'e batchrq \<Rightarrow> 'e batchst \<Rightarrow> bool" where
  "batch_stuck x b s \<longleftrightarrow> bs_br s x = Some b \<and> x \<notin> set (batchrqs_delayed s) \<and> x \<notin> set (bs_nbset s) \<and>
     x \<notin> wk_of ` set (bs_wk s) \<and> (\<forall>r. r \<noteq> br_res b \<longrightarrow> x \<notin> set (rpmi_batchrqs s r)) \<and> x \<le> bs_bid s"

definition batch_frame :: "nat \<Rightarrow> 'e batchst \<Rightarrow> 'e batchst \<Rightarrow> bool" where
  "batch_frame x s t \<longleftrightarrow> bs_br t x = bs_br s x \<and> (x \<in> set (batchrqs_delayed t) \<longrightarrow> x \<in> set (batchrqs_delayed s)) \<and>
     (x \<in> set (bs_nbset t) \<longrightarrow> x \<in> set (bs_nbset s)) \<and> (x \<in> wk_of ` set (bs_wk t) \<longrightarrow> x \<in> wk_of ` set (bs_wk s)) \<and>
     (\<forall>r. x \<in> set (rpmi_batchrqs t r) \<longrightarrow> x \<in> set (rpmi_batchrqs s r)) \<and> bs_bid s \<le> bs_bid t"

lemma frame_stuck: "batch_frame x s t \<Longrightarrow> batch_stuck x b s \<Longrightarrow> batch_stuck x b t"
  by (auto simp: batch_frame_def batch_stuck_def)

lemma frame_refl_batch: "batch_frame x s s"
  by (simp add: batch_frame_def)

lemma frame_trans_batch: "batch_frame x s t \<Longrightarrow> batch_frame x t u \<Longrightarrow> batch_frame x s u"
  by (auto simp: batch_frame_def)

lemma frame_upd_batch: "x \<noteq> y \<Longrightarrow> batch_frame x s (br_upd y b s)"
  by (simp add: batch_frame_def br_upd_def)

lemma frame_decref:
  assumes l: "lists_ok env" and n: "x \<noteq> y" and d: "batchrq_decref env y rc s = Some s'"
  shows "batch_frame x s s'"
proof -
  have r: "x \<in> set (lc_remove env z xs) \<Longrightarrow> x \<in> set xs" for z xs using l unfolding lists_ok_def by blast
  obtain b where b: "bs_br s y = Some b" using d by (auto simp: batchrq_decref_def bind_eq_Some_conv)
  define c where "c = (if br_rc b = 0 then b\<lparr>br_rc := rc\<rparr> else b)\<lparr>br_refcnt := br_refcnt b - 1\<rparr>"
  show ?thesis
  proof (cases "br_refcnt c = 0")
    case False
    then have "s' = br_upd y c s" using d b by (auto simp: batchrq_decref_def c_def Let_def split: if_splits)
    then show ?thesis using n by (simp add: frame_upd_batch)
  next
    case True
    then obtain q where "bs_br s' = (bs_br s)(y := None)" "bs_bid s' = bs_bid s" "bs_wk s' = bs_wk s" "bs_nbset s' = bs_nbset s"
      "batchrqs_delayed s' \<in> {batchrqs_delayed s, lc_remove env y (batchrqs_delayed s)}"
      "rpmi_batchrqs s' = (rpmi_batchrqs s)(q := lc_remove env y (rpmi_batchrqs s q))"
      using d b by (auto simp: batchrq_decref_def c_def Let_def split: if_splits)
    then show ?thesis unfolding batch_frame_def using n r by auto
  qed
qed

lemma frame_send:
  assumes l: "lists_ok env" and n: "x \<noteq> y" and d: "batchrq_send env rc y s = Some s'"
  shows "batch_frame x s s'"
proof -
  have r: "x \<in> set (lc_remove env z xs) \<Longrightarrow> x \<in> set xs" for z xs using l unfolding lists_ok_def by blast
  obtain b where b: "bs_br s y = Some b" using d by (auto simp: batchrq_send_def bind_eq_Some_conv)
  let ?b = "b\<lparr>br_refcnt := br_refcnt b + 1, br_rqinfl := True, br_rq := None\<rparr>"
  let ?s = "(br_upd y ?b s)\<lparr>batchrqs_delayed := lc_remove env y (batchrqs_delayed s),
      batchrqs_waitreply := batchrqs_waitreply s @ [y]\<rparr>"
  have f: "batch_frame x s ?s" using n r by (auto simp: batch_frame_def br_upd_def)
  show ?thesis
  proof (cases "rc = 0")
    case True
    then show ?thesis using d b n f by (auto simp: batchrq_send_def Let_def batch_frame_def)
  next
    case False
    then show ?thesis
      using d b frame_trans_batch [OF f frame_trans_batch [OF frame_upd_batch [OF n] frame_decref [OF l n]]]
      by (auto simp: batchrq_send_def Let_def)
  qed
qed

lemma frame_new:
  assumes l: "lists_ok env" and x: "x \<le> bs_bid s"
  shows "batch_frame x s (new_batch env r e len expire s)"
proof -
  have a: "x \<in> set (lc_add_sorted env c (Suc (bs_bid s)) xs) \<Longrightarrow> x \<in> set xs" for c xs
    using l x unfolding lists_ok_def by (metis insert_iff not_less_eq_eq order_refl subsetD)
  show ?thesis using x by (auto simp: new_batch_def batch_create_def br_upd_def Let_def batch_frame_def dest!: a)
qed

lemma frame_add:
  assumes l: "lists_ok env" and ok: "batch_ok s" and x: "x \<le> bs_bid s" and o: "opc \<noteq> SRMT_BATCH_RQ"
    and a: "batchrq_add env r opc e len expire nrc src s = Some (rc, s')"
  shows "batch_frame x s s'"
proof -
  have f: "batch_find opc s (rpmi_batchrqs s r) = Some None"
    using a find_none [OF ok o] by (auto simp: batchrq_add_def bind_eq_Some_conv)
  note n = frame_new [OF l x, of r e len expire]
  have "s' = s \<or> s' = new_batch env r e len expire s \<or>
      batchrq_send env src (Suc (bs_bid s)) (new_batch env r e len expire s) = Some s'"
    using a f by (auto simp: batchrq_add_def new_batch_def batch_create_def br_upd_def Let_def bind_eq_Some_conv split: if_splits)
  then show ?thesis using n frame_refl_batch [of x s] frame_trans_batch [OF n frame_send [OF l, of x "Suc (bs_bid s)"]] x by auto
qed

lemma frame_wk: "y \<noteq> x \<Longrightarrow> batch_frame x s t \<Longrightarrow> batch_frame x s (batchrq_sched_finish y rc t)"
  "y \<noteq> x \<Longrightarrow> batch_frame x s t \<Longrightarrow> batch_frame x s (batchrq_sched_waitreply y t)"
  by (auto simp: batch_frame_def batchrq_sched_finish_def batchrq_sched_waitreply_def wk_of_def)

lemma frame_hldrop:
  assumes "x \<notin> set (rpmi_batchrqs s r)"
  shows "batch_frame x s (sl_resm_hldrop r s)"
proof -
  have "x \<notin> set xs \<Longrightarrow> batch_frame x s t \<Longrightarrow> batch_frame x s (fold (\<lambda>y. batchrq_sched_finish y (- ECONNRESET)) xs t)" for xs t
  proof (induction xs arbitrary: t)
    case (Cons y xs)
    have "batch_frame x s (batchrq_sched_finish y (- ECONNRESET) t)" by (rule frame_wk(1)) (use Cons.prems in auto)
    then show ?case using Cons by simp
  qed simp
  then show ?thesis using assms by (simp add: sl_resm_hldrop_def frame_refl_batch)
qed

lemma frame_work:
  assumes l: "lists_ok env" and x: "x \<notin> wk_of ` set (bs_wk s)" and w: "batch_work env s = Some s'"
  shows "batch_frame x s s'"
proof (cases "bs_wk s")
  case Nil
  then show ?thesis using w by (simp add: batch_work_def frame_refl_batch)
next
  case (Cons i ws)
  have t: "batch_frame x s (s\<lparr>bs_wk := ws\<rparr>)" using Cons by (auto simp: batch_frame_def)
  show ?thesis
  proof (cases i)
    case (WkFinish y rc)
    then have "x \<noteq> y" using x Cons by (auto simp: wk_of_def)
    then show ?thesis using w Cons WkFinish frame_trans_batch [OF t frame_decref [OF l]]
      by (simp add: batch_work_def batchrq_finish_wkcb_def)
  next
    case (WkWaitReply y)
    then have n: "x \<noteq> y" using x Cons by (auto simp: wk_of_def)
    obtain b where b: "batchrq_decref env y 0 (br_upd y b (s\<lparr>bs_wk := ws\<rparr>)) = Some s'"
      using w Cons WkWaitReply by (auto simp: batch_work_def batchrq_waitreply_wkcb_def bind_eq_Some_conv)
    show ?thesis by (rule frame_trans_batch [OF frame_trans_batch [OF t frame_upd_batch [OF n]] frame_decref [OF l n b]])
  qed
qed

lemma frame_reply:
  assumes n: "bid \<noteq> x" and r: "sl_handle_batchrp env bid len mq_rc bulk_rc s = Some (rc, s')"
  shows "batch_frame x s s'"
proof -
  obtain f where f: "wait_find bid s (batchrqs_waitreply s) = Some f" using r by (auto simp: sl_handle_batchrp_def Let_def bind_eq_Some_conv)
  have "s' = s \<or> (\<exists>q. s' = batchrq_sched_finish bid q s) \<or> (\<exists>q b. s' = batchrq_sched_finish bid q (br_upd bid b s))"
    using r f by (cases f) (auto simp: sl_handle_batchrp_def Let_def split: if_splits)
  then show ?thesis
    using frame_wk(1) [OF n frame_refl_batch] frame_wk(1) [OF n frame_upd_batch [OF n [symmetric]]]
    by (elim disjE exE) (simp_all add: frame_refl_batch)
qed

lemma stuck_step:
  assumes l: "lists_ok env" and i: "batch_inv (s, A)" and k: "batch_stuck x b s"
    and st: "batch_step env ev (s, A) (t, B)" "ev \<noteq> BvReply x" "ev \<noteq> BvDrop (br_res b)"
  shows "batch_stuck x b t"
proof -
  have x: "x \<notin> set (batchrqs_delayed s)" "x \<notin> set (bs_nbset s)" "x \<notin> wk_of ` set (bs_wk s)" "x \<le> bs_bid s"
    "r \<noteq> br_res b \<Longrightarrow> x \<notin> set (rpmi_batchrqs s r)" for r using k by (simp_all add: batch_stuck_def)
  have ok: "batch_ok s" using i by (simp add: batch_inv_def)
  from st(1) have "batch_frame x s t"
  proof cases
    case (add r opc e len expire nrc src rc)
    then show ?thesis by (intro frame_add [OF l ok x(4)])
  next
    case (round now src)
    then show ?thesis using x(1) frame_refl_batch [of x s] frame_send [OF l]
      by (cases "batchrqs_delayed s") (auto simp: slmbchrqthr_round_def bind_eq_Some_conv split: if_splits)
  next
    case (sent y rc)
    have "batch_frame x s (s\<lparr>bs_nbset := remove1 y (bs_nbset s)\<rparr>)"
      using notin_set_remove1 [OF x(2)] by (simp add: batch_frame_def)
    moreover have "y \<noteq> x" using sent x(2) by auto
    ultimately show ?thesis using sent by (simp add: sl_batchrqsend_cb_def Let_def frame_wk)
  next
    case (reply bid len mq_rc bulk_rc rc)
    then show ?thesis using st(2) by (auto intro: frame_reply)
  next
    case (drop r)
    then show ?thesis using st(3) x(5) by (auto intro: frame_hldrop)
  next
    case work
    then show ?thesis by (intro frame_work [OF l x(3)])
  qed
  then show ?thesis using k by (rule frame_stuck)
qed

lemma stuck_steps:
  assumes l: "lists_ok env" and i: "batch_inv p" and k: "batch_stuck x b (fst p)"
    and st: "rtranclp (\<lambda>p q. \<exists>ev. batch_step env ev p q \<and> ev \<noteq> BvReply x \<and> ev \<noteq> BvDrop (br_res b)) p q"
  shows "batch_inv q \<and> batch_stuck x b (fst q)"
  using st
proof (induction rule: rtranclp_induct)
  case base
  show ?case using i k by simp
next
  case (step q q')
  then obtain ev where ev: "batch_step env ev q q'" "ev \<noteq> BvReply x" "ev \<noteq> BvDrop (br_res b)" by auto
  then have "batch_stuck x b (fst q')"
    using stuck_step [OF l, of "fst q" "snd q" x b ev "fst q'" "snd q'"] step.IH by simp
  moreover have "batch_inv q'" using batch_step_inv [of q env q'] ev(1) step.IH by blast
  ultimately show ?case by simp
qed

text \<open>
  C39: a request that carried a batch and was answered with an error leaves the batch with the
  reference of its creation. No later send, addition, completion of another batch or worker thread
  frees it: until the I/O server completes a batch it refused, or its connection is lost, the
  callback does not run, so the replicas of its entries stay scheduled and the bandwidth stays
  reserved.
\<close>

theorem batch_refused_stays:
  assumes l: "lists_ok env" and i: "batch_inv (s, A)"
    and b: "bs_br s x = Some b" "br_refcnt b = 1" "br_rc b = 0"
    and q: "bs_wk s = []" "x \<notin> set (bs_nbset s)" "x \<notin> set (lc_remove env x (batchrqs_delayed s))"
      "\<forall>r. r \<noteq> br_res b \<longrightarrow> x \<notin> set (rpmi_batchrqs s r)"
    and rc: "rc \<noteq> 0"
  shows "\<exists>s1 s2 b'. batchrq_send env 0 x s = Some s1 \<and> batch_work env (sl_batchrqsend_cb x rc s1) = Some s2 \<and>
    bs_br s2 x = Some b' \<and> br_refcnt b' = 1 \<and> br_buf b' = br_buf b \<and>
    (\<forall>t B. rtranclp (\<lambda>p q. \<exists>ev. batch_step env ev p q \<and> ev \<noteq> BvReply x \<and> ev \<noteq> BvDrop (br_res b)) (s2, A) (t, B) \<longrightarrow>
       bs_br t x = Some b' \<and> x \<notin> fst ` set (bs_cb t))"
proof -
  let ?b = "b\<lparr>br_refcnt := br_refcnt b + 1, br_rqinfl := True, br_rq := None\<rparr>"
  let ?s1 = "(br_upd x ?b s)\<lparr>batchrqs_delayed := lc_remove env x (batchrqs_delayed s),
      batchrqs_waitreply := batchrqs_waitreply s @ [x], bs_nbset := bs_nbset s @ [x]\<rparr>"
  let ?b' = "?b\<lparr>br_rc := rc, br_refcnt := 1\<rparr>"
  let ?s2 = "br_upd x ?b' (?s1\<lparr>bs_nbset := remove1 x (bs_nbset s @ [x]), bs_wk := []\<rparr>)"
  have s1: "batchrq_send env 0 x s = Some ?s1" using b by (simp add: batchrq_send_def br_upd_def Let_def)
  have s2: "batch_work env (sl_batchrqsend_cb x rc ?s1) = Some ?s2"
    using b q(1) rc by (simp add: batch_work_def sl_batchrqsend_cb_def batchrq_sched_finish_def batchrq_finish_wkcb_def
        batchrq_decref_def br_upd_def Let_def)
  have ok: "batch_ok s" using i by (simp add: batch_inv_def)
  have "x \<in> {1..bs_bid s}" using ok b(1) unfolding batch_ok_def by blast
  moreover have "x \<notin> set (remove1 x (bs_nbset s @ [x]))" using q(2) by (simp add: remove1_append)
  ultimately have k: "batch_stuck x ?b' ?s2" using q by (simp add: batch_stuck_def br_upd_def)
  have "same_ents s ?s1" using send_ents [OF ok, of env 0 x] s1 by (simp add: opt_all_def)
  then have c: "same_ents s (sl_batchrqsend_cb x rc ?s1)" by (simp only: sent_same)
  have "same_ents s ?s2" by (rule same_ents_trans [OF c work_ents [OF same_ents_ok [OF c] s2]])
  then have i2: "batch_inv (?s2, A)" using i by (simp add: batch_inv_def same_ents_def)
  have "bs_br t x = Some ?b' \<and> x \<notin> fst ` set (bs_cb t)"
    if r: "rtranclp (\<lambda>p q. \<exists>ev. batch_step env ev p q \<and> ev \<noteq> BvReply x \<and> ev \<noteq> BvDrop (br_res b)) (?s2, A) (t, B)" for t B
  proof -
    have "batch_inv (t, B) \<and> batch_stuck x ?b' (fst (t, B))" by (rule stuck_steps [OF l i2]) (use k r in simp_all)
    then show ?thesis by (auto simp: batch_inv_def batch_ok_def batch_stuck_def)
  qed
  then show ?thesis using s1 s2 by (intro exI [of _ ?s1] exI [of _ ?s2] exI [of _ ?b']) (simp add: br_upd_def)
qed

definition sent_ex :: "nat batchst" where
  "sent_ex = new_batch env_ex 7 99 40 5 batch_empty"

theorem batch_refused_stays_witness:
  "\<exists>s1 s2 b'. batchrq_send env_ex 0 1 sent_ex = Some s1 \<and>
     batch_work env_ex (sl_batchrqsend_cb 1 (- 5) s1) = Some s2 \<and> bs_br s2 1 = Some b' \<and> br_refcnt b' = 1 \<and> br_buf b' = [99]"
proof -
  let ?b = "\<lparr>br_res = 7, br_rq = Some SRMT_BATCH_RQ, br_rqinfl = False, br_waitreply = False, br_refcnt = 1,
       br_rc = 0, br_buf = [99], br_len = 40, br_reply = None, br_expire = 5\<rparr>"
  have "batch_init (batch_empty, {#})" by (simp add: batch_init_def batch_empty_def)
  then have "batch_ok batch_empty" using batch_init_inv by (auto simp: batch_inv_def)
  from new_batch_ents(1) [OF this] have "batch_inv (sent_ex, live_ents sent_ex + done_ents sent_ex)"
    by (simp add: batch_inv_def sent_ex_def)
  moreover have "lists_ok env_ex" using set_remove1_subset by (fastforce simp: lists_ok_def env_ex_def)
  moreover have "bs_br sent_ex 1 = Some ?b" "bs_wk sent_ex = []" "1 \<notin> set (bs_nbset sent_ex)"
      "1 \<notin> set (lc_remove env_ex 1 (batchrqs_delayed sent_ex))" "\<forall>r. r \<noteq> br_res ?b \<longrightarrow> 1 \<notin> set (rpmi_batchrqs sent_ex r)"
    by (simp_all add: sent_ex_def new_batch_def batch_create_def br_upd_def batch_empty_def env_ex_def Let_def)
  ultimately show ?thesis
    using batch_refused_stays [of env_ex sent_ex "live_ents sent_ex + done_ents sent_ex" 1 ?b "- 5"] by simp blast
qed

end
