(* ===== verification/Bandwidth.thy ===== *)
theory Bandwidth
  imports Inode Opt_Wp Transition "HOL-Library.Multiset"
begin

text \<open>
  Bandwidth that the metadata server reserves for transfers between I/O servers
  (\<open>resmpair_bw_adj\<close> of \<open>slashd/repl_mds.c\<close>) and the reports of the I/O servers that
  replace its estimate (\<open>slm_rpc_ion_unpack_statfs\<close> of \<open>slashd/rpc_mds.c\<close>). The
  accounts of the resources are a function of the resource identifier. Amounts are in units of
  4 KiB; the counters of 32 bits are integers, since an overflow of a signed counter has no
  meaning in C.
\<close>

subsection \<open>Data\<close>

record bw_dir =
  bwd_queued :: int
  bwd_inflight :: int
  bwd_assigned :: int

record rpmi_bw =
  si_bw_ingress :: bw_dir
  si_bw_egress :: bw_dir
  si_bw_aggr :: bw_dir

type_synonym bw_table = "u32 \<Rightarrow> rpmi_bw"

abbreviation (input) BW_UNITSZ :: int where "BW_UNITSZ \<equiv> 4096"

subsection \<open>Reserving and releasing\<close>

definition HAS_BW :: "int \<Rightarrow> bw_dir \<Rightarrow> bool" where
  "HAS_BW slm_bwqueuesz d \<longleftrightarrow> bwd_queued d + bwd_inflight d < slm_bwqueuesz"

definition ADJ_BW :: "int \<Rightarrow> bw_dir \<Rightarrow> bw_dir option" where
  "ADJ_BW amt d = do {
     let d = (if amt > 0 then d\<lparr>bwd_inflight := bwd_inflight d + amt\<rparr> else d);
     let d = d\<lparr>bwd_assigned := bwd_assigned d + amt\<rparr>;
     psc_assert (bwd_assigned d \<ge> 0);
     Some d
   }"

definition adj_egress :: "int \<Rightarrow> u32 \<Rightarrow> bw_table \<Rightarrow> bw_table option" where
  "adj_egress amt r t = do {
     d \<leftarrow> ADJ_BW amt (si_bw_egress (t r));
     Some (t(r := (t r)\<lparr>si_bw_egress := d\<rparr>))
   }"

definition adj_ingress :: "int \<Rightarrow> u32 \<Rightarrow> bw_table \<Rightarrow> bw_table option" where
  "adj_ingress amt r t = do {
     d \<leftarrow> ADJ_BW amt (si_bw_ingress (t r));
     Some (t(r := (t r)\<lparr>si_bw_ingress := d\<rparr>))
   }"

definition adj_aggr :: "int \<Rightarrow> u32 \<Rightarrow> bw_table \<Rightarrow> bw_table option" where
  "adj_aggr amt r t = do {
     d \<leftarrow> ADJ_BW amt (si_bw_aggr (t r));
     Some (t(r := (t r)\<lparr>si_bw_aggr := d\<rparr>))
   }"

definition bw_units :: "int \<Rightarrow> int" where
  "bw_units amt_bytes = (if amt_bytes \<ge> 0 then 1 else - 1) * ((\<bar>amt_bytes\<bar> + (BW_UNITSZ - 1)) div BW_UNITSZ)"

definition pair_has_bw :: "int \<Rightarrow> u32 \<Rightarrow> u32 \<Rightarrow> bw_table \<Rightarrow> bool" where
  "pair_has_bw qsz src dst t \<longleftrightarrow>
     HAS_BW qsz (si_bw_egress (t src)) \<and> HAS_BW qsz (si_bw_aggr (t src)) \<and>
     HAS_BW qsz (si_bw_ingress (t dst)) \<and> HAS_BW qsz (si_bw_aggr (t dst))"

text \<open>The return code, the value of \<open>moreavail\<close> and the accounts.\<close>

definition resmpair_bw_adj ::
    "int \<Rightarrow> u32 \<Rightarrow> u32 \<Rightarrow> int \<Rightarrow> bw_table \<Rightarrow> (bool \<times> bool \<times> bw_table) option" where
  "resmpair_bw_adj qsz src dst amt_bytes t =
     (let amt = bw_units amt_bytes in
      if amt < 0 \<or> pair_has_bw qsz src dst t
      then do {
        t \<leftarrow> adj_egress amt src t;
        t \<leftarrow> adj_aggr amt src t;
        t \<leftarrow> adj_ingress amt dst t;
        t \<leftarrow> adj_aggr amt dst t;
        Some (True, pair_has_bw qsz src dst t, t)
      }
      else Some (False, False, t))"

text \<open>
  A report of an I/O server: the size of a file system fragment and the queued amounts. The
  search by network address stops the server when the address is not configured, so the test
  for an unknown peer that follows it is never reached.
\<close>

definition slm_rpc_ion_unpack_statfs ::
    "sl_config \<Rightarrow> u64 \<Rightarrow> (nat \<times> int \<times> int \<times> int) option \<Rightarrow> bw_table \<Rightarrow> bw_table option" where
  "slm_rpc_ion_unpack_statfs cf nid data t = (case data of None \<Rightarrow> Some t
     | Some (frsize, ingress, egress, aggr) \<Rightarrow> do {
         m \<leftarrow> libsl_nid2resm cf nid;
         let r = resm_res_id m;
         Some (if frsize = 0 then t
           else t(r := \<lparr>si_bw_ingress = (si_bw_ingress (t r))\<lparr>bwd_inflight := 0, bwd_queued := ingress\<rparr>,
                        si_bw_egress = (si_bw_egress (t r))\<lparr>bwd_inflight := 0, bwd_queued := egress\<rparr>,
                        si_bw_aggr = (si_bw_aggr (t r))\<lparr>bwd_inflight := 0, bwd_queued := aggr\<rparr>\<rparr>))
       })"

subsection \<open>Steps\<close>

text \<open>
  The second component of a state collects the reservations that were granted and not released:
  source, destination and bytes. A transfer moves at most one bmap between two resources, and
  the reported amounts are not negative.
\<close>

type_synonym bw_state = "bw_table \<times> (u32 \<times> u32 \<times> int) multiset"

inductive bw_step :: "sl_config \<Rightarrow> int \<Rightarrow> bw_state \<Rightarrow> bw_state \<Rightarrow> bool" for cf qsz where
  reserve: "resmpair_bw_adj qsz src dst n t = Some (ok, avail, t') \<Longrightarrow> src \<noteq> dst \<Longrightarrow>
    0 < n \<Longrightarrow> n \<le> int SLASH_BMAP_SIZE \<Longrightarrow>
    bw_step cf qsz (t, R) (t', if ok then add_mset (src, dst, n) R else R)"
| release: "resmpair_bw_adj qsz src dst (- n) t = Some (ok, avail, t') \<Longrightarrow> (src, dst, n) \<in># R \<Longrightarrow>
    bw_step cf qsz (t, R) (t', R - {#(src, dst, n)#})"
| report: "slm_rpc_ion_unpack_statfs cf nid (Some (frsize, i, e, a)) t = Some t' \<Longrightarrow> 0 \<le> i \<Longrightarrow> 0 \<le> e \<Longrightarrow> 0 \<le> a \<Longrightarrow>
    bw_step cf qsz (t, R) (t', R)"

definition bw_zero :: bw_table where
  "bw_zero = (\<lambda>_. let d = \<lparr>bwd_queued = 0, bwd_inflight = 0, bwd_assigned = 0\<rparr>
     in \<lparr>si_bw_ingress = d, si_bw_egress = d, si_bw_aggr = d\<rparr>)"

definition bw_init :: "bw_state \<Rightarrow> bool" where
  "bw_init = (\<lambda>(t, R). R = {#} \<and> t = bw_zero)"

subsection \<open>The invariant\<close>

definition out_of :: "(u32 \<times> u32 \<times> int) multiset \<Rightarrow> u32 \<Rightarrow> int" where
  "out_of R r = (\<Sum>(s, d, n) \<in># R. if s = r then bw_units n else 0)"

definition into :: "(u32 \<times> u32 \<times> int) multiset \<Rightarrow> u32 \<Rightarrow> int" where
  "into R r = (\<Sum>(s, d, n) \<in># R. if d = r then bw_units n else 0)"

definition dir_ok :: "int \<Rightarrow> int \<Rightarrow> bw_dir \<Rightarrow> bool" where
  "dir_ok qsz a d \<longleftrightarrow> bwd_assigned d = a \<and> 0 \<le> bwd_queued d \<and> bwd_inflight d < qsz + 32768"

definition bw_inv :: "int \<Rightarrow> bw_state \<Rightarrow> bool" where
  "bw_inv qsz = (\<lambda>(t, R). (\<forall>(s, d, n) \<in># R. s \<noteq> d \<and> 0 < n) \<and>
     (\<forall>r. dir_ok qsz (out_of R r) (si_bw_egress (t r)) \<and> dir_ok qsz (into R r) (si_bw_ingress (t r)) \<and>
          dir_ok qsz (out_of R r + into R r) (si_bw_aggr (t r))))"

lemma bw_units_bounds:
  "0 < n \<Longrightarrow> 0 < bw_units n" "0 < n \<Longrightarrow> n \<le> int SLASH_BMAP_SIZE \<Longrightarrow> bw_units n \<le> 32768"
  "0 < n \<Longrightarrow> bw_units (- n) = - bw_units n"
  by (simp_all add: bw_units_def)

lemma out_simps [simp]:
  "out_of {#} r = 0" "into {#} r = 0"
  "out_of (add_mset (s, d, n) R) r = out_of R r + (if s = r then bw_units n else 0)"
  "into (add_mset (s, d, n) R) r = into R r + (if d = r then bw_units n else 0)"
  by (simp_all add: out_of_def into_def)

lemma out_nonneg:
  assumes "\<forall>(s, d, n) \<in># R. s \<noteq> d \<and> 0 < n"
  shows "0 \<le> out_of R r" "0 \<le> into R r"
  using assms by (induction R) (auto dest: bw_units_bounds(1))

text \<open>An adjustment that keeps the assigned amounts from getting negative is made.\<close>

lemma ADJ_BW_Some:
  "0 \<le> bwd_assigned d + a \<Longrightarrow> ADJ_BW a d =
     Some (d\<lparr>bwd_inflight := bwd_inflight d + max a 0, bwd_assigned := bwd_assigned d + a\<rparr>)"
  by (simp add: ADJ_BW_def Let_def)

definition adj_dir :: "int \<Rightarrow> bw_dir \<Rightarrow> bw_dir" where
  "adj_dir a d = d\<lparr>bwd_inflight := bwd_inflight d + max a 0, bwd_assigned := bwd_assigned d + a\<rparr>"

lemma bw_adj_made:
  assumes ne: "src \<noteq> dst"
    and nn: "0 \<le> bwd_assigned (si_bw_egress (t src)) + a" "0 \<le> bwd_assigned (si_bw_aggr (t src)) + a"
      "0 \<le> bwd_assigned (si_bw_ingress (t dst)) + a" "0 \<le> bwd_assigned (si_bw_aggr (t dst)) + a"
    and a: "a = bw_units n" and go: "a < 0 \<or> pair_has_bw qsz src dst t"
  shows "\<exists>avail t'. resmpair_bw_adj qsz src dst n t = Some (True, avail, t') \<and>
    (\<forall>r. si_bw_egress (t' r) = (if r = src then adj_dir a else id) (si_bw_egress (t r)) \<and>
         si_bw_ingress (t' r) = (if r = dst then adj_dir a else id) (si_bw_ingress (t r)) \<and>
         si_bw_aggr (t' r) = (if r = src \<or> r = dst then adj_dir a else id) (si_bw_aggr (t r)))"
  using assms
  by (auto simp: resmpair_bw_adj_def adj_egress_def adj_ingress_def adj_aggr_def ADJ_BW_Some adj_dir_def Let_def)

lemma dir_ok_adj:
  "dir_ok qsz x d \<Longrightarrow> 0 \<le> a \<Longrightarrow> a \<le> 32768 \<Longrightarrow> HAS_BW qsz d \<Longrightarrow> dir_ok qsz (x + a) (adj_dir a d)"
  "dir_ok qsz x d \<Longrightarrow> a \<le> 0 \<Longrightarrow> dir_ok qsz (x + a) (adj_dir a d)"
  by (auto simp: dir_ok_def adj_dir_def HAS_BW_def)

lemma reserve_runs:
  assumes inv: "bw_inv qsz (t, R)" and n: "0 < n" "src \<noteq> dst"
  shows "\<exists>avail t'. resmpair_bw_adj qsz src dst n t = Some (pair_has_bw qsz src dst t, avail, t') \<and>
    (\<not> pair_has_bw qsz src dst t \<longrightarrow> t' = t) \<and>
    (n \<le> int SLASH_BMAP_SIZE \<longrightarrow> pair_has_bw qsz src dst t \<longrightarrow> bw_inv qsz (t', add_mset (src, dst, n) R))"
proof (cases "pair_has_bw qsz src dst t")
  case True
  let ?a = "bw_units n"
  have R: "\<forall>(s, d, n) \<in># R. s \<noteq> d \<and> 0 < n" and ok: "dir_ok qsz (out_of R r) (si_bw_egress (t r))"
    "dir_ok qsz (into R r) (si_bw_ingress (t r))" "dir_ok qsz (out_of R r + into R r) (si_bw_aggr (t r))" for r
    using inv by (simp_all add: bw_inv_def)
  have a: "0 < ?a" using n(1) by (rule bw_units_bounds)
  have nn: "0 \<le> bwd_assigned (si_bw_egress (t r)) + ?a" "0 \<le> bwd_assigned (si_bw_ingress (t r)) + ?a"
    "0 \<le> bwd_assigned (si_bw_aggr (t r)) + ?a" for r
    using ok [of r] out_nonneg [OF R, of r] a by (simp_all add: dir_ok_def)
  obtain avail t' where r: "resmpair_bw_adj qsz src dst n t = Some (True, avail, t')"
    and all: "\<forall>r. si_bw_egress (t' r) = (if r = src then adj_dir ?a else id) (si_bw_egress (t r)) \<and>
         si_bw_ingress (t' r) = (if r = dst then adj_dir ?a else id) (si_bw_ingress (t r)) \<and>
         si_bw_aggr (t' r) = (if r = src \<or> r = dst then adj_dir ?a else id) (si_bw_aggr (t r))"
    using bw_adj_made [OF n(2) nn(1,3,2,3) refl disjI2 [OF True]] by (elim exE conjE)
  note t' = all [rule_format]
  have h: "HAS_BW qsz (si_bw_egress (t src))" "HAS_BW qsz (si_bw_aggr (t src))"
    "HAS_BW qsz (si_bw_ingress (t dst))" "HAS_BW qsz (si_bw_aggr (t dst))"
    using True by (simp_all add: pair_has_bw_def)
  have "bw_inv qsz (t', add_mset (src, dst, n) R)" if "n \<le> int SLASH_BMAP_SIZE"
  proof -
    have a': "?a \<le> 32768" "0 \<le> ?a" using bw_units_bounds(2) [OF n(1) that] a by simp_all
    have e: "\<forall>r. dir_ok qsz (out_of (add_mset (src, dst, n) R) r) (si_bw_egress (t' r))"
      using dir_ok_adj(1) [OF ok(1) a'(2,1)] h ok(1) by (auto simp: t')
    have i: "\<forall>r. dir_ok qsz (into (add_mset (src, dst, n) R) r) (si_bw_ingress (t' r))"
      using dir_ok_adj(1) [OF ok(2) a'(2,1)] h ok(2) by (auto simp: t')
    have g: "dir_ok qsz (out_of R r + into R r + (if src = r \<or> dst = r then ?a else 0)) (si_bw_aggr (t' r))" for r
      using dir_ok_adj(1) [OF ok(3) a'(2,1)] h ok(3) by (auto simp: t')
    have "out_of R r + into R r + (if src = r \<or> dst = r then ?a else 0) =
        out_of (add_mset (src, dst, n) R) r + into (add_mset (src, dst, n) R) r" for r
      using n(2) by auto
    then have "\<forall>r. dir_ok qsz (out_of (add_mset (src, dst, n) R) r + into (add_mset (src, dst, n) R) r) (si_bw_aggr (t' r))"
      using g by (simp only:) simp
    moreover have "\<forall>(s, d, n) \<in># add_mset (src, dst, n) R. s \<noteq> d \<and> 0 < n" using R n by simp
    ultimately show ?thesis using e i by (simp only: bw_inv_def prod.case) simp
  qed
  then show ?thesis using r True by (intro exI [of _ avail] exI [of _ t']) simp
next
  case False
  then show ?thesis using bw_units_bounds(1) [OF n(1)] by (auto simp: resmpair_bw_adj_def Let_def)
qed

lemma release_runs:
  assumes inv: "bw_inv qsz (t, add_mset (src, dst, n) R)"
  shows "\<exists>avail t'. resmpair_bw_adj qsz src dst (- n) t = Some (True, avail, t') \<and> bw_inv qsz (t', R)"
proof -
  let ?a = "- bw_units n"
  have n: "0 < n" "src \<noteq> dst" and R: "\<forall>(s, d, n) \<in># R. s \<noteq> d \<and> 0 < n"
    and ok: "dir_ok qsz (out_of R r + (if src = r then bw_units n else 0)) (si_bw_egress (t r))"
    "dir_ok qsz (into R r + (if dst = r then bw_units n else 0)) (si_bw_ingress (t r))"
    "dir_ok qsz (out_of R r + (if src = r then bw_units n else 0) + (into R r + (if dst = r then bw_units n else 0)))
       (si_bw_aggr (t r))" for r
    using inv by (auto simp: bw_inv_def)
  have a: "bw_units (- n) = ?a" "?a < 0" using bw_units_bounds(1,3) [OF n(1)] by simp_all
  have nn: "0 \<le> bwd_assigned (si_bw_egress (t src)) + ?a" "0 \<le> bwd_assigned (si_bw_aggr (t src)) + ?a"
    "0 \<le> bwd_assigned (si_bw_ingress (t dst)) + ?a" "0 \<le> bwd_assigned (si_bw_aggr (t dst)) + ?a"
    using ok [of src] ok [of dst] out_nonneg [OF R, of src] out_nonneg [OF R, of dst] n(2)
    by (simp_all add: dir_ok_def)
  obtain avail t' where r: "resmpair_bw_adj qsz src dst (- n) t = Some (True, avail, t')"
    and all: "\<forall>r. si_bw_egress (t' r) = (if r = src then adj_dir ?a else id) (si_bw_egress (t r)) \<and>
         si_bw_ingress (t' r) = (if r = dst then adj_dir ?a else id) (si_bw_ingress (t r)) \<and>
         si_bw_aggr (t' r) = (if r = src \<or> r = dst then adj_dir ?a else id) (si_bw_aggr (t r))"
    using bw_adj_made [OF n(2) nn a(1) [symmetric] disjI1 [OF a(2)], of qsz] by (elim exE conjE)
  note t' = all [rule_format]
  have le: "?a \<le> 0" using a(2) by simp
  have "dir_ok qsz (out_of R r) (si_bw_egress (t' r))" for r
    using dir_ok_adj(2) [OF ok(1) [of r] le] ok(1) [of r] by (auto simp: t')
  moreover have "dir_ok qsz (into R r) (si_bw_ingress (t' r))" for r
    using dir_ok_adj(2) [OF ok(2) [of r] le] ok(2) [of r] by (auto simp: t')
  moreover have "dir_ok qsz (out_of R r + into R r) (si_bw_aggr (t' r))" for r
    using dir_ok_adj(2) [OF ok(3) [of r] le] ok(3) [of r] n(2)
    by (cases "src = r"; cases "dst = r") (auto simp: t')
  ultimately have "bw_inv qsz (t', R)" using R by (simp add: bw_inv_def)
  then show ?thesis using r by blast
qed

lemma report_inv:
  assumes "bw_inv qsz (t, R)" "slm_rpc_ion_unpack_statfs cf nid (Some (fr, i, e, a)) t = Some t'"
    "0 \<le> i" "0 \<le> e" "0 \<le> a" "0 \<le> qsz"
  shows "bw_inv qsz (t', R)"
proof -
  obtain m where "libsl_nid2resm cf nid = Some m"
    using assms(2) by (cases "libsl_nid2resm cf nid") (simp_all add: slm_rpc_ion_unpack_statfs_def)
  then show ?thesis
    using assms by (auto simp: slm_rpc_ion_unpack_statfs_def bw_inv_def dir_ok_def Let_def split: if_splits)
qed

lemma bw_step_inv: "bw_inv qsz p \<Longrightarrow> 0 \<le> qsz \<Longrightarrow> bw_step cf qsz p q \<Longrightarrow> bw_inv qsz q"
proof (erule bw_step.cases)
  fix src dst n t ok avail t' R
  assume "bw_inv qsz p" "p = (t, R)" "q = (t', if ok then add_mset (src, dst, n) R else R)"
    "resmpair_bw_adj qsz src dst n t = Some (ok, avail, t')" "src \<noteq> dst" "0 < n" "n \<le> int SLASH_BMAP_SIZE"
  then show "bw_inv qsz q" using reserve_runs [of qsz t R n src dst] by auto
next
  fix src dst n t ok avail t' R
  assume "bw_inv qsz p" "p = (t, R)" "q = (t', R - {#(src, dst, n)#})"
    "resmpair_bw_adj qsz src dst (- n) t = Some (ok, avail, t')" "(src, dst, n) \<in># R"
  then show "bw_inv qsz q" using release_runs [of qsz t src dst n "R - {#(src, dst, n)#}"] by auto
qed (auto intro: report_inv)

lemma bw_init_inv: "bw_init p \<Longrightarrow> 0 \<le> qsz \<Longrightarrow> bw_inv qsz p"
  by (auto simp: bw_init_def bw_inv_def dir_ok_def bw_zero_def Let_def)

text \<open>The size of the queue is a setting; a negative one is taken as 0 here.\<close>

interpretation bandwidth: safe_system bw_init "bw_step cf (max 0 qsz)" "bw_inv (max 0 qsz)" for cf qsz
  by unfold_locales (auto intro: bw_init_inv bw_step_inv)

subsection \<open>Properties\<close>


definition cf_bw_ex :: sl_config where
  "cf_bw_ex = \<lparr>gconf_sites = [], gconf_res_hashtbl = Map.empty\<rparr>"


end
