(* ===== verification/Upsch.thy ===== *)
theory Upsch
  imports Resm_Select Batch Bandwidth
begin

text \<open>
  The update scheduler of the metadata server (\<open>slashd/up_sched_res.c\<close>): replication of
  queued replicas, truncation and reclaim of garbage for one bmap, the callbacks of the batched
  requests it sends, and the work read from its table.

  A state holds the bmap at hand with its file, whether a write lease is out, the bandwidth
  accounts, the batches, the membership of the bmap's update in the queues of the resources,
  which resources do not support reclaim, and the truncation requests that were sent. The record
  of the environment has the connections, which stay as they are while a bmap is processed, the
  codes of the RPC layer and the orders in which the random iterators of PFL visit the replicas.
  Wake-ups and statistics are not represented; a statement on the scheduler's table and a request
  for more work are events.
\<close>

subsection \<open>Data\<close>

record srt_replwk_reqent =
  pe_fid :: u64
  pe_bno :: nat
  pe_bgen :: u32
  pe_src_resid :: u32
  pe_len :: nat

record slm_batchscratch_repl =
  bsr_amt :: nat
  bsr_off :: nat

record srt_preclaim_reqent =
  pr_fid :: u64
  pr_bno :: nat
  pr_bgen :: u32

datatype batch_ent = BeRepl srt_replwk_reqent slm_batchscratch_repl | BePreclaim srt_preclaim_reqent

record srm_bmap_ptrunc_req =
  pt_dst :: u32
  pt_fid :: u64
  pt_bmapno :: nat
  pt_bgen :: u32
  pt_offset :: nat

record 'm upsch_env =
  ue_be :: "'m bmenv"
  ue_ie :: ios_env
  ue_ba :: batch_env
  slm_bwqueuesz :: int
  PFLERR_NOTSUP :: int
  resm_getcsvcerr :: "u32 \<Rightarrow> int"
  ue_newreq_rc :: "u32 \<Rightarrow> batch_ent \<Rightarrow> int"
  ue_send_rc :: int
  ue_ptrunc_newreq_rc :: "u32 \<Rightarrow> int"
  ue_nbrqset_rc :: "u32 \<Rightarrow> int"
  ue_now :: nat
  ue_dst_order :: "nat list"
  ue_src_order :: "nat \<Rightarrow> nat \<Rightarrow> nat list"

record 'm upst =
  us_m :: "'m mst"
  us_wr_ion :: bool
  us_bw :: bw_table
  us_bs :: "batch_ent batchst"
  us_rpmi_upschq :: "u32 \<Rightarrow> bool"
  us_preclaim_notsup :: "u32 \<Rightarrow> bool"
  us_ptrunc :: "srm_bmap_ptrunc_req list"

abbreviation us_st :: "'m upst \<Rightarrow> nat \<Rightarrow> nat" where
  "us_st s k \<equiv> repl_st (bmi_repls (mb (us_m s))) k"

abbreviation (input) ENODEV :: int where "ENODEV \<equiv> 19"
abbreviation (input) ENODATA :: int where "ENODATA \<equiv> 61"

definition res_getmemb :: "sl_resource \<Rightarrow> sl_resm option" where
  "res_getmemb r = (case res_members r of [] \<Rightarrow> None | m # _ \<Rightarrow> Some m)"

definition us_event :: "mds_event \<Rightarrow> 'm upst \<Rightarrow> 'm upst" where
  "us_event e s = s\<lparr>us_m := (us_m s)\<lparr>mev := mev (us_m s) @ [e]\<rparr>\<rparr>"

definition us_upsch_status :: "u32 \<Rightarrow> upsch_stat \<Rightarrow> 'm upst \<Rightarrow> 'm upst" where
  "us_upsch_status r st s = us_event (EvUpschUpdate (bcm_bmapno (mb (us_m s))) r st (- 1) (- 1)) s"

text \<open>The macro \<open>mds_repl_bmap_apply\<close> of \<open>slashd/repl_mds.h\<close>, and a reference for the scheduler.\<close>

definition bmap_apply :: "int list \<Rightarrow> int list option \<Rightarrow> nat \<Rightarrow> 'm upst \<Rightarrow> (int \<times> 'm upst) option" where
  "bmap_apply tract retifset off s = do {
     (rc, _, m, _) \<leftarrow> mds_repl_bmap_apply (Some tract) retifset 0 off False None (us_m s, ());
     Some (rc, s\<lparr>us_m := m\<rparr>)
   }"

definition us_op_start :: "'m upst \<Rightarrow> 'm upst" where
  "us_op_start s = s\<lparr>us_m := (us_m s)\<lparr>mb := (mb (us_m s))\<lparr>bcm_opcnt := bcm_opcnt (mb (us_m s)) + 1\<rparr>\<rparr>\<rparr>"

definition us_op_done :: "'m upst \<Rightarrow> 'm upst option" where
  "us_op_done s = do { m \<leftarrow> bmap_op_done (us_m s); Some (s\<lparr>us_m := m\<rparr>) }"

definition us_bmap_rel :: "'m upst \<Rightarrow> 'm upst option" where
  "us_bmap_rel s = do { m \<leftarrow> slm_repl_bmap_rel (us_m s); Some (s\<lparr>us_m := m\<rparr>) }"

definition us_write_logrepls :: "'m bmenv \<Rightarrow> 'm upst \<Rightarrow> (int \<times> 'm upst) option" where
  "us_write_logrepls be s = do { (rc, m) \<leftarrow> mds_bmap_write be Log_Repls (us_m s); Some (rc, s\<lparr>us_m := m\<rparr>) }"

definition us_bw_adj :: "'m upsch_env \<Rightarrow> sl_resm \<Rightarrow> sl_resm \<Rightarrow> int \<Rightarrow> 'm upst \<Rightarrow> (bool \<times> bool \<times> 'm upst) option" where
  "us_bw_adj ue src dst amt s = do {
     (ok, avail, t) \<leftarrow> resmpair_bw_adj (slm_bwqueuesz ue) (resm_res_id src) (resm_res_id dst) amt (us_bw s);
     Some (ok, avail, s\<lparr>us_bw := t\<rparr>)
   }"

definition us_batchrq_add :: "'m upsch_env \<Rightarrow> u32 \<Rightarrow> nat \<Rightarrow> batch_ent \<Rightarrow> nat \<Rightarrow> nat \<Rightarrow> 'm upst \<Rightarrow> (int \<times> 'm upst) option" where
  "us_batchrq_add ue r opc e len expire s = do {
     (rc, bs) \<leftarrow> batchrq_add (ue_ba ue) r opc e len (ue_now ue + expire) (ue_newreq_rc ue r e) (ue_send_rc ue) (us_bs s);
     Some (rc, s\<lparr>us_bs := bs\<rparr>)
   }"

subsection \<open>The queues of the resources\<close>

definition upd_rpmi_add :: "u32 \<Rightarrow> 'm upst \<Rightarrow> 'm upst" where
  "upd_rpmi_add r s =
     (if us_rpmi_upschq s r then s else us_op_start (s\<lparr>us_rpmi_upschq := (us_rpmi_upschq s)(r := True)\<rparr>))"

definition upd_rpmi_remove :: "u32 \<Rightarrow> 'm upst \<Rightarrow> 'm upst option" where
  "upd_rpmi_remove r s =
     (if us_rpmi_upschq s r then us_op_done (s\<lparr>us_rpmi_upschq := (us_rpmi_upschq s)(r := False)\<rparr>) else Some s)"

subsection \<open>Replication\<close>

definition tryrepl_len :: "'m mst \<Rightarrow> nat option" where
  "tryrepl_len m =
     (let n = bcm_bmapno (mb m);
          lastbno = (if fcmh_nvalidbmaps (mf m) > 0 then fcmh_nvalidbmaps (mf m) - 1 else 0);
          fsz = fcmh_fsz (mf m);
          sz = (if fsz > n * SLASH_BMAP_SIZE then fsz - n * SLASH_BMAP_SIZE else fsz)
      in if n \<noteq> lastbno then Some SLASH_BMAP_SIZE
         else if sz = 0 then None else Some (min sz SLASH_BMAP_SIZE))"

definition tryrepl_fail ::
    "'m upsch_env \<Rightarrow> nat \<Rightarrow> sl_resm \<Rightarrow> sl_resm \<Rightarrow> nat \<Rightarrow> bool \<Rightarrow> 'm upst \<Rightarrow> (int \<times> 'm upst) option" where
  "tryrepl_fail ue off src dst amt chg s = do {
     s \<leftarrow> (if chg then do {
            (_, s) \<leftarrow> bmap_apply ((brepls_init (- 1))[BREPLST_REPL_SCHED := int BREPLST_REPL_QUEUED]) None off s;
            us_bmap_rel (us_op_start s)
          } else Some s);
     (_, _, s) \<leftarrow> us_bw_adj ue src dst (- int amt) s;
     Some (0, s)
   }"

text \<open>The entry of the batch: the replica is marked, and the mark is undone when the entry is refused.\<close>

definition tryrepl_sched ::
    "'m upsch_env \<Rightarrow> nat \<Rightarrow> sl_resm \<Rightarrow> sl_resm \<Rightarrow> u32 \<Rightarrow> nat \<Rightarrow> bool \<Rightarrow> nat \<Rightarrow> 'm upst \<Rightarrow> (int \<times> 'm upst) option" where
  "tryrepl_sched ue off src dst dst_id amt avail len s = do {
     let pe = \<lparr>pe_fid = fcmh_fid (mf (us_m s)), pe_bno = bcm_bmapno (mb (us_m s)),
               pe_bgen = bes_gen (mb (us_m s)), pe_src_resid = resm_res_id src, pe_len = len\<rparr>;
     (rc, s) \<leftarrow> bmap_apply ((brepls_init (- 1))[BREPLST_REPL_QUEUED := int BREPLST_REPL_SCHED])
                 (Some brepls_init_idx) off s;
     psc_assert (rc \<noteq> int BREPLST_VALID \<and> rc \<noteq> int BREPLST_REPL_SCHED);
     if rc \<noteq> int BREPLST_REPL_QUEUED then tryrepl_fail ue off src dst amt True s
     else do {
       (rc, s) \<leftarrow> us_batchrq_add ue dst_id SRMT_REPL_SCHEDWK (BeRepl pe \<lparr>bsr_amt = amt, bsr_off = off\<rparr>) 36 5
                   (us_upsch_status dst_id St_S s);
       if rc \<noteq> 0 then tryrepl_fail ue off src dst amt True (us_upsch_status dst_id St_Q s)
       else do {
         s \<leftarrow> us_bmap_rel (us_op_start s);
         Some (1, if avail then us_event (EvUpschPagein (resm_res_id dst)) s else s)
       }
     }
   }"

definition slm_upsch_tryrepl ::
    "'m upsch_env \<Rightarrow> nat \<Rightarrow> sl_resm \<Rightarrow> sl_resource \<Rightarrow> 'm upst \<Rightarrow> (int \<times> 'm upst) option" where
  "slm_upsch_tryrepl ue off src dst_res s = do {
     dst \<leftarrow> res_getmemb dst_res;
     let amt = slm_bmap_calc_repltraffic (us_m s);
     if amt = 0 then do {
       (_, s) \<leftarrow> bmap_apply ((brepls_init (- 1))[BREPLST_REPL_QUEUED := int BREPLST_VALID]) None off s;
       (_, s) \<leftarrow> us_write_logrepls (ue_be ue) s;
       Some (1, us_event (EvUpschPagein (resm_res_id dst)) s)
     } else do {
       (ok, avail, s) \<leftarrow> us_bw_adj ue src dst (int amt) s;
       if \<not> ok then Some (0, s)
       else if \<not> ios_csvc (ue_ie ue) (resm_res_id dst) then tryrepl_fail ue off src dst amt False s
       else (case tryrepl_len (us_m s) of None \<Rightarrow> tryrepl_fail ue off src dst amt False s
             | Some len \<Rightarrow> tryrepl_sched ue off src dst (res_id dst_res) amt avail len s)
     }
   }"

text \<open>
  The callback of a batch of replications, for one entry and the reply to it. \<open>bp\<close> is the
  code in the reply (None when there is no reply), \<open>inrange\<close> whether the reply reaches that
  far, and \<open>get_rc\<close> the code of looking up the file and the bmap. The code looks at a reply
  before it tests that there is one.
\<close>

definition repl_cb_rc :: "u32 \<Rightarrow> u32 \<Rightarrow> int option \<Rightarrow> int option" where
  "repl_cb_rc bgen rq_bgen bp = (case bp of None \<Rightarrow> None
     | Some rc \<Rightarrow> Some (if rc = 0 \<and> rq_bgen \<noteq> bgen then SLERR_GEN_OLD else rc))"

definition repl_cb_ok :: "int \<Rightarrow> int option \<Rightarrow> bool \<Rightarrow> bool" where
  "repl_cb_ok ecode bp inrange \<longleftrightarrow> ecode = 0 \<and> bp = Some 0 \<and> inrange"

definition repl_cb_tract :: "int \<Rightarrow> int option \<Rightarrow> bool \<Rightarrow> int list" where
  "repl_cb_tract ecode bp inrange =
     (if repl_cb_ok ecode bp inrange
      then (brepls_init (- 1))[BREPLST_REPL_SCHED := int BREPLST_VALID, BREPLST_REPL_QUEUED := int BREPLST_VALID]
      else (brepls_init (- 1))[BREPLST_REPL_SCHED :=
        (if bp = None \<or> bp = Some SLERR_ION_OFFLINE then int BREPLST_REPL_QUEUED else int BREPLST_GARBAGE)])"

definition repl_cb_retifset :: "int \<Rightarrow> int option \<Rightarrow> bool \<Rightarrow> int list" where
  "repl_cb_retifset ecode bp inrange =
     (brepls_init 0)[BREPLST_REPL_SCHED := 1, BREPLST_REPL_QUEUED := (if repl_cb_ok ecode bp inrange then 1 else 0)]"

definition slm_batch_repl_cb ::
    "'m upsch_env \<Rightarrow> sl_resource \<Rightarrow> int \<Rightarrow> int option \<Rightarrow> bool \<Rightarrow> int \<Rightarrow> srt_replwk_reqent \<Rightarrow> slm_batchscratch_repl \<Rightarrow>
     'm upst \<Rightarrow> 'm upst option" where
  "slm_batch_repl_cb ue bres ecode bp inrange get_rc pe bsr s = do {
     dst \<leftarrow> res_getmemb bres;
     src \<leftarrow> libsl_ios2resm (be_cf (ue_be ue)) (pe_src_resid pe);
     s \<leftarrow> (if get_rc \<noteq> 0 then Some s
          else do {
            let s = us_op_start s;
            let bp = repl_cb_rc (bes_gen (mb (us_m s))) (pe_bgen pe) bp;
            let s = (if \<not> repl_cb_ok ecode bp inrange \<and> (bp = None \<or> bp = Some SLERR_ION_OFFLINE)
                     then us_upsch_status (res_id bres) St_Q s else s);
            (rc, s) \<leftarrow> bmap_apply (repl_cb_tract ecode bp inrange) (Some (repl_cb_retifset ecode bp inrange)) (bsr_off bsr) s;
            s \<leftarrow> (if rc \<noteq> 0 then map_option snd (us_write_logrepls (ue_be ue) s) else Some s);
            us_bmap_rel s
          });
     (_, _, s) \<leftarrow> us_bw_adj ue src dst (- int (bsr_amt bsr)) s;
     Some (us_event (EvUpschPagein (resm_res_id dst)) s)
   }"

subsection \<open>Truncation\<close>

definition slm_upsch_finish_ptrunc :: "u32 \<Rightarrow> bool \<Rightarrow> int \<Rightarrow> nat \<Rightarrow> 'm upst \<Rightarrow> 'm upst option" where
  "slm_upsch_finish_ptrunc r has_b rc off s = do {
     s \<leftarrow> (if rc \<noteq> 0 \<and> has_b then do {
            (_, s) \<leftarrow> bmap_apply ((brepls_init (- 1))[BREPLST_TRUNCPNDG_SCHED := int BREPLST_TRUNCPNDG]) None off s;
            upd_rpmi_remove r s
          } else Some s);
     if has_b then us_op_done s else Some s
   }"

text \<open>
  The worker thread that handles the reply; \<open>busy\<close> says that another thread has the file. It
  gives the code for trying again.
\<close>

definition slm_upsch_wk_finish_ptrunc :: "bool \<Rightarrow> u32 \<Rightarrow> int \<Rightarrow> nat \<Rightarrow> 'm upst \<Rightarrow> (int \<times> 'm upst) option" where
  "slm_upsch_wk_finish_ptrunc busy r rc off s =
     (if busy then Some (1, s)
      else do {
        let s = s\<lparr>us_m := (us_m s)\<lparr>mf := (mf (us_m s))\<lparr>fcmh_busy := True\<rparr>\<rparr>\<rparr>;
        s \<leftarrow> slm_upsch_finish_ptrunc r True rc off s;
        Some (0, s\<lparr>us_m := (us_m s)\<lparr>mf := (mf (us_m s))\<lparr>fcmh_busy := False\<rparr>\<rparr>\<rparr>)
      })"

definition slm_upsch_tryptrunc ::
    "'m upsch_env \<Rightarrow> nat \<Rightarrow> sl_resource \<Rightarrow> 'm upst \<Rightarrow> (int \<times> 'm upst) option" where
  "slm_upsch_tryptrunc ue off dst_res s = do {
     dst \<leftarrow> res_getmemb dst_res;
     let r = resm_res_id dst;
     (rc, m, _) \<leftarrow> mds_repl_bmap_walk None (Some ((brepls_init 0)[BREPLST_TRUNCPNDG_SCHED := 1]))
                     REPL_WALKF_SCIRCUIT [] None (us_m s, ());
     let s = s\<lparr>us_m := m\<rparr>;
     if rc \<noteq> 0 then Some (- 1, s)
     else do {
       let rc = (if \<not> ios_csvc (ue_ie ue) r then resm_getcsvcerr ue r else ue_ptrunc_newreq_rc ue r);
       if \<not> ios_csvc (ue_ie ue) r \<or> rc \<noteq> 0
       then do { s \<leftarrow> slm_upsch_finish_ptrunc r False rc off s; Some (0, s) }
       else do {
         let mq = \<lparr>pt_dst = r, pt_fid = fcmh_fid (mf m), pt_bmapno = bcm_bmapno (mb m), pt_bgen = bes_gen (mb m),
                   pt_offset = fcmh_fsz (mf m) mod SLASH_BMAP_SIZE\<rparr>;
         (rc, s) \<leftarrow> bmap_apply ((brepls_init (- 1))[BREPLST_TRUNCPNDG := int BREPLST_TRUNCPNDG_SCHED])
                     (Some brepls_init_idx) off s;
         if rc \<noteq> int BREPLST_TRUNCPNDG
         then do { s \<leftarrow> slm_upsch_finish_ptrunc r False (- ENODEV) off s; Some (0, s) }
         else do {
           let s = upd_rpmi_add r (us_op_start s);
           let rc = ue_nbrqset_rc ue r;
           if rc = 0 then do {
             s \<leftarrow> us_bmap_rel (us_op_start (s\<lparr>us_ptrunc := us_ptrunc s @ [mq]\<rparr>));
             Some (1, s)
           } else do { s \<leftarrow> slm_upsch_finish_ptrunc r True rc off s; Some (0, s) }
         }
       }
     }
   }"

subsection \<open>Reclaim\<close>

text \<open>
  The callback for one entry. A failed lookup gives a positive code, which the test lets pass, and
  leaves the negative code as the index; the table is then accessed outside of its bounds, which
  counts as an aborted process.
\<close>

definition slm_batch_preclaim_cb ::
    "'m upsch_env \<Rightarrow> sl_resource \<Rightarrow> int \<Rightarrow> int \<Rightarrow> 'm upst \<Rightarrow> 'm upst option" where
  "slm_batch_preclaim_cb ue bres rc get_rc s = do {
     let be = ue_be ue;
     let s = (if rc = - PFLERR_NOTSUP ue
              then s\<lparr>us_preclaim_notsup := (us_preclaim_notsup s)(res_id bres := True)\<rparr> else s);
     let tract = (brepls_init (- 1))[BREPLST_GARBAGE_SCHED := int (if rc \<noteq> 0 then BREPLST_GARBAGE else BREPLST_INVALID)];
     if get_rc \<noteq> 0 then Some s
     else do {
       let s = us_op_start s;
       (rc, idx, ih) \<leftarrow> mds_repl_iosv_lookup (be_env be) (be_cf be) (fcmh_inoh (mf (us_m s))) [res_id bres] 0;
       let s = s\<lparr>us_m := (us_m s)\<lparr>mf := (mf (us_m s))\<lparr>fcmh_inoh := ih\<rparr>\<rparr>\<rparr>;
       s \<leftarrow> (if rc \<ge> 0 then do {
              psc_assert (idx \<noteq> []);
              (_, m, _) \<leftarrow> mds_repl_bmap_walk (Some tract) None 0 idx None (us_m s, ());
              map_option snd (us_write_logrepls be (s\<lparr>us_m := m\<rparr>))
            } else Some s);
       us_op_done s
     }
   }"

definition slm_upsch_trypreclaim ::
    "'m upsch_env \<Rightarrow> sl_resource \<Rightarrow> nat \<Rightarrow> 'm upst \<Rightarrow> (int \<times> 'm upst) option" where
  "slm_upsch_trypreclaim ue r off s =
     (if us_preclaim_notsup s (res_id r) then Some (0, s)
      else do {
        m \<leftarrow> res_getmemb r;
        if \<not> ios_csvc (ue_ie ue) (resm_res_id m)
        then Some (if resm_getcsvcerr ue (resm_res_id m) \<noteq> 0 then 0 else 1, s)
        else do {
          let pe = \<lparr>pr_fid = fcmh_fid (mf (us_m s)), pr_bno = bcm_bmapno (mb (us_m s)), pr_bgen = bes_gen (mb (us_m s))\<rparr>;
          (rc, s) \<leftarrow> us_batchrq_add ue (res_id r) SRMT_PRECLAIM (BePreclaim pe) 32 30 s;
          if rc \<noteq> 0 then Some (0, s)
          else do {
            (_, s) \<leftarrow> bmap_apply ((brepls_init (- 1))[BREPLST_GARBAGE := int BREPLST_GARBAGE_SCHED])
                       (Some brepls_init_idx) off s;
            (rc, s) \<leftarrow> us_write_logrepls (ue_be ue) s;
            Some (if rc \<noteq> 0 then 0 else 1, s)
          }
        }
      })"

subsection \<open>Processing a bmap\<close>

text \<open>
  The search for a source in one pass over the replicas. The result says whether the caller
  returns at once; the second component is \<open>valid_exists\<close>.
\<close>

fun upd_src_loop ::
    "'m upsch_env \<Rightarrow> nat \<Rightarrow> sl_resource \<Rightarrow> nat \<Rightarrow> nat list \<Rightarrow> bool \<Rightarrow> 'm upst \<Rightarrow> (bool \<times> bool \<times> 'm upst) option" where
  "upd_src_loop ue d dst_res pass [] valid s = Some (False, valid, s)"
| "upd_src_loop ue d dst_res pass (i # is) valid s =
     (if i = d then upd_src_loop ue d dst_res pass is valid s
      else do {
        ios \<leftarrow> fcmh_getrepl (fcmh_inoh (mf (us_m s))) i;
        case libsl_id2res (be_cf (ue_be ue)) ios of None \<Rightarrow> upd_src_loop ue d dst_res pass is valid s
        | Some r \<Rightarrow>
            if SL_REPL_GET_BMAP_IOS_STAT (bmi_repls (mb (us_m s))) (i * SL_BITS_PER_REPLICA) \<noteq> BREPLST_VALID
            then upd_src_loop ue d dst_res pass is valid s
            else if (pass = 1) \<noteq> (res_type r = SLREST_ARCHIVAL_FS \<or> si_lease_disabled (ue_ie ue) (res_id r))
            then upd_src_loop ue d dst_res pass is True s
            else do {
              m \<leftarrow> res_getmemb r;
              if \<not> ios_csvc (ue_ie ue) (resm_res_id m) then upd_src_loop ue d dst_res pass is True s
              else do {
                (rc, s) \<leftarrow> slm_upsch_tryrepl ue (d * SL_BITS_PER_REPLICA) m dst_res s;
                if rc \<noteq> 0 then Some (True, True, s) else upd_src_loop ue d dst_res pass is True s
              }
            }
      })"

definition upd_proc_queued ::
    "'m upsch_env \<Rightarrow> nat \<Rightarrow> sl_resource \<Rightarrow> bool \<Rightarrow> 'm upst \<Rightarrow> (bool \<times> bool \<times> 'm upst) option" where
  "upd_proc_queued ue d dst_res valid s =
     (if us_wr_ion s then Some (False, valid, s)
      else do {
        (ret, valid, s) \<leftarrow> upd_src_loop ue d dst_res 0 (ue_src_order ue d 0) valid s;
        if ret then Some (True, valid, s)
        else do {
          (ret, valid, s) \<leftarrow> upd_src_loop ue d dst_res 1 (ue_src_order ue d 1) valid s;
          if ret then Some (True, valid, s)
          else if \<not> valid then do {
            (rc, s) \<leftarrow> bmap_apply ((brepls_init (- 1))[BREPLST_REPL_QUEUED := int BREPLST_GARBAGE])
                        (Some ((brepls_init 0)[BREPLST_REPL_QUEUED := 1])) (d * SL_BITS_PER_REPLICA) s;
            if rc \<noteq> 0 then do { (_, s) \<leftarrow> us_write_logrepls (ue_be ue) s; Some (True, valid, s) }
            else Some (False, valid, s)
          }
          else Some (False, valid, s)
        }
      })"

fun upd_dst_loop :: "'m upsch_env \<Rightarrow> nat list \<Rightarrow> bool \<Rightarrow> 'm upst \<Rightarrow> (bool \<times> 'm upst) option" where
  "upd_dst_loop ue [] valid s = Some (False, s)"
| "upd_dst_loop ue (d # ds) valid s = do {
     (iosid, ih) \<leftarrow> fcmh_2_repl (be_env (ue_be ue)) (fcmh_inoh (mf (us_m s))) d;
     let s = s\<lparr>us_m := (us_m s)\<lparr>mf := (mf (us_m s))\<lparr>fcmh_inoh := ih\<rparr>\<rparr>\<rparr>;
     case libsl_id2res (be_cf (ue_be ue)) iosid of None \<Rightarrow> upd_dst_loop ue ds valid s
     | Some dst_res \<Rightarrow> do {
         let off = d * SL_BITS_PER_REPLICA;
         let val = SL_REPL_GET_BMAP_IOS_STAT (bmi_repls (mb (us_m s))) off;
         (ret, valid, s) \<leftarrow>
           (if val = BREPLST_REPL_QUEUED then upd_proc_queued ue d dst_res valid s
            else if val = BREPLST_TRUNCPNDG then do {
              (rc, s) \<leftarrow> slm_upsch_tryptrunc ue off dst_res s;
              Some (rc > 0, valid, s)
            }
            else if val = BREPLST_GARBAGE then do {
              (rc, s) \<leftarrow> slm_upsch_trypreclaim ue dst_res off s;
              Some (rc > 0, valid, s)
            }
            else Some (False, valid, s));
         if ret then Some (True, s) else upd_dst_loop ue ds valid s
       }
   }"

definition upd_proc_bmap :: "'m upsch_env \<Rightarrow> 'm upst \<Rightarrow> 'm upst option" where
  "upd_proc_bmap ue s =
     (if bcm_replmodwr (mb (us_m s)) then Some s
      else do {
        psc_assert (\<not> fcmh_busy (mf (us_m s)));
        (ret, s) \<leftarrow> upd_dst_loop ue (ue_dst_order ue) False (s\<lparr>us_m := set_busy True (us_m s)\<rparr>);
        if ret then Some s
        else do {
          let m = (if bmi_rwlock (mb (us_m s)) = RW_WR then mst_set_rw RW_NONE (us_m s) else us_m s);
          m \<leftarrow> bmap_fcmh_unbusy m;
          Some (s\<lparr>us_m := m\<rparr>)
        }
      })"

subsection \<open>Work from the table\<close>

text \<open>
  A row that was read from the table brings its bmap to the queue if there is work for it and is
  purged otherwise. \<open>get_file_rc\<close> and \<open>get_bmap_rc\<close> are the codes of the lookups.
\<close>

datatype upsch_purge = Purge_None | Purge_Bmap nat | Purge_File

definition pagein_retifset :: "int list" where
  "pagein_retifset = (brepls_init 0)[BREPLST_REPL_QUEUED := 1, BREPLST_TRUNCPNDG := 1]"

definition upd_proc_pagein_unit ::
    "'m bmenv \<Rightarrow> int \<Rightarrow> int \<Rightarrow> 'm mst \<Rightarrow> (upsch_purge \<times> 'm mst) option" where
  "upd_proc_pagein_unit be get_file_rc get_bmap_rc m =
     (if get_file_rc \<noteq> 0 \<or> get_bmap_rc \<noteq> 0 then Some (Purge_File, m)
      else do {
        let b = (mb m)\<lparr>bcm_opcnt := bcm_opcnt (mb m) + 1\<rparr>;
        ih \<leftarrow> (if fcmh_2_nrepls (mf m) > SL_DEF_REPLICAS
              then map_option snd (mds_inox_ensure_loaded (be_env be) (fcmh_inoh (mf m)))
              else Some (fcmh_inoh (mf m)));
        let m = m\<lparr>mb := b\<lparr>bcm_busy := True, bmi_rwlock := RW_WR\<rparr>, mf := (mf m)\<lparr>fcmh_inoh := ih\<rparr>\<rparr>;
        (rc, m, _) \<leftarrow> mds_repl_bmap_walk None (Some pagein_retifset) REPL_WALKF_SCIRCUIT [] None (m, ());
        let m = (if rc \<noteq> 0 then m\<lparr>mev := mev m @ [EvUpschEnqueue (bcm_bmapno (mb m))]\<rparr> else m);
        psc_assert (bcm_busy (mb m));
        m' \<leftarrow> bmap_op_done (m\<lparr>mb := (mb m)\<lparr>bmi_rwlock := RW_NONE, bcm_busy := False\<rparr>\<rparr>);
        Some (if rc \<noteq> 0 then Purge_None else Purge_Bmap (bcm_bmapno (mb m)), m')
      })"

definition slm_wk_upsch_purge :: "u64 \<Rightarrow> upsch_purge \<Rightarrow> (u64 \<times> nat \<times> u32) list \<Rightarrow> (u64 \<times> nat \<times> u32) list" where
  "slm_wk_upsch_purge fid p rows = (case p of Purge_None \<Rightarrow> rows
     | Purge_Bmap bno \<Rightarrow> filter (\<lambda>(f, n, r). \<not> (f = fid \<and> n = bno)) rows
     | Purge_File \<Rightarrow> filter (\<lambda>(f, n, r). f \<noteq> fid) rows)"

definition revert_tract :: "int list" where
  "revert_tract = (brepls_init (- 1))[BREPLST_REPL_SCHED := int BREPLST_REPL_QUEUED,
     BREPLST_GARBAGE_SCHED := int BREPLST_GARBAGE]"

definition revert_retifset :: "int list" where
  "revert_retifset = (brepls_init 0)[BREPLST_REPL_SCHED := 1, BREPLST_GARBAGE_SCHED := 1]"

definition slm_upsch_revert_cb :: "'m bmenv \<Rightarrow> int \<Rightarrow> 'm mst \<Rightarrow> 'm mst option" where
  "slm_upsch_revert_cb be get_rc m =
     (if get_rc \<noteq> 0 then Some m
      else do {
        let m = m\<lparr>mb := (mb m)\<lparr>bcm_opcnt := bcm_opcnt (mb m) + 1\<rparr>\<rparr>;
        (rc, m, _) \<leftarrow> mds_repl_bmap_walk (Some revert_tract) (Some revert_retifset) 0 [] None (m, ());
        m \<leftarrow> (if rc \<noteq> 0 then map_option snd (mds_bmap_write be Log_None m) else Some (mst_set_rw RW_NONE m));
        m \<leftarrow> bmap_fcmh_unbusy m;
        bmap_op_done m
      })"

subsection \<open>Lemmas\<close>

definition applied :: "int list \<Rightarrow> nat \<Rightarrow> 'm mst \<Rightarrow> 'm mst" where
  "applied tr k m = m\<lparr>mb := wrlocked (mb m)\<lparr>bmi_repls := brt.trans1 tr k (bmi_repls (mb m))\<rparr>,
     mf := (mf m)\<lparr>fcmh_busy := True\<rparr>\<rparr>"

lemma bmap_apply_eq:
  "bmap_apply tr ret (k * SL_BITS_PER_REPLICA) s =
     (if walk_ready (us_m s) then Some (ret_val ret (us_st s k), s\<lparr>us_m := applied tr k (us_m s)\<rparr>) else None)"
  by (simp add: bmap_apply_def mds_repl_bmap_apply_def apply_start_tract run_cb_def Let_def brt.tget_less
      brt.trans1_def applied_def flip: repl_st_def)

text \<open>
  What the steps leave alone: the residency table, the list of replicas, the data the estimate of
  the traffic is made from, and the write lease.
\<close>

definition mst_same :: "'m mst \<Rightarrow> 'm mst \<Rightarrow> bool" where
  "mst_same m m' \<longleftrightarrow> bcm_bmapno (mb m') = bcm_bmapno (mb m) \<and> bmi_crcstates (mb m') = bmi_crcstates (mb m) \<and>
     bes_gen (mb m') = bes_gen (mb m) \<and> fcmh_fsz (mf m') = fcmh_fsz (mf m) \<and> fcmh_fid (mf m') = fcmh_fid (mf m) \<and>
     inoh_ino (fcmh_inoh (mf m')) = inoh_ino (fcmh_inoh (mf m)) \<and>
     inoh_extras (fcmh_inoh (mf m')) = inoh_extras (fcmh_inoh (mf m))"

lemma mst_same_refl: "mst_same m m"
  by (simp add: mst_same_def)

lemma mst_same_trans: "mst_same a b \<Longrightarrow> mst_same b c \<Longrightarrow> mst_same a c"
  by (simp add: mst_same_def)

definition us_same :: "'m upst \<Rightarrow> 'm upst \<Rightarrow> bool" where
  "us_same s s' \<longleftrightarrow> mst_same (us_m s) (us_m s') \<and> us_wr_ion s' = us_wr_ion s \<and>
     bmi_repls (mb (us_m s')) = bmi_repls (mb (us_m s))"

lemma us_same_refl [intro]: "us_same s s"
  by (simp add: us_same_def mst_same_refl)

lemma us_same_trans: "us_same a b \<Longrightarrow> us_same b c \<Longrightarrow> us_same a c"
  by (auto simp: us_same_def intro: mst_same_trans)

lemma us_same_simps [simp]:
  "us_same s (t\<lparr>us_bw := x1\<rparr>) = us_same s t" "us_same s (t\<lparr>us_bs := x2\<rparr>) = us_same s t"
  "us_same s (t\<lparr>us_rpmi_upschq := x3\<rparr>) = us_same s t" "us_same s (t\<lparr>us_preclaim_notsup := x4\<rparr>) = us_same s t"
  "us_same s (t\<lparr>us_ptrunc := x5\<rparr>) = us_same s t" "us_same s (us_op_start t) = us_same s t"
  "us_same s (us_event e t) = us_same s t" "us_same s (us_upsch_status r st t) = us_same s t"
  by (simp_all add: us_same_def mst_same_def us_op_start_def us_event_def us_upsch_status_def)

lemma op_done_same: "bmap_op_done m = Some m' \<Longrightarrow> mst_same m m' \<and> bmi_repls (mb m') = bmi_repls (mb m)"
  by (auto simp: bmap_op_done_def mst_same_def)

lemma rel_same: "slm_repl_bmap_rel m = Some m' \<Longrightarrow> mst_same m m' \<and> bmi_repls (mb m') = bmi_repls (mb m)"
  by (auto simp: slm_repl_bmap_rel_def mst_same_def bmap_op_done_def bind_eq_Some_conv split: if_splits)

lemma logf_same:
  "run_logf be Log_Repls m = Some m' \<Longrightarrow> mst_same m m' \<and> bmi_repls (mb m') = bmi_repls (mb m)"
  by (auto simp: run_logf_def mdslog_bmap_repls_def mst_same_def bind_eq_Some_conv)

lemma write_same:
  assumes "mds_bmap_write be Log_Repls m = Some (rc, m')"
  shows "mst_same m m' \<and> bmi_repls (mb m') = bmi_repls (mb m)"
proof -
  define m1 where "m1 = mst_set_rw (rw_reqrdlock be (bmi_rwlock (mb m))) m"
  define m2 where "m2 = m1\<lparr>mb := rd_released (mb m1)\<rparr>"
  obtain rc0 nb lg mf2 where pw: "pwritev_bmap be (mst_mfh m2) (bcm_bmapno (mb m2)) (bmi_2_ondisk (mb m2))
      (crc64_bod be (bmi_2_ondisk (mb m2))) True = (rc0, nb, lg, mf2)" using prod_cases4 by blast
  have "has_data m1" using assms by (auto simp: mds_bmap_write_def ensure_valid_iff m1_def [symmetric] Let_def split: if_splits)
  then obtain m3 where m3: "(if lg then run_logf be Log_Repls (mst_set_mfh mf2 m2) else Some (mst_set_mfh mf2 m2)) = Some m3"
    and m': "m' = (if rw_hasrdlock be (bmi_rwlock (mb m3)) then mst_set_rw RW_NONE m3 else m3)"
    using assms pw by (auto simp: mds_bmap_write_def ensure_valid_iff m1_def [symmetric] m2_def [symmetric] Let_def bind_eq_Some_conv)
  have "mst_same m m2 \<and> bmi_repls (mb m2) = bmi_repls (mb m)"
    by (simp add: m2_def m1_def mst_same_def mst_set_rw_def rd_released_def)
  then have 1: "mst_same m (mst_set_mfh mf2 m2) \<and> bmi_repls (mb (mst_set_mfh mf2 m2)) = bmi_repls (mb m)"
    by (simp add: mst_same_def mst_set_mfh_def)
  have "mst_same (mst_set_mfh mf2 m2) m3 \<and> bmi_repls (mb m3) = bmi_repls (mb (mst_set_mfh mf2 m2))"
    using m3 logf_same [of be "mst_set_mfh mf2 m2" m3] by (cases lg) (auto simp: mst_same_refl)
  with 1 have 2: "mst_same m m3 \<and> bmi_repls (mb m3) = bmi_repls (mb m)" using mst_same_trans by metis
  then show ?thesis by (simp add: m' mst_same_def mst_set_rw_def)
qed

lemma us_ops_same:
  "us_op_done s = Some s' \<Longrightarrow> us_same s s'" "us_bmap_rel s = Some s' \<Longrightarrow> us_same s s'"
  "us_write_logrepls be s = Some (rc, s') \<Longrightarrow> us_same s s'"
  "us_bw_adj ue a b n s = Some (ok, av, s') \<Longrightarrow> us_same s s'"
  "us_batchrq_add ue r opc e l x s = Some (rc, s') \<Longrightarrow> us_same s s'"
  "upd_rpmi_remove r s = Some s' \<Longrightarrow> us_same s s'"
  using op_done_same rel_same write_same
  by (force simp: us_op_done_def us_bmap_rel_def us_write_logrepls_def us_bw_adj_def us_batchrq_add_def
      upd_rpmi_remove_def us_same_def mst_same_refl bind_eq_Some_conv split: if_splits)+

end
