(* ===== verification/Upsch_Proc.thy ===== *)
theory Upsch_Proc
  imports Upsch
begin

text \<open>
  What the update scheduler of \<open>Upsch\<close> does to the residency table of a bmap: which changes of
  a replica's state it makes, and where it stops the server.
\<close>

subsection \<open>One replica is changed\<close>

text \<open>The state \<open>s'\<close> differs from \<open>s\<close> in the table at most by replica \<open>d\<close>, which has state \<open>v\<close>.\<close>

definition upd_at :: "nat \<Rightarrow> nat \<Rightarrow> 'm upst \<Rightarrow> 'm upst \<Rightarrow> bool" where
  "upd_at d v s s' \<longleftrightarrow> mst_same (us_m s) (us_m s') \<and> us_wr_ion s' = us_wr_ion s \<and>
     brepls_ok (bmi_repls (mb (us_m s'))) \<and>
     (\<forall>k < SL_MAX_REPLICAS. us_st s' k = (if k = d then v else us_st s k))"

lemma upd_at_refl: "brepls_ok (bmi_repls (mb (us_m s))) \<Longrightarrow> upd_at d (us_st s d) s s"
  by (simp add: upd_at_def mst_same_refl)

lemma upd_at_same: "upd_at d v s t \<Longrightarrow> us_same t u \<Longrightarrow> upd_at d v s u"
  by (auto simp: upd_at_def us_same_def intro: mst_same_trans)

lemma upd_at_ok: "upd_at d v s t \<Longrightarrow> brepls_ok (bmi_repls (mb (us_m t)))"
  by (simp add: upd_at_def)

lemma upd_at_st: "upd_at d v s t \<Longrightarrow> d < SL_MAX_REPLICAS \<Longrightarrow> us_st t d = v"
  by (simp add: upd_at_def)

lemma upd_at_trans: "upd_at d v s t \<Longrightarrow> upd_at d w t u \<Longrightarrow> upd_at d w s u"
  by (auto simp: upd_at_def intro: mst_same_trans)

lemma mst_same_applied: "mst_same m (applied tr k m)"
  by (simp add: mst_same_def applied_def wrlocked_def)

lemma apply_at:
  assumes "bmap_apply tr ret (d * SL_BITS_PER_REPLICA) s = Some (rc, s')"
    and "tract_ok tr" "d < SL_MAX_REPLICAS" "brepls_ok (bmi_repls (mb (us_m s)))"
  shows "upd_at d (tract_step tr (us_st s d)) s s'" "rc = ret_val ret (us_st s d)"
proof -
  have s': "s' = s\<lparr>us_m := applied tr d (us_m s)\<rparr>" and "rc = ret_val ret (us_st s d)"
    using assms(1) by (auto simp: bmap_apply_eq split: if_splits)
  then show "rc = ret_val ret (us_st s d)" by simp
  have "bmi_repls (mb (us_m s')) = brt.trans1 tr d (bmi_repls (mb (us_m s)))" by (simp add: s' applied_def)
  then show "upd_at d (tract_step tr (us_st s d)) s s'"
    using assms(2-4) mst_same_applied [of "us_m s" tr d]
    by (simp add: upd_at_def s' brt.tok_trans1 brt.tget_trans1)
qed

text \<open>The translations of the scheduler change one state each.\<close>

abbreviation tr1 :: "nat \<Rightarrow> nat \<Rightarrow> int list" where
  "tr1 a b \<equiv> (brepls_init (- 1))[a := int b]"

lemma tr1_ok: "a < 8 \<Longrightarrow> b < 8 \<Longrightarrow> tract_ok (tr1 a b)"
  using set_update_subset_insert [of "brepls_init (- 1)" a "int b"]
  by (auto simp: tract_ok_def brepls_init_def)

lemma tr1_step: "v < 8 \<Longrightarrow> a < 8 \<Longrightarrow> tract_step (tr1 a b) v = (if v = a then b else v)"
  by (simp add: tract_step_def brepls_init_def nth_list_update)

lemma ret_idx: "v < 8 \<Longrightarrow> ret_val (Some brepls_init_idx) v = int v"
  by (auto simp: ret_val_def brepls_init_idx_list dest!: less_8_cases)

lemma apply_tr1:
  assumes "bmap_apply (tr1 a b) ret (d * SL_BITS_PER_REPLICA) s = Some (rc, s')" "a < 8" "b < 8"
    and "d < SL_MAX_REPLICAS" "brepls_ok (bmi_repls (mb (us_m s)))"
  shows "upd_at d (if us_st s d = a then b else us_st s d) s s'" "rc = ret_val ret (us_st s d)"
  using apply_at [OF assms(1) tr1_ok [OF assms(2,3)] assms(4,5)] assms(2) by (simp_all add: tr1_step brt.tget_less)

lemma tryrepl_fail_at:
  assumes "tryrepl_fail ue (d * SL_BITS_PER_REPLICA) src dst amt chg s = Some (rc, s')"
    and "d < SL_MAX_REPLICAS" "brepls_ok (bmi_repls (mb (us_m s)))" "chg \<or> us_st s d \<noteq> BREPLST_REPL_SCHED"
  shows "rc = 0 \<and> upd_at d (if us_st s d = BREPLST_REPL_SCHED then BREPLST_REPL_QUEUED else us_st s d) s s'"
proof (cases chg)
  case False
  then obtain ok av where "us_bw_adj ue src dst (- int amt) s = Some (ok, av, s')" "rc = 0"
    using assms(1) by (auto simp: tryrepl_fail_def bind_eq_Some_conv)
  then show ?thesis
    using False assms(4) upd_at_same [OF upd_at_refl [OF assms(3), of d] us_ops_same(4)] by auto
next
  case True
  then obtain r1 s1 s2 ok av where
    a: "bmap_apply (tr1 BREPLST_REPL_SCHED BREPLST_REPL_QUEUED) None (d * SL_BITS_PER_REPLICA) s = Some (r1, s1)"
    and r: "us_bmap_rel (us_op_start s1) = Some s2" and w: "us_bw_adj ue src dst (- int amt) s2 = Some (ok, av, s')" "rc = 0"
    using assms(1) by (auto simp: tryrepl_fail_def bind_eq_Some_conv)
  have "us_same (us_op_start s1) s2" using us_ops_same(2) [OF r] .
  then have "us_same s1 s2" using us_same_trans [of s1 "us_op_start s1" s2] by (simp add: us_same_refl)
  then show ?thesis
    using upd_at_same [OF upd_at_same [OF apply_tr1(1) [OF a _ _ assms(2,3)]] us_ops_same(4) [OF w(1)]] w(2) by simp
qed

lemma tryrepl_sched_at:
  assumes r: "tryrepl_sched ue (d * SL_BITS_PER_REPLICA) src dst di amt av len s = Some (rc, s')"
    and d: "d < SL_MAX_REPLICAS" and ok: "brepls_ok (bmi_repls (mb (us_m s)))" and q: "us_st s d = BREPLST_REPL_QUEUED"
  shows "upd_at d (if rc = 0 then BREPLST_REPL_QUEUED else BREPLST_REPL_SCHED) s s'"
proof -
  obtain r1 s1 r2 s2 where
    a: "bmap_apply (tr1 BREPLST_REPL_QUEUED BREPLST_REPL_SCHED) (Some brepls_init_idx) (d * SL_BITS_PER_REPLICA) s = Some (r1, s1)"
    and b: "us_batchrq_add ue di SRMT_REPL_SCHEDWK (BeRepl \<lparr>pe_fid = fcmh_fid (mf (us_m s)), pe_bno = bcm_bmapno (mb (us_m s)),
               pe_bgen = bes_gen (mb (us_m s)), pe_src_resid = resm_res_id src, pe_len = len\<rparr>
               \<lparr>bsr_amt = amt, bsr_off = d * SL_BITS_PER_REPLICA\<rparr>) 36 5 (us_upsch_status di St_S s1) = Some (r2, s2)"
    using r q by (auto simp: tryrepl_sched_def Let_def bind_eq_Some_conv ret_idx bmap_apply_eq split: if_splits)
  have r1: "r1 = int BREPLST_REPL_QUEUED" using apply_tr1(2) [OF a _ _ d ok] q by (simp add: ret_idx)
  have u1: "upd_at d BREPLST_REPL_SCHED s s1" using apply_tr1(1) [OF a _ _ d ok] q by simp
  have "upd_at d BREPLST_REPL_SCHED s (us_upsch_status di St_S s1)" by (rule upd_at_same [OF u1]) (simp add: us_same_refl)
  note u2 = upd_at_same [OF this us_ops_same(5) [OF b]]
  note r' = r [unfolded tryrepl_sched_def Let_def a Option.bind.simps prod.case r1]
  show ?thesis
  proof (cases "r2 = 0")
    case True
    then obtain s3 where e: "us_bmap_rel (us_op_start s2) = Some s3" "rc = 1"
        "s' = (if av then us_event (EvUpschPagein (resm_res_id dst)) s3 else s3)"
      using r' b by (auto simp: bind_eq_Some_conv)
    have "upd_at d BREPLST_REPL_SCHED s (us_op_start s2)" by (rule upd_at_same [OF u2]) (simp add: us_same_refl)
    note u3 = upd_at_same [OF this us_ops_same(2) [OF e(1)]]
    have "upd_at d BREPLST_REPL_SCHED s s'" by (rule upd_at_same [OF u3]) (simp add: e(3) us_same_refl)
    then show ?thesis using e(2) by simp
  next
    case False
    have f: "tryrepl_fail ue (d * SL_BITS_PER_REPLICA) src dst amt True (us_upsch_status di St_Q s2) = Some (rc, s')"
      using r' b False by simp
    have u3: "upd_at d BREPLST_REPL_SCHED s (us_upsch_status di St_Q s2)" by (rule upd_at_same [OF u2]) (simp add: us_same_refl)
    show ?thesis using tryrepl_fail_at [OF f d upd_at_ok [OF u3]] upd_at_st [OF u3 d] upd_at_trans [OF u3] by simp
  qed
qed

lemma tryrepl_at:
  assumes r: "slm_upsch_tryrepl ue (d * SL_BITS_PER_REPLICA) src dst_res s = Some (rc, s')"
    and d: "d < SL_MAX_REPLICAS" and ok: "brepls_ok (bmi_repls (mb (us_m s)))" and q: "us_st s d = BREPLST_REPL_QUEUED"
  shows "\<exists>v. upd_at d v s s' \<and> (if rc = 0 then v = BREPLST_REPL_QUEUED
    else v = BREPLST_REPL_SCHED \<or> slm_bmap_calc_repltraffic (us_m s) = 0 \<and> v = BREPLST_VALID)"
proof -
  obtain dst where dst: "res_getmemb dst_res = Some dst"
    using r by (cases "res_getmemb dst_res") (simp_all add: slm_upsch_tryrepl_def)
  have s0: "upd_at d BREPLST_REPL_QUEUED s s" using upd_at_refl [OF ok, of d] q by simp
  show ?thesis
  proof (cases "slm_bmap_calc_repltraffic (us_m s) = 0")
    case True
    then obtain r1 s1 r2 s2 where
      a: "bmap_apply (tr1 BREPLST_REPL_QUEUED BREPLST_VALID) None (d * SL_BITS_PER_REPLICA) s = Some (r1, s1)"
      and w: "us_write_logrepls (ue_be ue) s1 = Some (r2, s2)" and s': "rc = 1" "s' = us_event (EvUpschPagein (resm_res_id dst)) s2"
      using r dst by (auto simp: slm_upsch_tryrepl_def bind_eq_Some_conv)
    have "us_same s2 s'" using s'(2) by (simp add: us_same_refl)
    then have "upd_at d BREPLST_VALID s s'"
      using upd_at_same [OF upd_at_same [OF apply_tr1(1) [OF a _ _ d ok] us_ops_same(3) [OF w]]] q by simp
    then show ?thesis using True s'(1) by auto
  next
    case False
    let ?amt = "slm_bmap_calc_repltraffic (us_m s)" and ?o = "d * SL_BITS_PER_REPLICA"
    obtain okb av s1 where bw: "us_bw_adj ue src dst (int ?amt) s = Some (okb, av, s1)"
      using r dst False by (auto simp: slm_upsch_tryrepl_def bind_eq_Some_conv Let_def)
    note u1 = upd_at_same [OF s0 us_ops_same(4) [OF bw]]
    have "Some (rc, s') = Some (0, s1) \<or> tryrepl_fail ue ?o src dst ?amt False s1 = Some (rc, s') \<or>
        (\<exists>len. tryrepl_sched ue ?o src dst (res_id dst_res) ?amt av len s1 = Some (rc, s'))"
      using r dst False bw by (auto simp: slm_upsch_tryrepl_def Let_def split: if_splits option.splits)
    then show ?thesis
    proof (elim disjE exE)
      assume f: "tryrepl_fail ue ?o src dst ?amt False s1 = Some (rc, s')"
      show ?thesis using tryrepl_fail_at [OF f d upd_at_ok [OF u1]] upd_at_st [OF u1 d] upd_at_trans [OF u1] by auto
    next
      fix len assume f: "tryrepl_sched ue ?o src dst (res_id dst_res) ?amt av len s1 = Some (rc, s')"
      show ?thesis
        using upd_at_trans [OF u1 tryrepl_sched_at [OF f d upd_at_ok [OF u1] upd_at_st [OF u1 d]]]
        by (intro exI [of _ "if rc = 0 then BREPLST_REPL_QUEUED else BREPLST_REPL_SCHED"]) simp
    qed (use u1 in auto)
  qed
qed

lemma finish_ptrunc_at:
  assumes f: "slm_upsch_finish_ptrunc r has_b rc (d * SL_BITS_PER_REPLICA) s = Some s'"
    and d: "d < SL_MAX_REPLICAS" and ok: "brepls_ok (bmi_repls (mb (us_m s)))"
    and st: "us_st s d = (if has_b then BREPLST_TRUNCPNDG_SCHED else BREPLST_TRUNCPNDG)" "has_b \<longrightarrow> rc \<noteq> 0"
  shows "upd_at d BREPLST_TRUNCPNDG s s'"
proof (cases has_b)
  case False
  then show ?thesis using f st upd_at_refl [OF ok, of d] by (simp add: slm_upsch_finish_ptrunc_def)
next
  case True
  then obtain r1 s1 s2 where
    a: "bmap_apply (tr1 BREPLST_TRUNCPNDG_SCHED BREPLST_TRUNCPNDG) None (d * SL_BITS_PER_REPLICA) s = Some (r1, s1)"
    and s2: "upd_rpmi_remove r s1 = Some s2" and s': "us_op_done s2 = Some s'"
    using f st(2) by (auto simp: slm_upsch_finish_ptrunc_def bind_eq_Some_conv)
  show ?thesis
    using upd_at_same [OF upd_at_same [OF apply_tr1(1) [OF a _ _ d ok] us_ops_same(6) [OF s2]] us_ops_same(1) [OF s']]
      st(1) True by simp
qed

lemma rpmi_add_same [simp]: "us_same s (upd_rpmi_add r t) = us_same s t"
  by (simp add: upd_rpmi_add_def)

lemma walk_query_same:
  assumes "mds_repl_bmap_walk None (Some ret) REPL_WALKF_SCIRCUIT [] None (us_m s, ()) = Some (rc, m, u)"
  shows "us_same s (s\<lparr>us_m := m\<rparr>)"
proof -
  obtain rc' where "mds_repl_bmap_walk None (Some ret) REPL_WALKF_SCIRCUIT [] None (us_m s, ()) =
     Some (rc', if fcmh_2_nrepls (mf (us_m s)) = 0 then us_m s else (us_m s)\<lparr>mb := rd_released (mb (us_m s))\<rparr>, ())"
    using walk_all_scircuit [of ret "us_m s" "()"] by (elim exE conjE)
  then have "m = us_m s \<or> m = (us_m s)\<lparr>mb := rd_released (mb (us_m s))\<rparr>" using assms by (simp del: One_nat_def split: if_splits)
  then show ?thesis by (auto simp: us_same_def mst_same_def rd_released_def)
qed

lemma tryptrunc_at:
  assumes r: "slm_upsch_tryptrunc ue (d * SL_BITS_PER_REPLICA) dst_res s = Some (rc, s')"
    and d: "d < SL_MAX_REPLICAS" and ok: "brepls_ok (bmi_repls (mb (us_m s)))" and q: "us_st s d = BREPLST_TRUNCPNDG"
  shows "upd_at d (if rc > 0 then BREPLST_TRUNCPNDG_SCHED else BREPLST_TRUNCPNDG) s s'"
proof -
  obtain dst r0 m where dst: "res_getmemb dst_res = Some dst"
    and w: "mds_repl_bmap_walk None (Some ((brepls_init 0)[BREPLST_TRUNCPNDG_SCHED := 1]))
                     REPL_WALKF_SCIRCUIT [] None (us_m s, ()) = Some (r0, m, ())"
    using r by (auto simp: slm_upsch_tryptrunc_def Let_def bind_eq_Some_conv simp del: One_nat_def)
  let ?s1 = "s\<lparr>us_m := m\<rparr>" and ?o = "d * SL_BITS_PER_REPLICA" and ?r = "resm_res_id dst"
  have u1: "upd_at d BREPLST_TRUNCPNDG s ?s1"
    using upd_at_same [OF upd_at_refl [OF ok, of d] walk_query_same [OF w]] q by simp
  have fin: "upd_at d BREPLST_TRUNCPNDG s t" if "slm_upsch_finish_ptrunc ?r b x ?o u = Some t"
    "upd_at d (if b then BREPLST_TRUNCPNDG_SCHED else BREPLST_TRUNCPNDG) s u" "b \<longrightarrow> x \<noteq> 0" for b x u t
    using upd_at_trans [OF that(2) finish_ptrunc_at [OF that(1) d upd_at_ok [OF that(2)] upd_at_st [OF that(2) d] that(3)]] .
  note r' = r [unfolded slm_upsch_tryptrunc_def dst w Option.bind.simps Let_def prod.case]
  show ?thesis
  proof (cases "r0 \<noteq> 0 \<or> \<not> ios_csvc (ue_ie ue) ?r \<or> ue_ptrunc_newreq_rc ue ?r \<noteq> 0")
    case True
    then have "rc \<le> 0 \<and> (s' = ?s1 \<or> (\<exists>x. slm_upsch_finish_ptrunc ?r False x ?o ?s1 = Some s'))"
      using r' by (auto simp: bind_eq_Some_conv split: if_splits)
    then show ?thesis using u1 fin [of False _ ?s1 s'] by auto
  next
    case False
    then obtain r1 s2 where a: "bmap_apply (tr1 BREPLST_TRUNCPNDG BREPLST_TRUNCPNDG_SCHED) (Some brepls_init_idx) ?o ?s1 = Some (r1, s2)"
      using r' by (auto simp: bind_eq_Some_conv)
    have r1: "r1 = int BREPLST_TRUNCPNDG"
      using apply_tr1(2) [OF a _ _ d upd_at_ok [OF u1]] upd_at_st [OF u1 d] by (simp add: ret_idx)
    have u2: "upd_at d BREPLST_TRUNCPNDG_SCHED s s2"
      using upd_at_trans [OF u1 apply_tr1(1) [OF a _ _ d upd_at_ok [OF u1]]] upd_at_st [OF u1 d] by simp
    have "us_same s2 (upd_rpmi_add ?r (us_op_start s2))" by (simp add: us_same_refl)
    note u3 = upd_at_same [OF u2 this]
    show ?thesis
    proof (cases "ue_nbrqset_rc ue ?r = 0")
      case True
      define t where "t = us_op_start ((upd_rpmi_add ?r (us_op_start s2))\<lparr>us_ptrunc := us_ptrunc (upd_rpmi_add ?r (us_op_start s2)) @
        [\<lparr>pt_dst = ?r, pt_fid = fcmh_fid (mf m), pt_bmapno = bcm_bmapno (mb m), pt_bgen = bes_gen (mb m),
          pt_offset = fcmh_fsz (mf m) mod SLASH_BMAP_SIZE\<rparr>]\<rparr>)"
      have "us_bmap_rel t = Some s'" "rc = 1"
        using r' False a r1 True by (auto simp: bind_eq_Some_conv t_def)
      moreover have "upd_at d BREPLST_TRUNCPNDG_SCHED s t" by (rule upd_at_same [OF u3]) (simp add: t_def us_same_refl)
      ultimately show ?thesis using upd_at_same us_ops_same(2) by fastforce
    next
      case nz: False
      then have "slm_upsch_finish_ptrunc ?r True (ue_nbrqset_rc ue ?r) ?o (upd_rpmi_add ?r (us_op_start s2)) = Some s'" "rc = 0"
        using r' False a r1 by (auto simp: bind_eq_Some_conv)
      then show ?thesis using fin [of True _ _ s'] u3 nz by simp
    qed
  qed
qed

lemma trypreclaim_at:
  assumes r: "slm_upsch_trypreclaim ue dst_res (d * SL_BITS_PER_REPLICA) s = Some (rc, s')"
    and d: "d < SL_MAX_REPLICAS" and ok: "brepls_ok (bmi_repls (mb (us_m s)))" and q: "us_st s d = BREPLST_GARBAGE"
  shows "upd_at d BREPLST_GARBAGE s s' \<or> upd_at d BREPLST_GARBAGE_SCHED s s'"
proof -
  have u0: "upd_at d BREPLST_GARBAGE s s" using upd_at_refl [OF ok, of d] q by simp
  consider "s' = s" | e x where "us_batchrq_add ue (res_id dst_res) SRMT_PRECLAIM e 32 30 s = Some (x, s')"
    | e x s1 y s2 z where "us_batchrq_add ue (res_id dst_res) SRMT_PRECLAIM e 32 30 s = Some (x, s1)"
      "bmap_apply (tr1 BREPLST_GARBAGE BREPLST_GARBAGE_SCHED) (Some brepls_init_idx) (d * SL_BITS_PER_REPLICA) s1 = Some (y, s2)"
      "us_write_logrepls (ue_be ue) s2 = Some (z, s')"
    using r by (auto simp: slm_upsch_trypreclaim_def Let_def bind_eq_Some_conv split: if_splits)
  then show ?thesis
  proof cases
    case 3
    note u1 = upd_at_same [OF u0 us_ops_same(5) [OF 3(1)]]
    show ?thesis
      using upd_at_same [OF upd_at_trans [OF u1 apply_tr1(1) [OF 3(2) _ _ d upd_at_ok [OF u1]]] us_ops_same(3) [OF 3(3)]]
        upd_at_st [OF u1 d] by simp
  qed (use u0 upd_at_same us_ops_same(5) in blast)+
qed

subsection \<open>The loops\<close>

lemma traffic_same: "mst_same m m' \<Longrightarrow> slm_bmap_calc_repltraffic m' = slm_bmap_calc_repltraffic m"
  by (simp add: mst_same_def slm_bmap_calc_repltraffic_def fcmh_nvalidbmaps_def)

lemma getrepl_same: "mst_same m m' \<Longrightarrow> fcmh_getrepl (fcmh_inoh (mf m')) i = fcmh_getrepl (fcmh_inoh (mf m)) i"
  by (simp add: mst_same_def fcmh_getrepl_def)

lemma inoh_ok_same: "mst_same m m' \<Longrightarrow> inoh_ok (fcmh_inoh (mf m')) = inoh_ok (fcmh_inoh (mf m))"
  by (auto simp: mst_same_def inoh_ok_def split: option.splits)

text \<open>Replica \<open>i\<close> is not a valid one on a configured I/O system.\<close>

definition no_source :: "'m upsch_env \<Rightarrow> 'm upst \<Rightarrow> nat \<Rightarrow> bool" where
  "no_source ue s i \<longleftrightarrow> (\<forall>ios. fcmh_getrepl (fcmh_inoh (mf (us_m s))) i = Some ios \<longrightarrow>
     libsl_id2res (be_cf (ue_be ue)) ios = None \<or> us_st s i \<noteq> BREPLST_VALID)"

definition src_res :: "'m upst \<Rightarrow> bool \<Rightarrow> nat \<Rightarrow> bool" where
  "src_res s ret w \<longleftrightarrow> (if ret then w = BREPLST_REPL_SCHED \<or> slm_bmap_calc_repltraffic (us_m s) = 0 \<and> w = BREPLST_VALID
     else w = BREPLST_REPL_QUEUED)"

lemma src_res_at: "upd_at d w s t \<Longrightarrow> src_res t r x = src_res s r x"
  using traffic_same [of "us_m s" "us_m t"] by (simp add: upd_at_def src_res_def)

lemma src_loop_cases:
  assumes l: "upd_src_loop ue d dst_res pass (i # js) v s = Some (ret, v', s')"
  obtains (pass) u where "upd_src_loop ue d dst_res pass js u s = Some (ret, v', s')" "v \<longrightarrow> u"
      "\<not> u \<longrightarrow> i = d \<or> no_source ue s i"
    | (attempt) m rc s1 where "slm_upsch_tryrepl ue (d * SL_BITS_PER_REPLICA) m dst_res s = Some (rc, s1)"
      "if rc \<noteq> 0 then ret \<and> v' \<and> s' = s1 else upd_src_loop ue d dst_res pass js True s1 = Some (ret, v', s')"
proof (cases "i = d")
  case True
  then show ?thesis using l pass [of v] by simp
next
  case False
  then obtain ios where ios: "fcmh_getrepl (fcmh_inoh (mf (us_m s))) i = Some ios"
    using l by (cases "fcmh_getrepl (fcmh_inoh (mf (us_m s))) i") simp_all
  note l1 = l [unfolded upd_src_loop.simps if_not_P [OF False] ios Option.bind.simps]
  show ?thesis
  proof (cases "libsl_id2res (be_cf (ue_be ue)) ios")
    case None
    then show ?thesis using l1 ios pass [of v] by (simp add: no_source_def)
  next
    case (Some r)
    note l2 = l1 [unfolded Some option.case]
    show ?thesis
    proof (cases "us_st s i = BREPLST_VALID")
      case False
      then show ?thesis using l2 pass [of v] ios by (simp add: no_source_def repl_st_def)
    next
      case True
      show ?thesis
      proof (cases "upd_src_loop ue d dst_res pass js True s = Some (ret, v', s')")
        case False
        then obtain m where "res_getmemb r = Some m" "ios_csvc (ue_ie ue) (resm_res_id m)"
          "slm_upsch_tryrepl ue (d * SL_BITS_PER_REPLICA) m dst_res s \<bind>
             (\<lambda>(rc, s). if rc \<noteq> 0 then Some (True, True, s) else upd_src_loop ue d dst_res pass js True s) = Some (ret, v', s')"
          using l2 True by (auto simp: repl_st_def bind_eq_Some_conv [of "res_getmemb r"] split: if_splits)
        then show ?thesis using attempt [of m] by (auto simp: bind_eq_Some_conv split: if_splits)
      qed (use pass [of True] in simp)
    qed
  qed
qed

lemma src_loop_at:
  assumes "upd_src_loop ue d dst_res pass is v s = Some (ret, v', s')"
    and "d < SL_MAX_REPLICAS" "brepls_ok (bmi_repls (mb (us_m s)))" "us_st s d = BREPLST_REPL_QUEUED"
  shows "(\<exists>w. upd_at d w s s' \<and> src_res s ret w) \<and> (v \<longrightarrow> v') \<and>
    (\<not> v' \<longrightarrow> us_same s s' \<and> (\<forall>i \<in> set is. i = d \<or> no_source ue s i))"
  using assms
proof (induction "is" arbitrary: v s)
  case Nil
  then show ?case using upd_at_refl [of s d] by (auto simp: src_res_def)
next
  case (Cons i js)
  note d = Cons.prems(2)
  have skip: ?case if l: "upd_src_loop ue d dst_res pass js u s = Some (ret, v', s')" "v \<longrightarrow> u" "\<not> u \<longrightarrow> i = d \<or> no_source ue s i" for u
    using Cons.IH [OF l(1) Cons.prems(2-4)] l(2,3) by auto
  from Cons.prems(1) show ?case
  proof (cases rule: src_loop_cases)
    case (pass u)
    then show ?thesis by (rule skip)
  next
    case (attempt m rc s1)
    from tryrepl_at [OF attempt(1) Cons.prems(2-4)] obtain w where w: "upd_at d w s s1"
      "if rc = 0 then w = BREPLST_REPL_QUEUED else w = BREPLST_REPL_SCHED \<or> slm_bmap_calc_repltraffic (us_m s) = 0 \<and> w = BREPLST_VALID"
      by blast
    show ?thesis
    proof (cases "rc = 0")
      case True
      then have st: "us_st s1 d = BREPLST_REPL_QUEUED" using upd_at_st [OF w(1) d] w(2) by simp
      have "upd_src_loop ue d dst_res pass js True s1 = Some (ret, v', s')" using attempt(2) True by simp
      from Cons.IH [OF this d upd_at_ok [OF w(1)] st] obtain x where x: "upd_at d x s1 s'" "src_res s1 ret x" "v'" by auto
      show ?thesis using x upd_at_trans [OF w(1) x(1)] src_res_at [OF w(1)] by auto
    next
      case False
      then show ?thesis using w attempt(2) by (auto simp: src_res_def)
    qed
  qed
qed

text \<open>
  The changes of a replica's state the scheduler may make: to scheduled, to valid when there is
  nothing to copy, or to garbage when no other replica is valid, from queued and without a write
  lease; to the scheduled states from truncation pending and from garbage.
\<close>

definition upd_move :: "'m upsch_env \<Rightarrow> 'm upst \<Rightarrow> nat \<Rightarrow> nat \<Rightarrow> bool" where
  "upd_move ue s k w \<longleftrightarrow>
     us_st s k = BREPLST_REPL_QUEUED \<and> \<not> us_wr_ion s \<and>
       (w = BREPLST_REPL_SCHED \<or> w = BREPLST_VALID \<and> slm_bmap_calc_repltraffic (us_m s) = 0 \<or>
        w = BREPLST_GARBAGE \<and> (\<forall>i \<in> set (ue_src_order ue k 0). i = k \<or> no_source ue s i)) \<or>
     us_st s k = BREPLST_TRUNCPNDG \<and> w = BREPLST_TRUNCPNDG_SCHED \<or>
     us_st s k = BREPLST_GARBAGE \<and> w = BREPLST_GARBAGE_SCHED"

lemma proc_queued_at:
  assumes q: "upd_proc_queued ue d dst_res v s = Some (ret, v', s')"
    and d: "d < SL_MAX_REPLICAS" and ok: "brepls_ok (bmi_repls (mb (us_m s)))" and st: "us_st s d = BREPLST_REPL_QUEUED"
  shows "\<exists>w. upd_at d w s s' \<and> (if ret then upd_move ue s d w else w = BREPLST_REPL_QUEUED)"
proof (cases "us_wr_ion s")
  case True
  then show ?thesis using q st upd_at_refl [OF ok, of d] by (auto simp: upd_proc_queued_def)
next
  case wr: False
  have mv: "upd_move ue s d w" if "src_res s True w" for w using that st wr by (auto simp: src_res_def upd_move_def)
  obtain r1 v1 s1 where l1: "upd_src_loop ue d dst_res 0 (ue_src_order ue d 0) v s = Some (r1, v1, s1)"
    using q wr by (auto simp: upd_proc_queued_def bind_eq_Some_conv)
  note q1 = q [unfolded upd_proc_queued_def if_not_P [OF wr] l1 Option.bind.simps prod.case]
  obtain w1 where w1: "upd_at d w1 s s1" "src_res s r1 w1"
    and n1: "\<not> v1 \<longrightarrow> us_same s s1 \<and> (\<forall>i \<in> set (ue_src_order ue d 0). i = d \<or> no_source ue s i)"
    using src_loop_at [OF l1 d ok st] by blast
  show ?thesis
  proof (cases r1)
    case True
    then show ?thesis using q1 w1 mv by auto
  next
    case r1: False
    have st1: "us_st s1 d = BREPLST_REPL_QUEUED" using w1 r1 upd_at_st [OF w1(1) d] by (simp add: src_res_def)
    obtain r2 v2 s2 where l2: "upd_src_loop ue d dst_res 1 (ue_src_order ue d 1) v1 s1 = Some (r2, v2, s2)"
      using q1 r1 by (auto simp: bind_eq_Some_conv simp del: One_nat_def)
    note q2 = q1 [unfolded if_not_P [OF r1] l2 Option.bind.simps prod.case]
    obtain w2 where w2: "upd_at d w2 s s2" "src_res s r2 w2" and v12: "v1 \<longrightarrow> v2"
      using src_loop_at [OF l2 d upd_at_ok [OF w1(1)] st1] upd_at_trans [OF w1(1)] src_res_at [OF w1(1)] by blast
    show ?thesis
    proof (cases "r2 \<or> v2")
      case True
      then show ?thesis using q2 w2 mv by (auto simp: src_res_def split: if_splits)
    next
      case False
      then have st2: "us_st s2 d = BREPLST_REPL_QUEUED" using w2 upd_at_st [OF w2(1) d] by (simp add: src_res_def)
      obtain x s3 where a: "bmap_apply (tr1 BREPLST_REPL_QUEUED BREPLST_GARBAGE)
          (Some ((brepls_init 0)[BREPLST_REPL_QUEUED := 1])) (d * SL_BITS_PER_REPLICA) s2 = Some (x, s3)"
        using q2 False by (auto simp: bind_eq_Some_conv)
      have x: "x = 1" using apply_tr1(2) [OF a _ _ d upd_at_ok [OF w2(1)]] st2 by (simp add: ret_val_def brepls_init_list)
      obtain y where "us_write_logrepls (ue_be ue) s3 = Some (y, s')" "ret"
        using q2 False a x by (auto simp: bind_eq_Some_conv)
      moreover have "upd_at d BREPLST_GARBAGE s s3"
        using upd_at_trans [OF w2(1) apply_tr1(1) [OF a _ _ d upd_at_ok [OF w2(1)]]] st2 by simp
      moreover have "upd_move ue s d BREPLST_GARBAGE" using n1 v12 False st wr by (auto simp: upd_move_def)
      ultimately show ?thesis using upd_at_same us_ops_same(3) by fastforce
    qed
  qed
qed

text \<open>
  While the loop goes on, only garbage was scheduled, namely by a reclaim whose write failed.
\<close>

definition upd_cont :: "'m upst \<Rightarrow> 'm upst \<Rightarrow> bool" where
  "upd_cont s s' \<longleftrightarrow> mst_same (us_m s) (us_m s') \<and> us_wr_ion s' = us_wr_ion s \<and>
     brepls_ok (bmi_repls (mb (us_m s'))) \<and>
     (\<forall>k < SL_MAX_REPLICAS. us_st s' k = us_st s k \<or> us_st s k = BREPLST_GARBAGE \<and> us_st s' k = BREPLST_GARBAGE_SCHED)"

definition upd_moved :: "'m upsch_env \<Rightarrow> 'm upst \<Rightarrow> 'm upst \<Rightarrow> bool" where
  "upd_moved ue s s' \<longleftrightarrow> brepls_ok (bmi_repls (mb (us_m s'))) \<and>
     (\<forall>k < SL_MAX_REPLICAS. us_st s' k = us_st s k \<or> upd_move ue s k (us_st s' k))"

lemma upd_cont_refl: "brepls_ok (bmi_repls (mb (us_m s))) \<Longrightarrow> upd_cont s s"
  by (simp add: upd_cont_def mst_same_refl)

lemma upd_cont_moved: "upd_cont s t \<Longrightarrow> upd_moved ue s t"
  by (auto simp: upd_cont_def upd_moved_def upd_move_def)

lemma upd_cont_at:
  assumes "upd_cont s t" "upd_at d w t u" "w = us_st t d \<or> us_st t d = BREPLST_GARBAGE \<and> w = BREPLST_GARBAGE_SCHED"
  shows "upd_cont s u"
proof -
  have "us_st u k = us_st s k \<or> us_st s k = BREPLST_GARBAGE \<and> us_st u k = BREPLST_GARBAGE_SCHED"
    if "k < SL_MAX_REPLICAS" for k
    using assms that unfolding upd_cont_def upd_at_def by (cases "k = d") force+
  then show ?thesis using assms(1,2) by (auto simp: upd_cont_def upd_at_def intro: mst_same_trans)
qed

lemma no_source_cont:
  assumes "upd_cont s t" "no_source ue t i" "i < SL_MAX_REPLICAS"
  shows "no_source ue s i"
  using assms getrepl_same [of "us_m s" "us_m t" i] by (force simp: upd_cont_def no_source_def)

lemma upd_move_cont:
  assumes c: "upd_cont s t" and m: "upd_move ue t d w" and d: "d < SL_MAX_REPLICAS"
    and o: "set (ue_src_order ue d 0) \<subseteq> {..<SL_MAX_REPLICAS}"
  shows "upd_move ue s d w"
proof -
  have same: "us_wr_ion t = us_wr_ion s" "slm_bmap_calc_repltraffic (us_m t) = slm_bmap_calc_repltraffic (us_m s)"
    using c by (simp_all add: upd_cont_def traffic_same)
  have "\<forall>i \<in> set (ue_src_order ue d 0). i = d \<or> no_source ue s i"
    if "\<forall>i \<in> set (ue_src_order ue d 0). i = d \<or> no_source ue t i"
    using that o no_source_cont [OF c] by blast
  then show ?thesis using c m d by (auto simp: upd_cont_def upd_move_def same)
qed

lemma upd_moved_at:
  assumes c: "upd_cont s t" and a: "upd_at d w t u" and m: "upd_move ue t d w" and d: "d < SL_MAX_REPLICAS"
    and o: "set (ue_src_order ue d 0) \<subseteq> {..<SL_MAX_REPLICAS}"
  shows "upd_moved ue s u"
proof -
  have "us_st u k = us_st s k \<or> upd_move ue s k (us_st u k)" if "k < SL_MAX_REPLICAS" for k
  proof (cases "k = d")
    case True
    then show ?thesis using upd_move_cont [OF c m d o] upd_at_st [OF a d] by simp
  next
    case False
    then have "us_st u k = us_st t k" using a that by (simp add: upd_at_def)
    then show ?thesis using c that by (auto simp: upd_cont_def upd_move_def)
  qed
  then show ?thesis using a by (simp add: upd_moved_def upd_at_def)
qed

text \<open>The order of the iterators: they visit replicas of the file.\<close>

definition rnd_ok :: "'m upsch_env \<Rightarrow> nat \<Rightarrow> bool" where
  "rnd_ok ue n \<longleftrightarrow> set (ue_dst_order ue) = {..<n} \<and> distinct (ue_dst_order ue) \<and>
     (\<forall>d p. set (ue_src_order ue d p) = {..<n})"

lemma dst_loop_moved:
  assumes "upd_dst_loop ue ds v s = Some (ret, s')" "upd_cont s0 s" "inoh_ok (fcmh_inoh (mf (us_m s0)))"
    and "rnd_ok ue (fcmh_2_nrepls (mf (us_m s0)))" "set ds \<subseteq> {..<fcmh_2_nrepls (mf (us_m s0))}"
  shows "upd_moved ue s0 s'"
  using assms(1,2,5)
proof (induction ds arbitrary: v s)
  case Nil
  then show ?case using upd_cont_moved by auto
next
  case (Cons d ds)
  have nr: "fcmh_2_nrepls (mf (us_m s0)) \<le> SL_MAX_REPLICAS" using assms(3) by (simp add: inoh_ok_def)
  then have d: "d < SL_MAX_REPLICAS" "d < fcmh_2_nrepls (mf (us_m s0))" "set (ue_src_order ue d 0) \<subseteq> {..<SL_MAX_REPLICAS}"
    using Cons.prems(3) assms(4) by (auto simp: rnd_ok_def)
  have ih: "inoh_ino (fcmh_inoh (mf (us_m s))) = inoh_ino (fcmh_inoh (mf (us_m s0)))" "inoh_ok (fcmh_inoh (mf (us_m s)))"
    using Cons.prems(2) assms(3) inoh_ok_same [of "us_m s0" "us_m s"] by (simp_all add: upd_cont_def mst_same_def)
  have fr: "fcmh_2_repl (be_env (ue_be ue)) (fcmh_inoh (mf (us_m s))) d = Some (rlist (fcmh_inoh (mf (us_m s))) ! d, fcmh_inoh (mf (us_m s)))"
    using fcmh_2_repl_loaded [OF ih(2)] d(2) ih(1) by simp
  have upd0: "s\<lparr>us_m := (us_m s)\<lparr>mf := (mf (us_m s))\<lparr>fcmh_inoh := fcmh_inoh (mf (us_m s))\<rparr>\<rparr>\<rparr> = s" by simp
  have go: ?case if "upd_dst_loop ue ds u t = Some (ret, s')" "upd_cont s0 t" for u t
    using Cons.IH [OF that] Cons.prems(3) by simp
  have ok: "brepls_ok (bmi_repls (mb (us_m s)))" using Cons.prems(2) by (simp add: upd_cont_def)
  note l = Cons.prems(1) [unfolded upd_dst_loop.simps fr Option.bind.simps prod.case upd0 Let_def]
  show ?case
  proof (cases "libsl_id2res (be_cf (ue_be ue)) (rlist (fcmh_inoh (mf (us_m s))) ! d)")
    case None
    then show ?thesis using l go Cons.prems(2) by simp
  next
    case (Some r)
    note l1 = l [unfolded Some option.case repl_st_def [symmetric]]
    consider "us_st s d = BREPLST_REPL_QUEUED" | "us_st s d = BREPLST_TRUNCPNDG" | "us_st s d = BREPLST_GARBAGE"
      | "us_st s d \<notin> {BREPLST_REPL_QUEUED, BREPLST_TRUNCPNDG, BREPLST_GARBAGE}" by auto
    then show ?thesis
    proof cases
      case 1
      then obtain t u x where q: "upd_proc_queued ue d r v s = Some (t, u, x)"
        and n: "if t then s' = x else upd_dst_loop ue ds u x = Some (ret, s')"
        using l1 by (auto simp: bind_eq_Some_conv split: if_splits)
      from proc_queued_at [OF q d(1) ok 1] obtain w where
        w: "upd_at d w s x" "if t then upd_move ue s d w else w = BREPLST_REPL_QUEUED" by blast
      then show ?thesis
        using n go [of u x] upd_cont_at [OF Cons.prems(2) w(1)] upd_moved_at [OF Cons.prems(2) w(1) _ d(1,3)] 1 by (cases t) auto
    next
      case 2
      then obtain rc x where q: "slm_upsch_tryptrunc ue (d * SL_BITS_PER_REPLICA) r s = Some (rc, x)"
        and n: "if rc > 0 then s' = x else upd_dst_loop ue ds v x = Some (ret, s')"
        using l1 by (auto simp: bind_eq_Some_conv split: if_splits)
      note w = tryptrunc_at [OF q d(1) ok 2]
      have "upd_move ue s d BREPLST_TRUNCPNDG_SCHED" using 2 by (simp add: upd_move_def)
      then show ?thesis
        using n go [of v x] upd_cont_at [OF Cons.prems(2) w] upd_moved_at [OF Cons.prems(2) w _ d(1,3)] 2 by (auto split: if_splits)
    next
      case 3
      then obtain rc x where q: "slm_upsch_trypreclaim ue r (d * SL_BITS_PER_REPLICA) s = Some (rc, x)"
        and n: "s' = x \<or> upd_dst_loop ue ds v x = Some (ret, s')"
        using l1 by (auto simp: bind_eq_Some_conv split: if_splits)
      have "upd_cont s0 x"
        using trypreclaim_at [OF q d(1) ok 3] upd_cont_at [OF Cons.prems(2)] 3 by auto
      then show ?thesis using n go upd_cont_moved by blast
    next
      case 4
      then show ?thesis using l1 go Cons.prems(2) by simp
    qed
  qed
qed

subsection \<open>Truncation of a bmap whose I/O server is away\<close>

text \<open>A replica the scheduler has no work for, and one that waits for a truncation it cannot send.\<close>

definition idle_dst :: "'m upsch_env \<Rightarrow> 'm mst \<Rightarrow> nat \<Rightarrow> bool" where
  "idle_dst ue m d \<longleftrightarrow> libsl_id2res (be_cf (ue_be ue)) (rlist (fcmh_inoh (mf m)) ! d) = None \<or>
     repl_st (bmi_repls (mb m)) d \<notin> {BREPLST_REPL_QUEUED, BREPLST_TRUNCPNDG, BREPLST_GARBAGE}"

definition offline_ptrunc :: "'m upsch_env \<Rightarrow> 'm mst \<Rightarrow> nat \<Rightarrow> bool" where
  "offline_ptrunc ue m d \<longleftrightarrow> repl_st (bmi_repls (mb m)) d = BREPLST_TRUNCPNDG \<and>
     (case libsl_id2res (be_cf (ue_be ue)) (rlist (fcmh_inoh (mf m)) ! d) of None \<Rightarrow> False
      | Some r \<Rightarrow> (case res_getmemb r of None \<Rightarrow> False | Some x \<Rightarrow> \<not> ios_csvc (ue_ie ue) (resm_res_id x)))"

lemma offline_idle_cong:
  assumes "bmi_repls (mb m') = bmi_repls (mb m)" "mf m' = mf m"
  shows "idle_dst ue m' d = idle_dst ue m d" "offline_ptrunc ue m' d = offline_ptrunc ue m d"
  using assms by (simp_all add: idle_dst_def offline_ptrunc_def)

lemma tryptrunc_offline:
  assumes "res_getmemb r = Some x" "\<not> ios_csvc (ue_ie ue) (resm_res_id x)" "fcmh_2_nrepls (mf (us_m s)) \<noteq> 0"
  shows "\<exists>rc. rc \<le> 0 \<and> slm_upsch_tryptrunc ue off r s = Some (rc, s\<lparr>us_m := (us_m s)\<lparr>mb := rd_released (mb (us_m s))\<rparr>\<rparr>)"
proof -
  obtain rc where w: "mds_repl_bmap_walk None (Some ((brepls_init 0)[BREPLST_TRUNCPNDG_SCHED := 1])) REPL_WALKF_SCIRCUIT [] None (us_m s, ()) =
     Some (rc, (us_m s)\<lparr>mb := rd_released (mb (us_m s))\<rparr>, ())"
    using walk_all_scircuit [of "(brepls_init 0)[BREPLST_TRUNCPNDG_SCHED := 1]" "us_m s" "()"] assms(3)
    by (elim exE conjE) (simp del: One_nat_def)
  show ?thesis unfolding slm_upsch_tryptrunc_def
    using assms(1,2) w by (cases "rc = 0") (simp_all add: slm_upsch_finish_ptrunc_def del: One_nat_def)
qed

lemma dst_loop_offline:
  assumes "inoh_ok (fcmh_inoh (mf (us_m s)))" "set ds \<subseteq> {..<fcmh_2_nrepls (mf (us_m s))}"
    and "\<forall>d \<in> set ds. idle_dst ue (us_m s) d \<or> offline_ptrunc ue (us_m s) d"
  shows "upd_dst_loop ue ds v s = Some (False, if \<exists>d \<in> set ds. offline_ptrunc ue (us_m s) d
     then s\<lparr>us_m := (us_m s)\<lparr>mb := rd_released (mb (us_m s))\<rparr>\<rparr> else s)"
  using assms
proof (induction ds arbitrary: s v)
  case (Cons d ds)
  let ?s1 = "s\<lparr>us_m := (us_m s)\<lparr>mb := rd_released (mb (us_m s))\<rparr>\<rparr>"
  have d: "d < fcmh_2_nrepls (mf (us_m s))" using Cons.prems(2) by simp
  have fr: "fcmh_2_repl (be_env (ue_be ue)) (fcmh_inoh (mf (us_m s))) d = Some (rlist (fcmh_inoh (mf (us_m s))) ! d, fcmh_inoh (mf (us_m s)))"
    by (rule fcmh_2_repl_loaded [OF Cons.prems(1) d])
  have upd0: "s\<lparr>us_m := (us_m s)\<lparr>mf := (mf (us_m s))\<lparr>fcmh_inoh := fcmh_inoh (mf (us_m s))\<rparr>\<rparr>\<rparr> = s" by simp
  note l = upd_dst_loop.simps(2) [of ue d ds v s, unfolded fr Option.bind.simps prod.case upd0 Let_def]
  show ?case
  proof (cases "offline_ptrunc ue (us_m s) d")
    case True
    then obtain r x where r: "libsl_id2res (be_cf (ue_be ue)) (rlist (fcmh_inoh (mf (us_m s))) ! d) = Some r"
      "res_getmemb r = Some x" "\<not> ios_csvc (ue_ie ue) (resm_res_id x)" and st: "us_st s d = BREPLST_TRUNCPNDG"
      by (auto simp: offline_ptrunc_def split: option.splits)
    have "fcmh_2_nrepls (mf (us_m s)) \<noteq> 0" using d by simp
    from tryptrunc_offline [OF r(2,3) this, of "d * SL_BITS_PER_REPLICA"]
    obtain rc where t: "rc \<le> 0" "slm_upsch_tryptrunc ue (d * SL_BITS_PER_REPLICA) r s = Some (rc, ?s1)" by (elim exE conjE)
    have step: "upd_dst_loop ue (d # ds) v s = upd_dst_loop ue ds v ?s1"
      using l t r(1) st by (simp add: repl_st_def)
    have "\<forall>k \<in> set ds. idle_dst ue (us_m ?s1) k \<or> offline_ptrunc ue (us_m ?s1) k"
      using Cons.prems(3) offline_idle_cong [of "us_m ?s1" "us_m s"] by simp
    from Cons.IH [of ?s1 v, OF _ _ this] Cons.prems(1,2) show ?thesis using step True by simp
  next
    case False
    then have "idle_dst ue (us_m s) d" using Cons.prems(3) by simp
    then have "upd_dst_loop ue (d # ds) v s = upd_dst_loop ue ds v s"
      using l by (auto simp: idle_dst_def repl_st_def split: option.splits)
    then show ?thesis using Cons.IH [of s v] Cons.prems False by simp
  qed
qed simp

end
