(* ===== verification/Upsch_Live.thy ===== *)
theory Upsch_Live
  imports Upsch_Proc
begin

text \<open>
  The properties of the update scheduler, among them that a queued replica is scheduled when a
  valid replica and bandwidth are there, and what the reply of the I/O server makes of it.
\<close>

subsection \<open>A replication is scheduled\<close>

definition released :: "'m mst \<Rightarrow> bool" where
  "released m \<longleftrightarrow> bmi_rwlock (mb m) = RW_NONE \<and> \<not> bcm_busy (mb m) \<and> \<not> fcmh_busy (mf m) \<and> \<not> bcm_replmodwr (mb m)"

lemma applied_wr:
  "walk_ready m \<Longrightarrow> bmi_rwlock (mb (applied tr k m)) = RW_WR \<and> bcm_busy (mb (applied tr k m)) \<and>
     fcmh_busy (mf (applied tr k m)) \<and> \<not> bcm_replmodwr (mb (applied tr k m))"
  by (auto simp: applied_def wrlocked_def walk_ready_def)

lemma bmap_rel_wr:
  assumes "bmi_rwlock (mb (us_m s)) = RW_WR" "bcm_busy (mb (us_m s))" "fcmh_busy (mf (us_m s))" "\<not> bcm_replmodwr (mb (us_m s))"
  shows "\<exists>s'. us_bmap_rel (us_op_start s) = Some s' \<and> released (us_m s') \<and> us_bs s' = us_bs s \<and> us_bw s' = us_bw s"
  using assms by (simp add: us_bmap_rel_def us_op_start_def slm_repl_bmap_rel_def bmap_op_done_def released_def)

definition repl_ent :: "'m mst \<Rightarrow> u32 \<Rightarrow> nat \<Rightarrow> nat \<Rightarrow> nat \<Rightarrow> batch_ent" where
  "repl_ent m src len amt off = BeRepl \<lparr>pe_fid = fcmh_fid (mf m), pe_bno = bcm_bmapno (mb m), pe_bgen = bes_gen (mb m),
     pe_src_resid = src, pe_len = len\<rparr> \<lparr>bsr_amt = amt, bsr_off = off\<rparr>"

lemma tryrepl_sched_succeeds:
  assumes "walk_ready (us_m s)" "us_st s d = BREPLST_REPL_QUEUED"
    and "batchrq_add (ue_ba ue) di SRMT_REPL_SCHEDWK (repl_ent (us_m s) (resm_res_id src) len amt (d * SL_BITS_PER_REPLICA)) 36
      (ue_now ue + 5) (ue_newreq_rc ue di (repl_ent (us_m s) (resm_res_id src) len amt (d * SL_BITS_PER_REPLICA))) (ue_send_rc ue) (us_bs s)
      = Some (0, bs)"
  shows "\<exists>s'. tryrepl_sched ue (d * SL_BITS_PER_REPLICA) src dst di amt av len s = Some (1, s') \<and>
    released (us_m s') \<and> us_bs s' = bs \<and> us_bw s' = us_bw s"
proof -
  let ?tr = "tr1 BREPLST_REPL_QUEUED BREPLST_REPL_SCHED"
  define s1 where "s1 = s\<lparr>us_m := applied ?tr d (us_m s)\<rparr>"
  have a: "bmap_apply ?tr (Some brepls_init_idx) (d * SL_BITS_PER_REPLICA) s = Some (int BREPLST_REPL_QUEUED, s1)"
    using assms(1,2) by (simp add: bmap_apply_eq s1_def ret_idx)
  define s2 where "s2 = (us_upsch_status di St_S s1)\<lparr>us_bs := bs\<rparr>"
  have bs1: "us_bs (us_upsch_status di St_S s1) = us_bs s" by (simp add: s1_def us_upsch_status_def us_event_def)
  have b: "us_batchrq_add ue di SRMT_REPL_SCHEDWK (repl_ent (us_m s) (resm_res_id src) len amt (d * SL_BITS_PER_REPLICA)) 36 5
      (us_upsch_status di St_S s1) = Some (0, s2)"
    using assms(3) by (simp add: us_batchrq_add_def bs1 s2_def)
  have wr: "bmi_rwlock (mb (us_m s2)) = RW_WR" "bcm_busy (mb (us_m s2))" "fcmh_busy (mf (us_m s2))" "\<not> bcm_replmodwr (mb (us_m s2))"
    using applied_wr [OF assms(1), of ?tr d] by (simp_all add: s2_def s1_def us_upsch_status_def us_event_def)
  obtain s3 where s3: "us_bmap_rel (us_op_start s2) = Some s3" "released (us_m s3)" "us_bs s3 = us_bs s2" "us_bw s3 = us_bw s2"
    using bmap_rel_wr [OF wr] by blast
  have "us_bs s2 = bs" "us_bw s2 = us_bw s" by (simp_all add: s2_def s1_def us_upsch_status_def us_event_def)
  moreover have "tryrepl_sched ue (d * SL_BITS_PER_REPLICA) src dst di amt av len s =
      Some (1, if av then us_event (EvUpschPagein (resm_res_id dst)) s3 else s3)"
    using a b s3(1) by (simp add: tryrepl_sched_def Let_def repl_ent_def)
  ultimately show ?thesis using s3 by (simp add: us_event_def released_def)
qed

lemma tryrepl_succeeds:
  assumes "walk_ready (us_m s)" "us_st s d = BREPLST_REPL_QUEUED"
    and "res_getmemb r = Some dm" "ios_csvc (ue_ie ue) (resm_res_id dm)"
    and "amt = slm_bmap_calc_repltraffic (us_m s)" "amt \<noteq> 0" "tryrepl_len (us_m s) = Some len"
    and "resmpair_bw_adj (slm_bwqueuesz ue) (resm_res_id src) (resm_res_id dm) (int amt) (us_bw s) = Some (True, av, t)"
    and "batchrq_add (ue_ba ue) (res_id r) SRMT_REPL_SCHEDWK (repl_ent (us_m s) (resm_res_id src) len amt (d * SL_BITS_PER_REPLICA)) 36
      (ue_now ue + 5) (ue_newreq_rc ue (res_id r) (repl_ent (us_m s) (resm_res_id src) len amt (d * SL_BITS_PER_REPLICA))) (ue_send_rc ue) (us_bs s)
      = Some (0, bs)"
  shows "\<exists>s'. slm_upsch_tryrepl ue (d * SL_BITS_PER_REPLICA) src r s = Some (1, s') \<and>
    released (us_m s') \<and> us_bs s' = bs \<and> us_bw s' = t"
proof -
  let ?s1 = "s\<lparr>us_bw := t\<rparr>"
  have "slm_upsch_tryrepl ue (d * SL_BITS_PER_REPLICA) src r s =
      tryrepl_sched ue (d * SL_BITS_PER_REPLICA) src dm (res_id r) amt av len ?s1"
    using assms(3-8) by (simp add: slm_upsch_tryrepl_def us_bw_adj_def Let_def)
  moreover have "\<exists>s'. tryrepl_sched ue (d * SL_BITS_PER_REPLICA) src dm (res_id r) amt av len ?s1 = Some (1, s') \<and>
    released (us_m s') \<and> us_bs s' = bs \<and> us_bw s' = us_bw ?s1"
    by (rule tryrepl_sched_succeeds) (use assms(1,2,9) in simp_all)
  ultimately show ?thesis by simp
qed

text \<open>Replica \<open>i\<close> is a source that the given pass tries, through member \<open>m\<close>.\<close>

definition usable_src :: "'m upsch_env \<Rightarrow> 'm upst \<Rightarrow> nat \<Rightarrow> nat \<Rightarrow> nat \<Rightarrow> sl_resm \<Rightarrow> bool" where
  "usable_src ue s d pass i m \<longleftrightarrow> i \<noteq> d \<and> us_st s i = BREPLST_VALID \<and>
     (case libsl_id2res (be_cf (ue_be ue)) (rlist (fcmh_inoh (mf (us_m s))) ! i) of None \<Rightarrow> False
      | Some r \<Rightarrow> (pass = 1) = (res_type r = SLREST_ARCHIVAL_FS \<or> si_lease_disabled (ue_ie ue) (res_id r)) \<and>
          res_getmemb r = Some m \<and> ios_csvc (ue_ie ue) (resm_res_id m))"

lemma getrepl_loaded:
  assumes "inoh_ok ih" "i < ino_nrepls (inoh_ino ih)"
  shows "fcmh_getrepl ih i = Some (rlist ih ! i)"
proof (cases "i < SL_DEF_REPLICAS")
  case True
  then show ?thesis using assms by (simp add: fcmh_getrepl_def rlist_nth)
next
  case False
  then obtain x where "inoh_extras ih = Some x" using assms by (auto simp: inoh_ok_def split: option.splits)
  then show ?thesis using assms False by (simp add: fcmh_getrepl_def rlist_nth)
qed

definition members_ok :: "'m upsch_env \<Rightarrow> bool" where
  "members_ok ue \<longleftrightarrow> (\<forall>i r. libsl_id2res (be_cf (ue_be ue)) i = Some r \<longrightarrow> res_members r \<noteq> [])"

lemma src_loop_skips:
  assumes n: "\<nexists>m. usable_src ue s d pass i m" and mem: "members_ok ue"
    and g: "fcmh_getrepl (fcmh_inoh (mf (us_m s))) i = Some (rlist (fcmh_inoh (mf (us_m s))) ! i)"
  shows "\<exists>u. upd_src_loop ue d r pass (i # js) v s = upd_src_loop ue d r pass js u s"
proof (cases "i \<noteq> d \<and> us_st s i = BREPLST_VALID")
  case False
  then have "upd_src_loop ue d r pass (i # js) v s = upd_src_loop ue d r pass js v s"
    using g by (auto simp: repl_st_def split: option.splits)
  then show ?thesis by blast
next
  case True
  show ?thesis
  proof (cases "libsl_id2res (be_cf (ue_be ue)) (rlist (fcmh_inoh (mf (us_m s))) ! i)")
    case None
    then have "upd_src_loop ue d r pass (i # js) v s = upd_src_loop ue d r pass js v s" using g True by simp
    then show ?thesis by blast
  next
    case (Some x)
    then obtain m ms where m: "res_members x = m # ms" using mem by (cases "res_members x") (auto simp: members_ok_def)
    then have "(pass = 1) \<noteq> (res_type x = SLREST_ARCHIVAL_FS \<or> si_lease_disabled (ue_ie ue) (res_id x)) \<or>
        \<not> ios_csvc (ue_ie ue) (resm_res_id m)"
      using n True Some by (auto simp: usable_src_def res_getmemb_def)
    then have "upd_src_loop ue d r pass (i # js) v s = upd_src_loop ue d r pass js True s"
      by (elim disjE) (use g True Some m in \<open>simp_all add: repl_st_def res_getmemb_def\<close>)
    then show ?thesis by blast
  qed
qed

lemma src_loop_finds:
  assumes ih: "inoh_ok (fcmh_inoh (mf (us_m s)))" "set is \<subseteq> {..<fcmh_2_nrepls (mf (us_m s))}" and mem: "members_ok ue"
    and ok: "\<forall>i m. usable_src ue s d pass i m \<longrightarrow> (\<exists>s'. slm_upsch_tryrepl ue (d * SL_BITS_PER_REPLICA) m r s = Some (1, s'))"
  shows "if \<exists>i \<in> set is. \<exists>m. usable_src ue s d pass i m
    then \<exists>i \<in> set is. \<exists>m s' v'. usable_src ue s d pass i m \<and> slm_upsch_tryrepl ue (d * SL_BITS_PER_REPLICA) m r s = Some (1, s') \<and>
      upd_src_loop ue d r pass is v s = Some (True, v', s')
    else \<exists>v'. upd_src_loop ue d r pass is v s = Some (False, v', s)"
  using ih(2)
proof (induction "is" arbitrary: v)
  case (Cons i js)
  have g: "fcmh_getrepl (fcmh_inoh (mf (us_m s))) i = Some (rlist (fcmh_inoh (mf (us_m s))) ! i)"
    using getrepl_loaded [OF ih(1)] Cons.prems by simp
  have js: "set js \<subseteq> {..<fcmh_2_nrepls (mf (us_m s))}" using Cons.prems by simp
  note IH = Cons.IH [OF js]
  show ?case
  proof (cases "\<exists>m. usable_src ue s d pass i m")
    case True
    then obtain m where u: "usable_src ue s d pass i m" by blast
    then obtain x where x: "libsl_id2res (be_cf (ue_be ue)) (rlist (fcmh_inoh (mf (us_m s))) ! i) = Some x"
      "(pass = 1) = (res_type x = SLREST_ARCHIVAL_FS \<or> si_lease_disabled (ue_ie ue) (res_id x))"
      "res_getmemb x = Some m" "ios_csvc (ue_ie ue) (resm_res_id m)" "i \<noteq> d" "us_st s i = BREPLST_VALID"
      by (auto simp: usable_src_def split: option.splits)
    obtain s' where s': "slm_upsch_tryrepl ue (d * SL_BITS_PER_REPLICA) m r s = Some (1, s')" using ok u by blast
    have "upd_src_loop ue d r pass (i # js) v s = Some (True, True, s')"
      using g x s' by (simp add: repl_st_def)
    then show ?thesis using u s' by auto
  next
    case False
    obtain u where u: "upd_src_loop ue d r pass (i # js) v s = upd_src_loop ue d r pass js u s"
      using src_loop_skips [OF False mem g] by blast
    have c: "(\<exists>k \<in> set (i # js). \<exists>m. usable_src ue s d pass k m) = (\<exists>k \<in> set js. \<exists>m. usable_src ue s d pass k m)"
      using False by auto
    show ?thesis unfolding c u using IH [of u] by (simp split: if_splits) blast
  qed
qed simp

lemma proc_queued_finds:
  assumes ih: "inoh_ok (fcmh_inoh (mf (us_m s)))" and rnd: "rnd_ok ue (fcmh_2_nrepls (mf (us_m s)))" and mem: "members_ok ue"
    and ok: "\<forall>p i m. usable_src ue s d p i m \<longrightarrow> (\<exists>s'. slm_upsch_tryrepl ue (d * SL_BITS_PER_REPLICA) m r s = Some (1, s'))"
    and wr: "\<not> us_wr_ion s" and src: "i < fcmh_2_nrepls (mf (us_m s))" "usable_src ue s d p i m" "p < 2"
  shows "\<exists>q k x s' v'. k < fcmh_2_nrepls (mf (us_m s)) \<and> usable_src ue s d q k x \<and>
    slm_upsch_tryrepl ue (d * SL_BITS_PER_REPLICA) x r s = Some (1, s') \<and> upd_proc_queued ue d r v s = Some (True, v', s')"
proof -
  have o: "set (ue_src_order ue d q) = {..<fcmh_2_nrepls (mf (us_m s))}" for q using rnd by (simp add: rnd_ok_def)
  note l0 = src_loop_finds [OF ih equalityD1 [OF o [of 0]] mem spec [OF ok, of 0]]
  note l1 = src_loop_finds [OF ih equalityD1 [OF o [of 1]] mem spec [OF ok, of 1]]
  show ?thesis
  proof (cases "\<exists>k \<in> set (ue_src_order ue d 0). \<exists>x. usable_src ue s d 0 k x")
    case True
    then obtain k x s' v' where "k \<in> set (ue_src_order ue d 0)" "usable_src ue s d 0 k x"
      "slm_upsch_tryrepl ue (d * SL_BITS_PER_REPLICA) x r s = Some (1, s')"
      "upd_src_loop ue d r 0 (ue_src_order ue d 0) v s = Some (True, v', s')"
      using l0 [where v = v] by auto
    then show ?thesis using wr o by (fastforce simp: upd_proc_queued_def)
  next
    case False
    then obtain v1 where n: "upd_src_loop ue d r 0 (ue_src_order ue d 0) v s = Some (False, v1, s)" using l0 [where v = v] by auto
    have "p = 1" using False src o by (cases "p = 0") auto
    then have "\<exists>k \<in> set (ue_src_order ue d 1). \<exists>x. usable_src ue s d 1 k x" using src o by blast
    then obtain k x s' v' where "k \<in> set (ue_src_order ue d 1)" "usable_src ue s d 1 k x"
      "slm_upsch_tryrepl ue (d * SL_BITS_PER_REPLICA) x r s = Some (1, s')"
      "upd_src_loop ue d r 1 (ue_src_order ue d 1) v1 s = Some (True, v', s')"
      using l1 [where v = v1] by auto
    then show ?thesis using wr o n by (fastforce simp: upd_proc_queued_def simp del: One_nat_def)
  qed
qed

lemma dst_loop_finds:
  assumes ih: "inoh_ok (fcmh_inoh (mf (us_m s)))" and sub: "set ds \<subseteq> {..<fcmh_2_nrepls (mf (us_m s))}"
    and idle: "\<forall>k \<in> set ds. k \<noteq> d \<longrightarrow> idle_dst ue (us_m s) k" and d: "d \<in> set ds"
    and r: "libsl_id2res (be_cf (ue_be ue)) (rlist (fcmh_inoh (mf (us_m s))) ! d) = Some r"
    and st: "us_st s d = BREPLST_REPL_QUEUED" and q: "\<exists>v'. upd_proc_queued ue d r v s = Some (True, v', s')"
  shows "upd_dst_loop ue ds v s = Some (True, s')"
  using sub idle d
proof (induction ds)
  case (Cons k ds)
  have fr: "fcmh_2_repl (be_env (ue_be ue)) (fcmh_inoh (mf (us_m s))) k = Some (rlist (fcmh_inoh (mf (us_m s))) ! k, fcmh_inoh (mf (us_m s)))"
    using fcmh_2_repl_loaded [OF ih] Cons.prems(1) by simp
  have upd0: "s\<lparr>us_m := (us_m s)\<lparr>mf := (mf (us_m s))\<lparr>fcmh_inoh := fcmh_inoh (mf (us_m s))\<rparr>\<rparr>\<rparr> = s" by simp
  note l = upd_dst_loop.simps(2) [of ue k ds v s, unfolded fr Option.bind.simps prod.case upd0 Let_def]
  show ?case
  proof (cases "k = d")
    case True
    then show ?thesis using l r st q by (auto simp: repl_st_def)
  next
    case False
    then have "idle_dst ue (us_m s) k" using Cons.prems(2) by simp
    then have "upd_dst_loop ue (k # ds) v s = upd_dst_loop ue ds v s"
      using l by (auto simp: idle_dst_def repl_st_def split: option.splits)
    then show ?thesis using Cons.IH Cons.prems False by simp
  qed
qed simp

lemma tryrepl_len_Some: "0 < fcmh_fsz (mf m) \<Longrightarrow> \<exists>len. tryrepl_len m = Some len"
  by (simp add: tryrepl_len_def Let_def)

text \<open>The entry that schedules replica \<open>d\<close> from resource \<open>x\<close> is accepted and leaves the batches \<open>bs\<close>.\<close>

definition accepted :: "'m upsch_env \<Rightarrow> u32 \<Rightarrow> nat \<Rightarrow> u32 \<Rightarrow> 'm upst \<Rightarrow> batch_ent batchst \<Rightarrow> bool" where
  "accepted ue di d x s bs \<longleftrightarrow> (\<exists>len e. e = repl_ent (us_m s) x len (slm_bmap_calc_repltraffic (us_m s)) (d * SL_BITS_PER_REPLICA) \<and>
     batchrq_add (ue_ba ue) di SRMT_REPL_SCHEDWK e 36 (ue_now ue + 5) (ue_newreq_rc ue di e) (ue_send_rc ue) (us_bs s) = Some (0, bs))"

lemma sched_try:
  assumes "walk_ready (us_m s)" "us_st s d = BREPLST_REPL_QUEUED" "res_getmemb r = Some dm" "ios_csvc (ue_ie ue) (resm_res_id dm)"
    and data: "fcmh_fsz (mf (us_m s)) > 0" "slm_bmap_calc_repltraffic (us_m s) \<noteq> 0"
    and bw: "\<forall>x. \<exists>av t. resmpair_bw_adj (slm_bwqueuesz ue) x (resm_res_id dm) (int (slm_bmap_calc_repltraffic (us_m s))) (us_bw s) =
      Some (True, av, t)"
    and ba: "\<forall>e. \<exists>bs. batchrq_add (ue_ba ue) (res_id r) SRMT_REPL_SCHEDWK e 36 (ue_now ue + 5) (ue_newreq_rc ue (res_id r) e)
      (ue_send_rc ue) (us_bs s) = Some (0, bs)"
  shows "\<exists>s'. slm_upsch_tryrepl ue (d * SL_BITS_PER_REPLICA) x r s = Some (1, s') \<and> released (us_m s') \<and>
    accepted ue (res_id r) d (resm_res_id x) s (us_bs s')"
proof -
  obtain len where len: "tryrepl_len (us_m s) = Some len" using tryrepl_len_Some [OF data(1)] by blast
  let ?e = "repl_ent (us_m s) (resm_res_id x) len (slm_bmap_calc_repltraffic (us_m s)) (d * SL_BITS_PER_REPLICA)"
  obtain av t where b: "resmpair_bw_adj (slm_bwqueuesz ue) (resm_res_id x) (resm_res_id dm)
      (int (slm_bmap_calc_repltraffic (us_m s))) (us_bw s) = Some (True, av, t)" using bw by blast
  obtain bs where a: "batchrq_add (ue_ba ue) (res_id r) SRMT_REPL_SCHEDWK ?e 36 (ue_now ue + 5) (ue_newreq_rc ue (res_id r) ?e)
      (ue_send_rc ue) (us_bs s) = Some (0, bs)" using ba by blast
  from tryrepl_succeeds [OF assms(1-4) refl data(2) len b a] show ?thesis using a by (auto simp: accepted_def)
qed

subsection \<open>The reply\<close>

lemma write_logrepls_defined:
  assumes "rw_ok be" "opstate_normal be" "has_data m" "bcm_busy (mb m)" "fcmh_busy (mf m)" "0 < bcm_opcnt (mb m)"
  shows "\<exists>rc m'. mds_bmap_write be Log_Repls m = Some (rc, m') \<and>
    (bcm_replmodwr (mb m') \<or> bcm_busy (mb m') \<and> fcmh_busy (mf m')) \<and> 0 < bcm_opcnt (mb m')"
proof -
  obtain rc nb lg x where pw: "pwritev_bmap be (mst_mfh m) (bcm_bmapno (mb m)) (bmi_2_ondisk (mb m))
      (crc64_bod be (bmi_2_ondisk (mb m))) (Log_Repls \<noteq> Log_None) = (rc, nb, lg, x)" using prod_cases4 by blast
  show ?thesis
    unfolding mds_bmap_write_unfold [OF assms(1) pw] using assms(2-6)
    by (cases lg) (simp_all add: run_logf_def mdslog_bmap_repls_def mdslogfill_bmap_repls_def mst_set_mfh_def mst_set_rw_def)
qed

lemma bmap_rel_runs:
  "bcm_replmodwr (mb m) \<or> bcm_busy (mb m) \<and> fcmh_busy (mf m) \<Longrightarrow> 0 < bcm_opcnt (mb m) \<Longrightarrow> \<exists>m'. slm_repl_bmap_rel m = Some m'"
  by (auto simp: slm_repl_bmap_rel_def bmap_op_done_def)

lemma cb_tract:
  "tract_ok (repl_cb_tract ecode bp inr)" "ret_val (Some (repl_cb_retifset ecode bp inr)) BREPLST_REPL_SCHED = 1"
  "tract_step (repl_cb_tract ecode bp inr) BREPLST_REPL_SCHED = (if repl_cb_ok ecode bp inr then BREPLST_VALID
     else if bp = None \<or> bp = Some SLERR_ION_OFFLINE then BREPLST_REPL_QUEUED else BREPLST_GARBAGE)"
  by (simp_all add: repl_cb_tract_def repl_cb_retifset_def brepls_init_list tract_ok_def tract_step_def ret_val_def)

lemma cb_rc:
  "repl_cb_ok ecode (repl_cb_rc g h bp) inr \<longleftrightarrow> ecode = 0 \<and> bp = Some 0 \<and> inr \<and> h = g"
  "repl_cb_rc g h bp = None \<longleftrightarrow> bp = None" "repl_cb_rc g h bp = Some SLERR_ION_OFFLINE \<longleftrightarrow> bp = Some SLERR_ION_OFFLINE"
  by (cases bp; force simp add: repl_cb_ok_def repl_cb_rc_def)+

lemma repl_cb_applies:
  assumes rel: "released (us_m s)" and ok: "brepls_ok (bmi_repls (mb (us_m s)))" "inoh_ok (fcmh_inoh (mf (us_m s)))"
    and be: "rw_ok be" "opstate_normal be" and hd: "has_data (us_m s)"
    and d: "d < SL_MAX_REPLICAS" "us_st s d = BREPLST_REPL_SCHED" and op: "0 < bcm_opcnt (mb (us_m s))"
    and tr: "tract_ok tr" "ret_val (Some ret) BREPLST_REPL_SCHED = 1"
  shows "\<exists>rc s1 rc2 s2 s3. bmap_apply tr (Some ret) (d * SL_BITS_PER_REPLICA) s = Some (rc, s1) \<and> rc \<noteq> 0 \<and>
    us_write_logrepls be s1 = Some (rc2, s2) \<and> us_bmap_rel s2 = Some s3 \<and>
    upd_at d (tract_step tr BREPLST_REPL_SCHED) s s3 \<and> us_bw s3 = us_bw s"
proof -
  have wr: "walk_ready (us_m s)" using rel by (simp add: released_def walk_ready_def)
  define s1 where "s1 = s\<lparr>us_m := applied tr d (us_m s)\<rparr>"
  have a: "bmap_apply tr (Some ret) (d * SL_BITS_PER_REPLICA) s = Some (1, s1)"
    using wr d(2) tr(2) by (simp add: bmap_apply_eq s1_def)
  have u1: "upd_at d (tract_step tr BREPLST_REPL_SCHED) s s1" using apply_at(1) [OF a tr(1) d(1) ok(1)] d(2) by simp
  have w1: "bcm_busy (mb (us_m s1))" "fcmh_busy (mf (us_m s1))" using applied_wr [OF wr, of tr d] by (simp_all add: s1_def)
  obtain k where k: "k < fcmh_2_nrepls (mf (us_m s))" "us_st s k \<in>
     {BREPLST_VALID, BREPLST_GARBAGE, BREPLST_GARBAGE_SCHED, BREPLST_TRUNCPNDG, BREPLST_TRUNCPNDG_SCHED}"
    using hd unfolding has_data_def by blast
  have "k < SL_MAX_REPLICAS" "k \<noteq> d" using k ok(2) d(2) by (auto simp: inoh_ok_def)
  then have "us_st s1 k = us_st s k" using u1 by (simp add: upd_at_def)
  moreover have "fcmh_2_nrepls (mf (us_m s1)) = fcmh_2_nrepls (mf (us_m s))" by (simp add: s1_def applied_def)
  ultimately have hd1: "has_data (us_m s1)" unfolding has_data_def using k by metis
  have op1: "0 < bcm_opcnt (mb (us_m s1))" using op by (simp add: s1_def applied_def wrlocked_def)
  obtain rc2 m2 where m2: "mds_bmap_write be Log_Repls (us_m s1) = Some (rc2, m2)"
    "bcm_replmodwr (mb m2) \<or> bcm_busy (mb m2) \<and> fcmh_busy (mf m2)" "0 < bcm_opcnt (mb m2)"
    using write_logrepls_defined [OF be hd1 w1 op1] by blast
  obtain m3 where m3: "slm_repl_bmap_rel m2 = Some m3" using bmap_rel_runs [OF m2(2,3)] by blast
  let ?s2 = "s1\<lparr>us_m := m2\<rparr>" and ?s3 = "s1\<lparr>us_m := m3\<rparr>"
  have w: "us_write_logrepls be s1 = Some (rc2, ?s2)" and r: "us_bmap_rel ?s2 = Some ?s3"
    using m2(1) m3 by (simp_all add: us_write_logrepls_def us_bmap_rel_def)
  have "upd_at d (tract_step tr BREPLST_REPL_SCHED) s ?s3"
    by (rule upd_at_same [OF upd_at_same [OF u1 us_ops_same(3) [OF w]] us_ops_same(2) [OF r]])
  moreover have "us_bw ?s3 = us_bw s" by (simp add: s1_def)
  ultimately show ?thesis using a w r by (intro exI conjI) (assumption | simp)+
qed

subsection \<open>Work from the table\<close>

text \<open>
  A row of the scheduler's table brings its bmap to the queue exactly when a replica is queued or
  waits for a truncation; otherwise the rows of the bmap are purged, also those of garbage.
\<close>

lemma pagein_ret: "v < 8 \<Longrightarrow> ret_val (Some pagein_retifset) v \<noteq> 0 \<longleftrightarrow> v = BREPLST_REPL_QUEUED \<or> v = BREPLST_TRUNCPNDG"
  using less_8_cases [of v] by (auto simp: ret_val_def pagein_retifset_def brepls_init_list)

lemma pagein_unit_outcome:
  assumes ok: "inoh_ok (fcmh_inoh (mf m))"
  shows "\<exists>m'. upd_proc_pagein_unit be 0 0 m = Some (if \<exists>k < fcmh_2_nrepls (mf m).
       repl_st (bmi_repls (mb m)) k = BREPLST_REPL_QUEUED \<or> repl_st (bmi_repls (mb m)) k = BREPLST_TRUNCPNDG
     then Purge_None else Purge_Bmap (bcm_bmapno (mb m)), m') \<and> bmi_repls (mb m') = bmi_repls (mb m)"
proof -
  define m1 where "m1 = m\<lparr>mb := (mb m)\<lparr>bcm_opcnt := bcm_opcnt (mb m) + 1, bcm_busy := True, bmi_rwlock := RW_WR\<rparr>\<rparr>"
  have ld: "(if fcmh_2_nrepls (mf m) > SL_DEF_REPLICAS then map_option snd (mds_inox_ensure_loaded (be_env be) (fcmh_inoh (mf m)))
      else Some (fcmh_inoh (mf m))) = Some (fcmh_inoh (mf m))"
    using ok by (auto simp: inoh_ok_def ensure_loaded_ready split: option.splits)
  have rel: "rd_released (mb m1) = mb m1" by (simp add: rd_released_def m1_def)
  obtain rc where w: "mds_repl_bmap_walk None (Some pagein_retifset) REPL_WALKF_SCIRCUIT [] None (m1, ()) = Some (rc, m1, ())"
    and rc: "rc \<noteq> 0 \<longleftrightarrow> (\<exists>k < fcmh_2_nrepls (mf m1). ret_val (Some pagein_retifset) (repl_st (bmi_repls (mb m1)) k) \<noteq> 0)"
    using walk_all_scircuit [of pagein_retifset m1 "()"] by (elim exE conjE) (simp add: rel del: One_nat_def split: if_splits)
  have rc': "rc \<noteq> 0 \<longleftrightarrow> (\<exists>k < fcmh_2_nrepls (mf m). repl_st (bmi_repls (mb m)) k = BREPLST_REPL_QUEUED \<or>
      repl_st (bmi_repls (mb m)) k = BREPLST_TRUNCPNDG)"
    unfolding rc pagein_ret [OF brt.tget_less] by (simp add: m1_def)
  have "upd_proc_pagein_unit be 0 0 m =
      Some (if rc \<noteq> 0 then Purge_None else Purge_Bmap (bcm_bmapno (mb m)), m1\<lparr>mb := (mb m1)\<lparr>bmi_rwlock := RW_NONE, bcm_busy := False,
        bcm_opcnt := bcm_opcnt (mb m)\<rparr>, mev := mev m @ (if rc \<noteq> 0 then [EvUpschEnqueue (bcm_bmapno (mb m))] else [])\<rparr>)"
    using ld w unfolding upd_proc_pagein_unit_def
    by (simp add: m1_def bmap_op_done_def Let_def del: One_nat_def)
  then show ?thesis unfolding rc' by (simp add: m1_def)
qed

subsection \<open>Examples\<close>

definition ue_ex :: "(u32 \<Rightarrow> bool) \<Rightarrow> (nat \<Rightarrow> bmap_ondisk \<times> u64) upsch_env" where
  "ue_ex con = \<lparr>ue_be = be_sel_ex, ue_ie = ie_ex\<lparr>ios_csvc := con\<rparr>, ue_ba = env_ex, slm_bwqueuesz = 1000, PFLERR_NOTSUP = 2003,
     resm_getcsvcerr = (\<lambda>_. - 2004), ue_newreq_rc = (\<lambda>_ _. 0), ue_send_rc = 0, ue_ptrunc_newreq_rc = (\<lambda>_. 0),
     ue_nbrqset_rc = (\<lambda>_. 0), ue_now = 0, ue_dst_order = [0, 1], ue_src_order = (\<lambda>_ _. [1, 0])\<rparr>"

text \<open>The first replica is valid, the second one queued or waiting for a truncation.\<close>

definition us_ex :: "nat \<Rightarrow> (nat \<Rightarrow> bmap_ondisk \<times> u64) upst" where
  "us_ex v = \<lparr>us_m = (let m = ms_ex [12, 13] (of_nat (3 + 8 * v) # replicate 23 0)
       in m\<lparr>mb := (mb m)\<lparr>bmi_crcstates := replicate 128 1\<rparr>\<rparr>),
     us_wr_ion = False, us_bw = bw_zero, us_bs = batch_empty, us_rpmi_upschq = (\<lambda>_. False),
     us_preclaim_notsup = (\<lambda>_. False), us_ptrunc = []\<rparr>"

lemma rnd_ex: "rnd_ok (ue_ex con) 2"
  by (auto simp: rnd_ok_def ue_ex_def lessThan_Suc numeral_2_eq_2)

lemma us_ex_ready:
  "brepls_ok (bmi_repls (mb (us_m (us_ex v))))" "inoh_ok (fcmh_inoh (mf (us_m (us_ex v))))"
  "fcmh_2_nrepls (mf (us_m (us_ex v))) = 2"
  by (simp_all add: us_ex_def ms_ex_def bmap_ex_def brepls_ok_def inoh_ok_def SL_REPLICA_NBYTES_def Let_def)

lemma us_ex_st: "v < 8 \<Longrightarrow> us_st (us_ex v) 0 = BREPLST_VALID" "v < 8 \<Longrightarrow> us_st (us_ex v) 1 = v"
  by (auto simp: us_ex_def ms_ex_def bmap_ex_def repl_st_def SL_REPL_GET_BMAP_IOS_STAT_def SL_REPLICA_MASK_def Let_def
      dest!: less_8_cases)

lemma us_ex_res:
  "libsl_id2res (be_cf (ue_be (ue_ex con))) i =
     Some \<lparr>res_id = i, res_type = SLREST_STANDALONE_FS, res_name = ''r'', res_members = [m_ex i]\<rparr>"
  by (simp add: ue_ex_def be_sel_ex_def libsl_id2res_def)

lemma us_ex_sched:
  "slm_bmap_calc_repltraffic (us_m (us_ex v)) = 100" "fcmh_fsz (mf (us_m (us_ex v))) = 100" "released (us_m (us_ex v))"
  "rlist (fcmh_inoh (mf (us_m (us_ex v)))) = [12, 13]" "us_bw (us_ex v) = bw_zero" "us_bs (us_ex v) = batch_empty"
  by (simp_all add: us_ex_def ms_ex_def bmap_ex_def released_def rlist_def slm_bmap_calc_repltraffic_def fcmh_nvalidbmaps_def
      upt_conv_Cons Let_def)

lemma ue_ex_bw:
  "\<exists>av t. resmpair_bw_adj (slm_bwqueuesz (ue_ex con)) x y 100 bw_zero = Some (True, av, t)"
  by (simp add: resmpair_bw_adj_def adj_egress_def adj_ingress_def adj_aggr_def ADJ_BW_Some bw_zero_def pair_has_bw_def HAS_BW_def
      bw_units_def ue_ex_def Let_def)

lemma ue_ex_batch:
  "\<exists>bs. batchrq_add (ue_ba (ue_ex con)) r SRMT_REPL_SCHEDWK e 36 (ue_now (ue_ex con) + 5) (ue_newreq_rc (ue_ex con) r e)
     (ue_send_rc (ue_ex con)) batch_empty = Some (0, bs)"
  by (simp add: batchrq_add_def batch_empty_def batch_create_def br_upd_def env_ex_def ue_ex_def Let_def)

subsection \<open>Properties\<close>






text \<open>
  C14: processing a bmap changes the states of its replicas only along the moves of the scheduler.
  A queued replica, and only when no write lease is out, becomes scheduled, or valid when there is
  nothing to copy, or garbage when no other replica is valid on a configured I/O system; a replica
  with a pending truncation or with garbage becomes scheduled for it. Every other replica keeps its
  state, so that valid ones stay valid, and the table stays well-formed.
\<close>

theorem upd_proc_bmap_moves:
  assumes "upd_proc_bmap ue s = Some s'" "brepls_ok (bmi_repls (mb (us_m s)))" "inoh_ok (fcmh_inoh (mf (us_m s)))"
    and "rnd_ok ue (fcmh_2_nrepls (mf (us_m s)))"
  shows "brepls_ok (bmi_repls (mb (us_m s'))) \<and>
    (\<forall>k < SL_MAX_REPLICAS. us_st s' k = us_st s k \<or> upd_move ue s k (us_st s' k)) \<and>
    (\<forall>k < SL_MAX_REPLICAS. us_st s k = BREPLST_VALID \<longrightarrow> us_st s' k = BREPLST_VALID)"
proof -
  let ?s1 = "s\<lparr>us_m := set_busy True (us_m s)\<rparr>"
  have c: "upd_cont s ?s1" using assms(2) by (simp add: upd_cont_def mst_same_def set_busy_def)
  have "upd_moved ue s s'"
  proof (cases "bcm_replmodwr (mb (us_m s))")
    case True
    then show ?thesis using assms(1,2) by (simp add: upd_proc_bmap_def upd_moved_def)
  next
    case False
    then obtain ret s2 where l: "upd_dst_loop ue (ue_dst_order ue) False ?s1 = Some (ret, s2)"
      and s': "bmi_repls (mb (us_m s')) = bmi_repls (mb (us_m s2))"
      using assms(1) by (auto simp: upd_proc_bmap_def bind_eq_Some_conv bmap_fcmh_unbusy_def set_busy_def mst_set_rw_def Let_def
          split: if_splits)
    have "upd_moved ue s s2" using dst_loop_moved [OF l c assms(3,4)] assms(4) by (simp add: rnd_ok_def)
    then show ?thesis using s' by (simp add: upd_moved_def)
  qed
  then show ?thesis by (auto simp: upd_moved_def upd_move_def)
qed

theorem upd_proc_bmap_moves_witness:
  "\<exists>s'. upd_proc_bmap (ue_ex (\<lambda>_. True)) (us_ex BREPLST_VALID) = Some s' \<and> us_st s' 1 = BREPLST_VALID"
proof -
  let ?ue = "ue_ex (\<lambda>_. True)" and ?s = "us_ex BREPLST_VALID"
  define s1 where "s1 = ?s\<lparr>us_m := set_busy True (us_m ?s)\<rparr>"
  have st: "us_st ?s 0 = BREPLST_VALID" "us_st ?s 1 = BREPLST_VALID" using us_ex_st [of BREPLST_VALID] by simp_all
  have r: "bmi_repls (mb (us_m s1)) = bmi_repls (mb (us_m ?s))" "fcmh_inoh (mf (us_m s1)) = fcmh_inoh (mf (us_m ?s))"
    "bcm_busy (mb (us_m s1))" "fcmh_busy (mf (us_m s1))" by (simp_all add: s1_def set_busy_def)
  have i: "\<forall>d \<in> set (ue_dst_order ?ue). idle_dst ?ue (us_m s1) d" "\<not> (\<exists>d \<in> set (ue_dst_order ?ue). offline_ptrunc ?ue (us_m s1) d)"
    using st r(1) by (simp_all add: idle_dst_def offline_ptrunc_def ue_ex_def)
  have "set (ue_dst_order ?ue) \<subseteq> {..<fcmh_2_nrepls (mf (us_m s1))}" "inoh_ok (fcmh_inoh (mf (us_m s1)))"
    using us_ex_ready r(2) by (simp_all add: ue_ex_def)
  then have "upd_dst_loop ?ue (ue_dst_order ?ue) False s1 = Some (False, s1)"
    using dst_loop_offline [of s1 "ue_dst_order ?ue" ?ue False] i by simp
  then obtain s' where s': "upd_proc_bmap ?ue ?s = Some s'"
    using us_ex_sched(3) [of BREPLST_VALID] r(3,4)
    by (simp add: upd_proc_bmap_def released_def s1_def [symmetric] bmap_fcmh_unbusy_def mst_set_rw_def Let_def)
  have rnd: "rnd_ok ?ue (fcmh_2_nrepls (mf (us_m ?s)))" by (simp add: us_ex_ready rnd_ex)
  have "\<forall>k < SL_MAX_REPLICAS. us_st ?s k = BREPLST_VALID \<longrightarrow> us_st s' k = BREPLST_VALID"
    using upd_proc_bmap_moves [OF s' us_ex_ready(1,2) rnd] by (elim conjE)
  then have "us_st s' 1 = BREPLST_VALID" using st(2) by simp
  then show ?thesis using s' by blast
qed

text \<open>
  C40: the scheduler stops the metadata server on a bmap that waits for a truncation whose I/O
  server is not connected, when there is no work for the other replicas. The query for a
  truncation in progress gives up the busy flag of the bmap, and the end of the function asserts
  that it is still held.
\<close>

theorem upd_proc_bmap_ptrunc_aborts:
  assumes "\<not> bcm_replmodwr (mb (us_m s))" "bmi_rwlock (mb (us_m s)) = RW_NONE" "inoh_ok (fcmh_inoh (mf (us_m s)))"
    and "rnd_ok ue (fcmh_2_nrepls (mf (us_m s)))"
    and "\<forall>d < fcmh_2_nrepls (mf (us_m s)). idle_dst ue (us_m s) d \<or> offline_ptrunc ue (us_m s) d"
    and "d < fcmh_2_nrepls (mf (us_m s))" "offline_ptrunc ue (us_m s) d"
  shows "upd_proc_bmap ue s = None"
proof (cases "fcmh_busy (mf (us_m s))")
  case True
  then show ?thesis using assms(1) by (simp add: upd_proc_bmap_def)
next
  case False
  define s1 where "s1 = s\<lparr>us_m := set_busy True (us_m s)\<rparr>"
  have e: "bmi_repls (mb (us_m s1)) = bmi_repls (mb (us_m s))" "fcmh_inoh (mf (us_m s1)) = fcmh_inoh (mf (us_m s))"
    "bmi_rwlock (mb (us_m s1)) = RW_NONE"
    using assms(2) by (simp_all add: s1_def set_busy_def)
  have c: "idle_dst ue (us_m s1) k = idle_dst ue (us_m s) k" "offline_ptrunc ue (us_m s1) k = offline_ptrunc ue (us_m s) k" for k
    using e by (simp_all add: idle_dst_def offline_ptrunc_def)
  have "upd_dst_loop ue (ue_dst_order ue) False s1 =
      Some (False, s1\<lparr>us_m := (us_m s1)\<lparr>mb := rd_released (mb (us_m s1))\<rparr>\<rparr>)"
    using dst_loop_offline [of s1 "ue_dst_order ue" ue False] assms(3-7) e c by (auto simp: rnd_ok_def)
  then show ?thesis
    using assms(1) False e(3) by (simp add: upd_proc_bmap_def s1_def [symmetric] bmap_fcmh_unbusy_def rd_released_def)
qed

theorem upd_proc_bmap_ptrunc_aborts_witness:
  "upd_proc_bmap (ue_ex (\<lambda>_. False)) (us_ex BREPLST_TRUNCPNDG) = None"
proof (rule upd_proc_bmap_ptrunc_aborts [where d = 1])
  let ?s = "us_ex BREPLST_TRUNCPNDG"
  show "\<not> bcm_replmodwr (mb (us_m ?s))" "bmi_rwlock (mb (us_m ?s)) = RW_NONE"
    by (simp_all add: us_ex_def ms_ex_def bmap_ex_def Let_def)
  have 1: "offline_ptrunc (ue_ex (\<lambda>_. False)) (us_m ?s) 1"
    using us_ex_st(2) [of BREPLST_TRUNCPNDG] us_ex_res by (simp add: offline_ptrunc_def res_getmemb_def ue_ex_def)
  then show "offline_ptrunc (ue_ex (\<lambda>_. False)) (us_m ?s) 1" .
  have "idle_dst (ue_ex (\<lambda>_. False)) (us_m ?s) 0" using us_ex_st(1) [of BREPLST_TRUNCPNDG] by (simp add: idle_dst_def)
  then show "\<forall>d < fcmh_2_nrepls (mf (us_m ?s)). idle_dst (ue_ex (\<lambda>_. False)) (us_m ?s) d \<or> offline_ptrunc (ue_ex (\<lambda>_. False)) (us_m ?s) d"
    using 1 by (auto simp: us_ex_ready(3) less_2_cases_iff)
qed (simp_all add: us_ex_ready rnd_ex)

end
